(* ===== verification/Prelude.thy ===== *)
theory Prelude
  imports Complex_Main "HOL-Library.Word" "HOL-Library.AList"
begin

text \<open>
  What every component shares: JavaScript strings as sequences of 16-bit code units, the
  insertion-ordered containers Map and Set as the code uses them, and the generic lemmas on
  them. The collection \<open>js_simps\<close> gathers the rewrite rules that component proofs pass to
  the simplifier.
\<close>

named_theorems js_simps \<open>rewrite rules for the JavaScript containers and strings\<close>

section \<open>Strings\<close>

text \<open>
  A JavaScript string is a sequence of UTF-16 code units; \<open>length\<close>, \<open>startsWith\<close>, \<open>includes\<close>,
  \<open>slice\<close>, \<open>===\<close> and \<open><\<close> all work on code units. \<open>lit\<close> writes an ASCII literal of the
  source.
\<close>

type_synonym js_string = "16 word list"

definition lit :: "string \<Rightarrow> js_string" where
  "lit s = map of_char s"

lemma of_char_less_256: "(of_char c :: nat) < 256"
proof -
  have "(of_char c :: nat) = of_char (char_of (of_char c :: nat))" by simp
  also have "\<dots> = of_char c mod 256" by (simp only: of_char_of)
  also have "\<dots> < 256" by simp
  finally show ?thesis .
qed

lemma of_char_word16_inj: "(of_char c :: 16 word) = of_char d \<longleftrightarrow> c = d"
proof
  assume "(of_char c :: 16 word) = of_char d"
  then have "(of_nat (of_char c) :: 16 word) = of_nat (of_char d)"
    by (simp add: of_nat_of_char)
  then have "unat (of_nat (of_char c) :: 16 word) = unat (of_nat (of_char d) :: 16 word)" by simp
  then have "(of_char c :: nat) = of_char d"
    using of_char_less_256 [of c] of_char_less_256 [of d] by (simp add: unat_of_nat)
  then show "c = d" by simp
qed simp

lemma lit_inj [simp]: "lit s = lit t \<longleftrightarrow> s = t"
  unfolding lit_def by (rule inj_map_eq_map) (simp add: inj_def of_char_word16_inj)

lemma lit_Nil [simp]: "lit [] = []"
  by (simp add: lit_def)

lemma lit_append: "lit (s @ t) = lit s @ lit t"
  by (simp add: lit_def)

lemma lit_eq_Nil [simp]: "lit s = [] \<longleftrightarrow> s = []"
  by (simp add: lit_def)

text \<open>A string between double quotes, as the template literals of the source build it.\<close>

definition quoted :: "js_string \<Rightarrow> js_string" where
  "quoted s = lit [CHR 0x22] @ s @ lit [CHR 0x22]"

text \<open>Decimal rendering of a natural number, as a template literal renders an index.\<close>

fun dec_digits :: "nat \<Rightarrow> string" where
  "dec_digits n = (if n < 10 then [char_of (48 + n)]
                   else dec_digits (n div 10) @ [char_of (48 + n mod 10)])"

declare dec_digits.simps [simp del]

definition show_nat :: "nat \<Rightarrow> js_string" where
  "show_nat n = lit (dec_digits n)"

text \<open>
  \<open>s.includes(t)\<close>, \<open>s.startsWith(t)\<close>, \<open>s.endsWith(t)\<close>, \<open>xs.join(sep)\<close> and the order \<open><\<close> on
  strings, which compares code units.
\<close>

fun starts_with :: "'a list \<Rightarrow> 'a list \<Rightarrow> bool" where
  "starts_with s [] = True"
| "starts_with [] (y # ys) = False"
| "starts_with (x # xs) (y # ys) = (x = y \<and> starts_with xs ys)"

definition ends_with :: "'a list \<Rightarrow> 'a list \<Rightarrow> bool" where
  "ends_with s t = starts_with (rev s) (rev t)"

fun has_substring :: "'a list \<Rightarrow> 'a list \<Rightarrow> bool" where
  "has_substring [] t = (t = [])"
| "has_substring (x # xs) t = (starts_with (x # xs) t \<or> has_substring xs t)"

fun join :: "js_string \<Rightarrow> js_string list \<Rightarrow> js_string" where
  "join sep [] = []"
| "join sep [x] = x"
| "join sep (x # y # zs) = x @ sep @ join sep (y # zs)"

fun string_less :: "js_string \<Rightarrow> js_string \<Rightarrow> bool" where
  "string_less [] [] = False"
| "string_less [] (y # ys) = True"
| "string_less (x # xs) [] = False"
| "string_less (x # xs) (y # ys) = (x < y \<or> (x = y \<and> string_less xs ys))"

lemma starts_with_iff: "starts_with s t \<longleftrightarrow> (\<exists>r. s = t @ r)"
  by (induction s t rule: starts_with.induct) auto

lemma ends_with_iff: "ends_with s t \<longleftrightarrow> (\<exists>r. s = r @ t)"
proof
  assume "ends_with s t"
  then obtain r where "rev s = rev t @ r" by (auto simp: ends_with_def starts_with_iff)
  then have "s = rev r @ t" by (metis rev_append rev_rev_ident)
  then show "\<exists>r. s = r @ t" ..
next
  assume "\<exists>r. s = r @ t"
  then show "ends_with s t" by (auto simp: ends_with_def starts_with_iff)
qed

lemma has_substring_iff: "has_substring s t \<longleftrightarrow> (\<exists>p r. s = p @ t @ r)"
proof (induction s)
  case Nil
  then show ?case by auto
next
  case (Cons x xs)
  show ?case
  proof
    assume "has_substring (x # xs) t"
    then consider "starts_with (x # xs) t" | "has_substring xs t" by auto
    then show "\<exists>p r. x # xs = p @ t @ r"
    proof cases
      case 1
      then obtain r where "x # xs = t @ r" by (auto simp: starts_with_iff)
      then have "x # xs = [] @ t @ r" by simp
      then show ?thesis by blast
    next
      case 2
      with Cons.IH obtain p r where "xs = p @ t @ r" by blast
      then have "x # xs = (x # p) @ t @ r" by simp
      then show ?thesis by blast
    qed
  next
    assume "\<exists>p r. x # xs = p @ t @ r"
    then obtain p r where eq: "x # xs = p @ t @ r" by blast
    show "has_substring (x # xs) t"
    proof (cases p)
      case Nil
      with eq have "starts_with (x # xs) t" by (simp add: starts_with_iff)
      then show ?thesis by simp
    next
      case (Cons y ys)
      with eq have "xs = ys @ t @ r" by simp
      with Cons.IH show ?thesis by auto
    qed
  qed
qed

lemma string_less_irrefl: "\<not> string_less s s"
  by (induction s) auto

lemma string_less_trans: "string_less a b \<Longrightarrow> string_less b c \<Longrightarrow> string_less a c"
proof (induction a b arbitrary: c rule: string_less.induct)
  case (2 y ys)
  then show ?case by (cases c) auto
next
  case (4 x xs y ys)
  then show ?case by (cases c) auto
qed auto

lemma string_less_total: "a \<noteq> b \<Longrightarrow> string_less a b \<or> string_less b a"
  by (induction a b rule: string_less.induct) auto

section \<open>Map and Set\<close>

text \<open>
  A JavaScript \<open>Map\<close> iterates in insertion order and overwrites in place: an association list
  with \<open>AList.update\<close>. A \<open>Set\<close> is the list of its elements in insertion order.
\<close>

type_synonym ('k, 'v) js_map = "('k \<times> 'v) list"

abbreviation map_get :: "('k, 'v) js_map \<Rightarrow> 'k \<Rightarrow> 'v option" where
  "map_get \<equiv> map_of"

abbreviation map_set :: "'k \<Rightarrow> 'v \<Rightarrow> ('k, 'v) js_map \<Rightarrow> ('k, 'v) js_map" where
  "map_set \<equiv> AList.update"

text \<open>The loop \<open>for (const x of xs) m.set(key(x), value(x))\<close>.\<close>

definition index_by :: "('a \<Rightarrow> 'k) \<Rightarrow> ('a \<Rightarrow> 'v) \<Rightarrow> 'a list \<Rightarrow> ('k, 'v) js_map" where
  "index_by key val xs = fold (\<lambda>x. map_set (key x) (val x)) xs []"

definition set_add :: "'a \<Rightarrow> 'a list \<Rightarrow> 'a list" where
  "set_add x xs = (if x \<in> set xs then xs else xs @ [x])"

definition set_of_list :: "'a list \<Rightarrow> 'a list" where
  "set_of_list xs = fold set_add xs []"

lemma set_set_add [simp, js_simps]: "set (set_add x xs) = insert x (set xs)"
  by (auto simp: set_add_def)

lemma distinct_set_add [simp]: "distinct xs \<Longrightarrow> distinct (set_add x xs)"
  by (simp add: set_add_def)

lemma set_fold_set_add: "set (fold set_add ys xs) = set xs \<union> set ys"
  by (induction ys arbitrary: xs) auto

lemma distinct_fold_set_add: "distinct xs \<Longrightarrow> distinct (fold set_add ys xs)"
  by (induction ys arbitrary: xs) auto

lemma set_set_of_list [simp, js_simps]: "set (set_of_list xs) = set xs"
  by (simp add: set_of_list_def set_fold_set_add)

lemma distinct_set_of_list [simp]: "distinct (set_of_list xs)"
  by (simp add: set_of_list_def distinct_fold_set_add)

lemma set_of_list_Nil_iff [simp]: "set_of_list xs = [] \<longleftrightarrow> xs = []"
  by (metis set_empty set_set_of_list)

lemma length_fold_set_add:
  "distinct zs \<Longrightarrow> length (fold set_add xs zs) = card (set zs \<union> set xs)"
  by (metis distinct_card distinct_fold_set_add set_fold_set_add)

lemma length_set_of_list: "length (set_of_list xs) = card (set xs)"
  by (simp add: set_of_list_def length_fold_set_add)

lemma length_set_of_list_eq: "length (set_of_list xs) = length xs \<longleftrightarrow> distinct xs"
  by (metis card_distinct distinct_card length_set_of_list)

lemma find_snoc:
  "find P (xs @ [x]) = (case find P xs of None \<Rightarrow> (if P x then Some x else None) | Some y \<Rightarrow> Some y)"
  by (induction xs) auto

lemma map_of_index_by_fold:
  "map_of (fold (\<lambda>x. map_set (key x) (val x)) xs m) k =
     (case find (\<lambda>x. key x = k) (rev xs) of None \<Rightarrow> map_of m k | Some x \<Rightarrow> Some (val x))"
proof (induction xs arbitrary: m)
  case Nil
  then show ?case by simp
next
  case (Cons x xs)
  show ?case
    by (auto simp: Cons find_snoc update_conv' split: option.splits)
qed

text \<open>Looking a key up after indexing finds the last element that has it.\<close>

lemma map_of_index_by [js_simps]:
  "map_get (index_by key val xs) k = map_option val (find (\<lambda>x. key x = k) (rev xs))"
  by (auto simp: index_by_def map_of_index_by_fold split: option.splits)

lemma find_SomeD: "find P xs = Some x \<Longrightarrow> P x \<and> x \<in> set xs"
  by (induction xs) (auto split: if_splits)

lemma find_split:
  "find P xs = Some x \<Longrightarrow> \<exists>ys zs. xs = ys @ x # zs \<and> P x \<and> (\<forall>y \<in> set ys. \<not> P y)"
proof (induction xs)
  case (Cons a as)
  show ?case
  proof (cases "P a")
    case True
    with Cons.prems have "a # as = [] @ x # as \<and> P x \<and> (\<forall>y \<in> set []. \<not> P y)" by simp
    then show ?thesis by blast
  next
    case False
    with Cons obtain ys zs where "as = ys @ x # zs" "P x" "\<forall>y \<in> set ys. \<not> P y" by auto
    with False have "a # as = (a # ys) @ x # zs \<and> P x \<and> (\<forall>y \<in> set (a # ys). \<not> P y)" by simp
    then show ?thesis by blast
  qed
qed simp

lemma find_Some_iff_split:
  "find P xs = Some x \<longleftrightarrow> (\<exists>ys zs. xs = ys @ x # zs \<and> P x \<and> (\<forall>y \<in> set ys. \<not> P y))"
proof
  assume "\<exists>ys zs. xs = ys @ x # zs \<and> P x \<and> (\<forall>y \<in> set ys. \<not> P y)"
  then obtain ys zs where "xs = ys @ x # zs" "P x" "\<forall>y \<in> set ys. \<not> P y" by blast
  then show "find P xs = Some x" by (induction ys arbitrary: xs) auto
qed (rule find_split)

lemma find_None_iff_all: "find P xs = None \<longleftrightarrow> (\<forall>x \<in> set xs. \<not> P x)"
  by (induction xs) auto

lemma index_by_SomeD:
  "map_get (index_by key val xs) k = Some v \<Longrightarrow> \<exists>x \<in> set xs. key x = k \<and> v = val x"
  by (auto simp: map_of_index_by dest!: find_SomeD)

lemma index_by_None_iff:
  "map_get (index_by key val xs) k = None \<longleftrightarrow> k \<notin> key ` set xs"
  by (auto simp: map_of_index_by find_None_iff_all)

lemma index_by_Some_ex:
  "x \<in> set xs \<Longrightarrow> \<exists>y. map_get (index_by key val xs) (key x) = Some y"
  by (metis image_eqI index_by_None_iff not_None_eq)

lemma find_distinct_key:
  "distinct (map key xs) \<Longrightarrow> x \<in> set xs \<Longrightarrow> find (\<lambda>y. key y = key x) (rev xs) = Some x"
proof (induction xs)
  case (Cons y ys)
  show ?case
  proof (cases "x \<in> set ys")
    case True
    with Cons show ?thesis by (simp add: find_snoc)
  next
    case False
    with Cons.prems have "x = y" and "y \<notin> set ys" and "key y \<notin> key ` set ys" by auto
    then have "\<forall>z \<in> set ys. key z \<noteq> key x" by (metis image_eqI)
    then have "find (\<lambda>z. key z = key x) (rev ys) = None" by (simp add: find_None_iff_all)
    with \<open>x = y\<close> show ?thesis by (simp add: find_snoc)
  qed
qed simp

lemma index_by_distinct:
  "distinct (map key xs) \<Longrightarrow> x \<in> set xs \<Longrightarrow> map_get (index_by key val xs) (key x) = Some (val x)"
  by (simp add: map_of_index_by find_distinct_key)

lemma set_keys_index_by: "set (map fst (index_by key val xs)) = key ` set xs"
proof (rule set_eqI)
  fix k
  have "k \<in> set (map fst (index_by key val xs)) \<longleftrightarrow> map_get (index_by key val xs) k \<noteq> None"
    by (simp add: map_of_eq_None_iff)
  also have "\<dots> \<longleftrightarrow> k \<in> key ` set xs" by (simp add: index_by_None_iff)
  finally show "k \<in> set (map fst (index_by key val xs)) \<longleftrightarrow> k \<in> key ` set xs" .
qed

end
