(* ===== verification/Js_Number.thy ===== *)
theory Js_Number
  imports Prelude "HOL-Library.Log_Nat"
begin

text \<open>
  JavaScript numbers: IEEE 754 binary64 values. A finite value is the rational number it
  denotes, so comparisons are exact and every arithmetic operation is the exact rational result
  rounded once (to nearest, ties to even, overflow to infinity). The two zeros are one value:
  nothing in the modelled code tells them apart. \<open>number_to_string\<close> is \<open>Number::toString\<close>
  (shortest digits that round back), \<open>digits_to_number\<close> is \<open>Number(s)\<close> on a string of digits.
\<close>

datatype js_number = NaN | PosInf | NegInf | Fin rat

section \<open>Rounding\<close>

text \<open>The floor of the binary logarithm of a positive rational.\<close>

definition ilog2 :: "rat \<Rightarrow> int" where
  "ilog2 x = (if 1 \<le> x then int (floorlog 2 (nat \<lfloor>x\<rfloor>)) - 1
              else - int (floorlog 2 (nat (\<lceil>1 / x\<rceil> - 1))))"

text \<open>The nearest integer, ties to even.\<close>

definition round_half_even :: "rat \<Rightarrow> int" where
  "round_half_even y =
     (let f = \<lfloor>y\<rfloor>; d = y - of_int f in
      if d < 1 / 2 then f else if 1 / 2 < d then f + 1 else if even f then f else f + 1)"

text \<open>
  The exponent of the last place of the binary64 numbers around \<open>x > 0\<close>: 53 significant bits,
  down to the subnormal exponent.
\<close>

definition ulp_exp :: "rat \<Rightarrow> int" where
  "ulp_exp x = max (-1074) (ilog2 x - 52)"

definition round_pos :: "rat \<Rightarrow> rat" where
  "round_pos x = (if x = 0 then 0
                  else of_int (round_half_even (x / 2 powi ulp_exp x)) * 2 powi ulp_exp x)"

definition max_pow :: rat where
  "max_pow = 2 ^ 1024"

definition round_double :: "rat \<Rightarrow> js_number" where
  "round_double x =
     (if x < 0 then (if max_pow \<le> round_pos (- x) then NegInf else Fin (- round_pos (- x)))
      else (if max_pow \<le> round_pos x then PosInf else Fin (round_pos x)))"

section \<open>Comparison and arithmetic\<close>

fun num_lt :: "js_number \<Rightarrow> js_number \<Rightarrow> bool" where
  "num_lt NaN y = False"
| "num_lt x NaN = False"
| "num_lt PosInf y = False"
| "num_lt x NegInf = False"
| "num_lt NegInf y = True"
| "num_lt x PosInf = True"
| "num_lt (Fin a) (Fin b) = (a < b)"

fun num_eq :: "js_number \<Rightarrow> js_number \<Rightarrow> bool" where
  "num_eq NaN y = False"
| "num_eq x NaN = False"
| "num_eq x y = (x = y)"

definition num_le :: "js_number \<Rightarrow> js_number \<Rightarrow> bool" where
  "num_le x y = (num_lt x y \<or> num_eq x y)"

fun num_neg :: "js_number \<Rightarrow> js_number" where
  "num_neg NaN = NaN"
| "num_neg PosInf = NegInf"
| "num_neg NegInf = PosInf"
| "num_neg (Fin a) = Fin (- a)"

fun num_add :: "js_number \<Rightarrow> js_number \<Rightarrow> js_number" where
  "num_add NaN y = NaN"
| "num_add x NaN = NaN"
| "num_add PosInf NegInf = NaN"
| "num_add NegInf PosInf = NaN"
| "num_add PosInf y = PosInf"
| "num_add NegInf y = NegInf"
| "num_add x PosInf = PosInf"
| "num_add x NegInf = NegInf"
| "num_add (Fin a) (Fin b) = round_double (a + b)"

definition num_sub :: "js_number \<Rightarrow> js_number \<Rightarrow> js_number" where
  "num_sub x y = num_add x (num_neg y)"

text \<open>Division; a zero divisor is \<open>+0\<close>.\<close>

fun num_div :: "js_number \<Rightarrow> js_number \<Rightarrow> js_number" where
  "num_div NaN y = NaN"
| "num_div x NaN = NaN"
| "num_div PosInf (Fin b) = (if b < 0 then NegInf else PosInf)"
| "num_div NegInf (Fin b) = (if b < 0 then PosInf else NegInf)"
| "num_div (Fin a) (Fin b) =
     (if b = 0 then (if a = 0 then NaN else if a < 0 then NegInf else PosInf)
      else round_double (a / b))"
| "num_div (Fin a) y = Fin 0"
| "num_div x y = NaN"

text \<open>\<open>Math.max\<close>, \<open>Math.min\<close>, \<open>Number.isFinite\<close> and \<open>Number.isInteger\<close>.\<close>

definition math_max :: "js_number \<Rightarrow> js_number \<Rightarrow> js_number" where
  "math_max x y = (if x = NaN \<or> y = NaN then NaN else if num_lt x y then y else x)"

definition math_min :: "js_number \<Rightarrow> js_number \<Rightarrow> js_number" where
  "math_min x y = (if x = NaN \<or> y = NaN then NaN else if num_lt y x then y else x)"

fun is_finite_number :: "js_number \<Rightarrow> bool" where
  "is_finite_number (Fin a) = True"
| "is_finite_number x = False"

fun is_integer_number :: "js_number \<Rightarrow> bool" where
  "is_integer_number (Fin a) = (of_int \<lfloor>a\<rfloor> = a)"
| "is_integer_number x = False"

section \<open>Conversions\<close>

definition number_of_nat :: "nat \<Rightarrow> js_number" where
  "number_of_nat n = round_double (of_nat n)"

text \<open>
  Shortest decimal digits: the fewest digits \<open>k\<close> such that some \<open>s * 10 ^ (n - k)\<close> with \<open>k\<close>
  digits \<open>s\<close> rounds to \<open>x\<close>, and of those the closest. Seventeen digits always suffice.
\<close>

function ilog10_up :: "rat \<Rightarrow> int \<Rightarrow> int" where
  "ilog10_up x n = (if 10 powi n \<le> x \<and> n < 400 then ilog10_up x (n + 1) else n)"
  by pat_completeness auto
termination by (relation "measure (\<lambda>(x, n). nat (400 - n))") auto

declare ilog10_up.simps [simp del]

text \<open>The \<open>n\<close> with \<open>10 ^ (n - 1) \<le> x < 10 ^ n\<close>.\<close>

definition dec_exp :: "rat \<Rightarrow> int" where
  "dec_exp x = ilog10_up x (-330)"

definition digit_candidates :: "rat \<Rightarrow> int \<Rightarrow> nat \<Rightarrow> (int \<times> int) list" where
  "digit_candidates x n k =
     (let s = \<lfloor>x * 10 powi (int k - n)\<rfloor> in
      [(s, n), if s + 1 = 10 ^ k then (10 ^ (k - 1), n + 1) else (s + 1, n)])"

definition decimal_value :: "nat \<Rightarrow> int \<times> int \<Rightarrow> rat" where
  "decimal_value k c = of_int (fst c) * 10 powi (snd c - int k)"

fun shortest_digits :: "nat \<Rightarrow> rat \<Rightarrow> int \<Rightarrow> nat \<Rightarrow> int \<times> int \<times> nat" where
  "shortest_digits 0 x n k = (fst (digit_candidates x n k ! 0), n, k)"
| "shortest_digits (Suc fuel) x n k =
     (let ok = filter (\<lambda>c. 0 < fst c \<and> round_double (decimal_value k c) = Fin x)
                 (digit_candidates x n k)
      in case ok of
           [] \<Rightarrow> shortest_digits fuel x n (k + 1)
         | [c] \<Rightarrow> (fst c, snd c, k)
         | c # d # _ \<Rightarrow>
             (if \<bar>decimal_value k c - x\<bar> \<le> \<bar>decimal_value k d - x\<bar> then (fst c, snd c, k)
              else (fst d, snd d, k)))"

text \<open>\<open>Number::toString\<close> of a positive value, from its digits \<open>s\<close>, their count and exponent.\<close>

definition format_digits :: "int \<Rightarrow> int \<Rightarrow> nat \<Rightarrow> string" where
  "format_digits s n k =
     (let ds = dec_digits (nat s) in
      if int k \<le> n \<and> n \<le> 21 then ds @ replicate (nat (n - int k)) (CHR ''0'')
      else if 0 < n \<and> n \<le> 21 then take (nat n) ds @ ''.'' @ drop (nat n) ds
      else if -6 < n \<and> n \<le> 0 then ''0.'' @ replicate (nat (- n)) (CHR ''0'') @ ds
      else (if k = 1 then ds else take 1 ds @ ''.'' @ drop 1 ds) @ ''e'' @
           (if 0 \<le> n - 1 then ''+'' else ''-'') @ dec_digits (nat \<bar>n - 1\<bar>))"

definition pos_to_string :: "rat \<Rightarrow> string" where
  "pos_to_string x =
     (case shortest_digits 16 x (dec_exp x) 1 of (s, n, k) \<Rightarrow> format_digits s n k)"

fun number_to_string :: "js_number \<Rightarrow> js_string" where
  "number_to_string NaN = lit ''NaN''"
| "number_to_string PosInf = lit ''Infinity''"
| "number_to_string NegInf = lit ''-Infinity''"
| "number_to_string (Fin x) =
     (if x = 0 then lit ''0''
      else if x < 0 then lit (''-'' @ pos_to_string (- x))
      else lit (pos_to_string x))"

text \<open>\<open>Number(s)\<close> for a string of ASCII digits: its value, rounded.\<close>

definition digit_value :: "16 word \<Rightarrow> nat" where
  "digit_value c = unat c - 48"

definition digits_value :: "js_string \<Rightarrow> nat" where
  "digits_value ds = foldl (\<lambda>n c. 10 * n + digit_value c) 0 ds"

definition digits_to_number :: "js_string \<Rightarrow> js_number" where
  "digits_to_number ds = number_of_nat (digits_value ds)"

section \<open>Rounding is monotone and exact on small integers\<close>

lemma powi2_lessD: "(2::rat) powi m < 2 powi n \<Longrightarrow> m < n"
proof (rule ccontr)
  assume "(2::rat) powi m < 2 powi n" and "\<not> m < n"
  moreover from this have "(2::rat) powi n \<le> 2 powi m" by (intro power_int_increasing) auto
  ultimately show False by simp
qed

lemma floorlog2_bounds:
  assumes "0 < n"
  obtains k where "floorlog 2 n = Suc k" "2 ^ k \<le> n" "n < 2 ^ Suc k"
proof -
  have "floorlog 2 n \<noteq> 0" using assms by (simp add: floorlog_eq_zero_iff)
  then obtain k where k: "floorlog 2 n = Suc k" by (cases "floorlog 2 n") auto
  have "2 ^ (floorlog 2 n - 1) \<le> n \<and> n < 2 ^ floorlog 2 n"
    using assms by (intro floorlog_bounds) simp_all
  with k that show ?thesis by (simp only: diff_Suc_1)
qed

lemma ilog2_bounds:
  assumes "0 < x"
  shows "2 powi ilog2 x \<le> x" and "x < 2 powi (ilog2 x + 1)"
proof -
  have "2 powi ilog2 x \<le> x \<and> x < 2 powi (ilog2 x + 1)"
  proof (cases "1 \<le> x")
    case True
    define n where "n = nat \<lfloor>x\<rfloor>"
    have n0: "0 < n" using True by (simp add: n_def)
    have fx: "\<lfloor>x\<rfloor> = int n" using True by (simp add: n_def)
    obtain k where kk: "floorlog 2 n = Suc k" and b: "2 ^ k \<le> n" "n < 2 ^ Suc k"
      using floorlog2_bounds [OF n0] .
    have "(2::rat) ^ k \<le> of_nat n" using b(1) by (metis of_nat_le_iff of_nat_numeral of_nat_power)
    also have "of_nat n \<le> x" using fx by linarith
    finally have lo: "2 ^ k \<le> x" .
    have "n + 1 \<le> 2 ^ Suc k" using b(2) by simp
    then have "(of_nat (n + 1) :: rat) \<le> 2 ^ Suc k"
      by (metis of_nat_le_iff of_nat_numeral of_nat_power)
    moreover have "x < of_nat (n + 1)" using fx by linarith
    ultimately have hi: "x < 2 ^ Suc k" by linarith
    have "ilog2 x = int k" using True kk by (simp add: ilog2_def n_def)
    then show ?thesis using lo hi by (simp add: power_int_add_1)
  next
    case False
    define y where "y = 1 / x"
    have y: "1 < y" using False assms by (simp add: y_def)
    define n where "n = nat (\<lceil>y\<rceil> - 1)"
    have c: "\<lceil>y\<rceil> = int n + 1" using y unfolding n_def by linarith
    have n0: "0 < n" using y c by linarith
    obtain k where kk: "floorlog 2 n = Suc k" and b: "2 ^ k \<le> n" "n < 2 ^ Suc k"
      using floorlog2_bounds [OF n0] .
    have "(2::rat) ^ k \<le> of_nat n" using b(1) by (metis of_nat_le_iff of_nat_numeral of_nat_power)
    moreover have "of_nat n < y" using c by linarith
    ultimately have lo: "2 ^ k < y" by linarith
    have "n + 1 \<le> 2 ^ Suc k" using b(2) by simp
    then have "(of_nat (n + 1) :: rat) \<le> 2 ^ Suc k"
      by (metis of_nat_le_iff of_nat_numeral of_nat_power)
    moreover have "y \<le> of_nat (n + 1)" using c by linarith
    ultimately have hi: "y \<le> 2 ^ Suc k" by linarith
    have e: "ilog2 x = - int (Suc k)" using False kk by (simp add: ilog2_def n_def y_def)
    have xy: "x = 1 / y" by (simp add: y_def)
    have "(2::rat) powi ilog2 x = 1 / 2 ^ Suc k"
      by (simp only: e power_int_minus_divide power_int_of_nat)
    moreover have "1 / 2 ^ Suc k \<le> 1 / y" using hi y by (intro divide_left_mono) auto
    moreover have "ilog2 x + 1 = - int k" using e by simp
    then have "2 powi (ilog2 x + 1) = (1 / 2 ^ k :: rat)"
      by (simp only: power_int_minus_divide power_int_of_nat)
    moreover have "1 / y < 1 / 2 ^ k" using lo y by (intro divide_strict_left_mono) auto
    ultimately show ?thesis by (simp add: xy)
  qed
  then show "2 powi ilog2 x \<le> x" and "x < 2 powi (ilog2 x + 1)" by auto
qed

lemma ilog2_mono:
  assumes "0 < x" "x \<le> y"
  shows "ilog2 x \<le> ilog2 y"
proof -
  have "(2::rat) powi ilog2 x < 2 powi (ilog2 y + 1)"
    using ilog2_bounds [of x] ilog2_bounds [of y] assms by linarith
  then have "ilog2 x < ilog2 y + 1" by (rule powi2_lessD)
  then show ?thesis by simp
qed

lemma round_half_even_mono: "x \<le> y \<Longrightarrow> round_half_even x \<le> round_half_even y"
proof -
  assume le: "x \<le> y"
  have f: "\<lfloor>x\<rfloor> \<le> \<lfloor>y\<rfloor>" using le by (rule floor_mono)
  show ?thesis
  proof (cases "\<lfloor>x\<rfloor> = \<lfloor>y\<rfloor>")
    case True
    with le show ?thesis by (auto simp: round_half_even_def Let_def)
  next
    case False
    with f have "\<lfloor>x\<rfloor> + 1 \<le> \<lfloor>y\<rfloor>" by simp
    then show ?thesis by (auto simp: round_half_even_def Let_def)
  qed
qed

lemma round_half_even_of_int [simp]: "round_half_even (of_int n) = n"
  by (simp add: round_half_even_def)

lemma powi2_pos [simp]: "(0::rat) < 2 powi e"
  by simp

lemma round_pos_0 [simp]: "round_pos 0 = 0"
  by (simp add: round_pos_def)

lemma round_pos_nonneg: "0 \<le> x \<Longrightarrow> 0 \<le> round_pos x"
proof (cases "x = 0")
  case False
  assume "0 \<le> x"
  then have "0 \<le> x / 2 powi ulp_exp x" by simp
  then have "round_half_even 0 \<le> round_half_even (x / 2 powi ulp_exp x)" by (rule round_half_even_mono)
  moreover have "round_half_even 0 = 0" using round_half_even_of_int [of 0] by simp
  ultimately show ?thesis by (simp add: round_pos_def)
qed simp

lemma round_pos_mono:
  assumes "0 \<le> x" "x \<le> y"
  shows "round_pos x \<le> round_pos y"
proof (cases "x = 0")
  case True
  then show ?thesis using assms round_pos_nonneg by simp
next
  case False
  with assms have x: "0 < x" and y: "0 < y" by auto
  have ix: "ilog2 x \<le> ilog2 y" using ilog2_mono x assms by simp
  have le: "ulp_exp x \<le> ulp_exp y" using ix by (simp add: ulp_exp_def)
  show ?thesis
  proof (cases "ulp_exp x = ulp_exp y")
    case True
    have "x / 2 powi ulp_exp y \<le> y / 2 powi ulp_exp y" using assms by (simp add: divide_right_mono)
    then have "round_half_even (x / 2 powi ulp_exp y) \<le> round_half_even (y / 2 powi ulp_exp y)"
      by (rule round_half_even_mono)
    then show ?thesis using x y True by (simp add: round_pos_def)
  next
    case False
    with le have lt: "ulp_exp x < ulp_exp y" by simp
    then have ey: "ulp_exp y = ilog2 y - 52" by (auto simp: ulp_exp_def max_def split: if_splits)
    have "(2::rat) ^ 52 * 2 powi ulp_exp y = 2 powi (52 + ulp_exp y)"
      by (subst power_int_add) auto
    also have "\<dots> = 2 powi ilog2 y" by (simp add: ey)
    also have "\<dots> \<le> y" using ilog2_bounds y by simp
    finally have "2 ^ 52 \<le> y / 2 powi ulp_exp y" by (simp add: pos_le_divide_eq)
    then have "round_half_even (of_int (2 ^ 52)) \<le> round_half_even (y / 2 powi ulp_exp y)"
      by (intro round_half_even_mono) simp
    then have my: "2 ^ 52 \<le> round_half_even (y / 2 powi ulp_exp y)"
      by (simp only: round_half_even_of_int)
    have ex: "ilog2 x - 52 \<le> ulp_exp x" by (simp add: ulp_exp_def)
    have "x < 2 powi (ilog2 x + 1)" using ilog2_bounds x by simp
    also have "\<dots> \<le> (2::rat) powi (53 + ulp_exp x)" using ex by (intro power_int_increasing) auto
    also have "\<dots> = 2 ^ 53 * 2 powi ulp_exp x" by (subst power_int_add) auto
    finally have "x / 2 powi ulp_exp x \<le> 2 ^ 53" by (simp add: pos_divide_le_eq)
    then have "round_half_even (x / 2 powi ulp_exp x) \<le> round_half_even (of_int (2 ^ 53))"
      by (intro round_half_even_mono) simp
    then have mx: "round_half_even (x / 2 powi ulp_exp x) \<le> 2 ^ 53"
      by (simp only: round_half_even_of_int)
    have "round_pos x = of_int (round_half_even (x / 2 powi ulp_exp x)) * 2 powi ulp_exp x"
      using x by (simp add: round_pos_def)
    also have "\<dots> \<le> 2 ^ 53 * 2 powi ulp_exp x"
    proof -
      have "(of_int (round_half_even (x / 2 powi ulp_exp x)) :: rat) \<le> of_int (2 ^ 53)"
        using mx by (simp only: of_int_le_iff)
      then show ?thesis by (intro mult_right_mono) auto
    qed
    also have "\<dots> = 2 ^ 52 * 2 powi (ulp_exp x + 1)" by (simp add: power_int_add_1)
    also have "\<dots> \<le> 2 ^ 52 * 2 powi ulp_exp y"
      using lt by (intro mult_left_mono power_int_increasing) auto
    also have "\<dots> \<le> round_pos y"
    proof -
      have "(of_int (2 ^ 52) :: rat) \<le> of_int (round_half_even (y / 2 powi ulp_exp y))"
        using my by (simp only: of_int_le_iff)
      then show ?thesis using y by (simp add: round_pos_def)
    qed
    finally show ?thesis .
  qed
qed

text \<open>Integers below \<open>2 ^ 53\<close> are represented exactly.\<close>

lemma round_pos_of_int:
  assumes "0 \<le> n" "n < 2 ^ 53"
  shows "round_pos (of_int n) = of_int n"
proof (cases "n = 0")
  case False
  with assms have n: "(0::rat) < of_int n" by auto
  define e where "e = ulp_exp (of_int n)"
  have "(of_int n :: rat) < of_int (2 ^ 53)" using assms(2) by (simp only: of_int_less_iff)
  then have "(2::rat) powi ilog2 (of_int n) < 2 powi 53"
    using ilog2_bounds(1) [OF n] by simp
  then have "ilog2 (of_int n) < 53" by (rule powi2_lessD)
  then have e: "e \<le> 0" by (simp add: e_def ulp_exp_def)
  obtain j where j: "e = - int j" using e by (metis nonpos_int_cases)
  have "(2::rat) powi e = 1 / 2 ^ j"
    by (simp only: j power_int_minus_divide power_int_of_nat)
  then have q: "(of_int n / 2 powi e :: rat) = of_int (n * 2 ^ j)" by simp
  have "round_pos (of_int n) = of_int (round_half_even (of_int n / 2 powi e)) * 2 powi e"
    using n by (simp add: round_pos_def e_def)
  also have "\<dots> = of_int n / 2 powi e * 2 powi e"
    by (simp only: q round_half_even_of_int)
  also have "\<dots> = of_int n" by simp
  finally show ?thesis .
qed simp

lemma max_pow_gt: "(2::rat) ^ 53 < max_pow"
  unfolding max_pow_def by (rule power_strict_increasing) simp_all

lemma round_double_of_int [simp]:
  assumes "\<bar>n\<bar> < 2 ^ 53"
  shows "round_double (of_int n) = Fin (of_int n)"
proof -
  have small: "(of_int m :: rat) < max_pow" if "m < 2 ^ 53" for m
  proof -
    have "(of_int m :: rat) < of_int (2 ^ 53)" using that by (simp only: of_int_less_iff)
    then show ?thesis using max_pow_gt by simp
  qed
  show ?thesis
  proof (cases "n < 0")
    case True
    with assms have "round_pos (of_int (- n)) = of_int (- n)" by (intro round_pos_of_int) simp_all
    then show ?thesis using True small [of "- n"] assms by (simp add: round_double_def)
  next
    case False
    with assms have "round_pos (of_int n) = of_int n" by (intro round_pos_of_int) simp_all
    then show ?thesis using False small [of n] assms by (simp add: round_double_def)
  qed
qed

lemma round_double_of_nat [simp]: "n < 2 ^ 53 \<Longrightarrow> round_double (of_nat n) = Fin (of_nat n)"
  using round_double_of_int [of "int n"] by simp

lemma round_double_0 [simp]: "round_double 0 = Fin 0"
  and round_double_1 [simp]: "round_double 1 = Fin 1"
  using round_double_of_int [of 0] round_double_of_int [of 1] by simp_all

lemma round_double_numeral [simp]:
  "(numeral k :: int) < 2 ^ 53 \<Longrightarrow> round_double (numeral k) = Fin (numeral k)"
  using round_double_of_int [of "numeral k"] by simp

lemma number_of_nat_exact [simp]: "n < 2 ^ 53 \<Longrightarrow> number_of_nat n = Fin (of_nat n)"
  by (simp add: number_of_nat_def)

lemma round_double_not_NaN [simp]: "round_double x \<noteq> NaN"
  by (simp add: round_double_def)

text \<open>Rounding is monotone.\<close>

lemma num_le_refl: "x \<noteq> NaN \<Longrightarrow> num_le x x"
  by (cases x) (simp_all add: num_le_def)

lemma num_le_Fin [simp]: "num_le (Fin a) (Fin b) \<longleftrightarrow> a \<le> b"
  by (auto simp: num_le_def)

lemma num_le_PosInf [simp]: "num_le x PosInf \<longleftrightarrow> x \<noteq> NaN"
  by (cases x) (simp_all add: num_le_def)

lemma num_le_NegInf [simp]: "num_le NegInf y \<longleftrightarrow> y \<noteq> NaN"
  by (cases y) (simp_all add: num_le_def)

lemma num_le_inf_Fin [simp]: "\<not> num_le PosInf (Fin b)" "\<not> num_le (Fin a) NegInf"
  "\<not> num_le PosInf NegInf" "\<not> num_le NaN y" "\<not> num_le x NaN"
  by (cases y; cases x; simp add: num_le_def)+

lemma round_double_mono:
  assumes "x \<le> y"
  shows "num_le (round_double x) (round_double y)"
proof -
  consider "0 \<le> x" | "x < 0" "0 \<le> y" | "y < 0" by linarith
  then show ?thesis
  proof cases
    case 1
    then have "round_pos x \<le> round_pos y" using assms by (rule round_pos_mono)
    then show ?thesis using 1 assms by (auto simp: round_double_def)
  next
    case 2
    then have "0 \<le> round_pos (- x)" and "0 \<le> round_pos y" by (simp_all add: round_pos_nonneg)
    then show ?thesis using 2 by (auto simp: round_double_def)
  next
    case 3
    then have "round_pos (- y) \<le> round_pos (- x)" using assms by (intro round_pos_mono) simp_all
    then show ?thesis using 3 assms by (auto simp: round_double_def)
  qed
qed

lemma round_double_ge_int:
  "of_int n \<le> x \<Longrightarrow> \<bar>n\<bar> < 2 ^ 53 \<Longrightarrow> num_le (Fin (of_int n)) (round_double x)"
  using round_double_mono [of "of_int n" x] by simp

lemma round_double_le_int:
  "x \<le> of_int n \<Longrightarrow> \<bar>n\<bar> < 2 ^ 53 \<Longrightarrow> num_le (round_double x) (Fin (of_int n))"
  using round_double_mono [of x "of_int n"] by simp

lemma num_lt_le_trans: "num_lt x y \<Longrightarrow> num_le y z \<Longrightarrow> num_lt x z"
  by (cases x; cases y; cases z; auto simp add: num_le_def)

lemma num_le_lt_trans: "num_le x y \<Longrightarrow> num_lt y z \<Longrightarrow> num_lt x z"
  by (cases x; cases y; cases z; auto simp add: num_le_def)

lemma num_le_trans: "num_le x y \<Longrightarrow> num_le y z \<Longrightarrow> num_le x z"
  by (cases x; cases y; cases z; auto simp add: num_le_def)

lemma num_lt_not_le: "num_lt x y \<Longrightarrow> \<not> num_le y x"
  by (cases x; cases y; auto simp add: num_le_def)

lemma num_add_of_int [simp]:
  "\<bar>a + b\<bar> < 2 ^ 53 \<Longrightarrow> num_add (Fin (of_int a)) (Fin (of_int b)) = Fin (of_int (a + b))"
  using round_double_of_int [of "a + b"] by simp

section \<open>Decimal digits\<close>

definition is_digit :: "16 word \<Rightarrow> bool" where
  "is_digit c = (0x30 \<le> c \<and> c \<le> 0x39)"

lemma of_char_digit: "d < 10 \<Longrightarrow> (of_char (char_of (48 + d) :: char) :: 16 word) = of_nat (48 + d)"
proof -
  assume d: "d < 10"
  have "(of_char (char_of (48 + d) :: char) :: 16 word) = of_nat (of_char (char_of (48 + d) :: char))"
    by (simp only: of_nat_of_char)
  also have "\<dots> = of_nat ((48 + d) mod 256)" by (simp only: of_char_of)
  finally show ?thesis using d by simp
qed

lemma show_nat_rec:
  "show_nat n = (if n < 10 then [of_nat (48 + n)] else show_nat (n div 10) @ [of_nat (48 + n mod 10)])"
  unfolding show_nat_def by (subst dec_digits.simps) (simp add: lit_def of_char_digit del: of_nat_add)

lemma digit_word: "d < 10 \<Longrightarrow> is_digit (of_nat (48 + d)) \<and> digit_value (of_nat (48 + d)) = d"
  by (simp add: is_digit_def digit_value_def word_le_nat_alt unat_of_nat del: of_nat_add)

lemma digits_value_snoc: "digits_value (xs @ [c]) = 10 * digits_value xs + digit_value c"
  by (simp add: digits_value_def)

lemma show_nat_digits: "(\<forall>c \<in> set (show_nat n). is_digit c) \<and> digits_value (show_nat n) = n
    \<and> show_nat n \<noteq> []"
proof (induction n rule: less_induct)
  case (less n)
  show ?case
  proof (cases "n < 10")
    case True
    then have "show_nat n = [] @ [of_nat (48 + n)]" by (subst show_nat_rec) simp
    then show ?thesis using digit_word [OF True]
      by (simp only: digits_value_snoc) (simp add: digits_value_def)
  next
    case False
    then have "show_nat n = show_nat (n div 10) @ [of_nat (48 + n mod 10)]"
      by (subst show_nat_rec) simp
    then show ?thesis using digit_word [of "n mod 10"] less [of "n div 10"] False
      by (simp add: digits_value_snoc del: of_nat_add)
  qed
qed

lemma show_nat_inj: "show_nat m = show_nat n \<Longrightarrow> m = n"
  by (metis show_nat_digits)

end
