(* ===== verification/Js_Value.thy ===== *)
theory Js_Value
  imports Js_Number
begin

text \<open>
  Dynamically typed JavaScript values, for what the source types as \<open>unknown\<close> (variation values,
  JSONB columns, request bodies) and \<open>String(v)\<close>. Objects are their own enumerable properties in
  order; reading a property other than an own one gives \<open>undefined\<close> (the code reads only names
  that \<open>Object.prototype\<close> does not have).
\<close>

datatype js_value =
    JUndefined
  | JNull
  | JBool bool
  | JNum js_number
  | JStr js_string
  | JArr "js_value list"
  | JObj "(js_string \<times> js_value) list"

text \<open>\<open>String(v)\<close>: an array joins its elements with commas, \<open>null\<close> and \<open>undefined\<close> as empty.\<close>

definition bool_to_string :: "bool \<Rightarrow> js_string" where
  "bool_to_string b = (if b then lit ''true'' else lit ''false'')"

fun value_to_string :: "js_value \<Rightarrow> js_string" where
  "value_to_string JUndefined = lit ''undefined''"
| "value_to_string JNull = lit ''null''"
| "value_to_string (JBool b) = bool_to_string b"
| "value_to_string (JNum n) = number_to_string n"
| "value_to_string (JStr s) = s"
| "value_to_string (JArr vs) =
     join (lit '','') (map (\<lambda>v. if v = JNull \<or> v = JUndefined then [] else value_to_string v) vs)"
| "value_to_string (JObj ps) = lit ''[object Object]''"

text \<open>\<open>v[name]\<close> where \<open>v\<close> is neither \<open>null\<close> nor \<open>undefined\<close>.\<close>

fun get_prop :: "js_value \<Rightarrow> js_string \<Rightarrow> js_value" where
  "get_prop (JObj ps) name = (case map_of ps name of None \<Rightarrow> JUndefined | Some v \<Rightarrow> v)"
| "get_prop v name = JUndefined"

text \<open>\<open>typeof v === 'object' && v !== null\<close>\<close>

fun is_object :: "js_value \<Rightarrow> bool" where
  "is_object (JArr vs) = True"
| "is_object (JObj ps) = True"
| "is_object v = False"

end
