(* ===== verification/Types.thy ===== *)
theory Types
  imports Js_Value
begin

text \<open>
  The wire contract of \<open>packages/core/src/types.ts\<close>. Unions tagged by \<open>kind\<close> are datatypes,
  interfaces are records. A payload may come from a newer control plane, so an operator or a node
  kind this version does not know is a constructor of its own: the default branches of the
  evaluator are reached by them. \<open>AObject\<close> is an attribute outside the declared type (an object,
  an array or a function), with what \<open>String\<close> makes of it.
\<close>

datatype attribute_value =
    AString js_string
  | ANumber js_number
  | ABoolean bool
  | ANull
  | AObject js_string

datatype operator =
    Eq | Neq | In | NotIn | Contains | StartsWith | EndsWith | Matches
  | Gt | Gte | Lt | Lte | SemverGt | SemverLt
  | UnknownOperator js_string

datatype visibility = ClientVisible | ServerOnly

datatype rule_node =
    Condition (cond_attribute: js_string) (cond_operator: operator)
      (cond_values: "attribute_value list") (cond_visibility: visibility)
  | AndNode (children: "rule_node list")
  | OrNode (children: "rule_node list")
  | NotNode (children: "rule_node list")
  | SegmentRef (segment_key: js_string) (negate: bool)
  | UnknownNode js_string

record variation =
  vkey :: js_string
  vvalue :: js_value

record distribution =
  variationKey :: js_string
  weight :: js_number

datatype serve = ServeVariation js_string | ServeRollout "distribution list"

record targeting_rule =
  rule_id :: js_string
  description :: js_string
  rule_when :: rule_node
  rule_serve :: serve

record prerequisite =
  pre_flagKey :: js_string
  pre_variationKey :: js_string

record flag =
  fkey :: js_string
  enabled :: bool
  salt :: js_string
  variations :: "variation list"
  defaultVariationKey :: js_string
  offVariationKey :: js_string
  prerequisites :: "prerequisite list"
  rules :: "targeting_rule list"
  bucketBy :: js_string

record segment =
  skey :: js_string
  seg_when :: rule_node

record ruleset_snapshot =
  environmentKey :: js_string
  version :: js_number
  flags :: "flag list"
  segments :: "segment list"
  servedAt :: js_string

record evaluation_context =
  ckey :: js_string
  attributes :: "(js_string, attribute_value) js_map"

datatype evaluation_reason =
    ROff
  | RPrerequisiteFailed js_string
  | RRuleMatch js_string
  | RDefault
  | RError js_string

fun is_error :: "evaluation_reason \<Rightarrow> bool" where
  "is_error (RError m) = True"
| "is_error r = False"

record evaluation_result =
  rvalue :: js_value
  rvariationKey :: js_string
  reason :: evaluation_reason
  bucket :: "int option"

text \<open>The size of a rule tree bounds the recursion of every function over it.\<close>

lemma size_child_less [termination_simp]:
  "c \<in> set cs \<Longrightarrow> size c < Suc (size_list size cs)"
  by (induction cs) auto

end
