(* ===== verification/Murmur.thy ===== *)
theory Murmur
  imports Types
begin

unbundle bit_operations_syntax

text \<open>
  \<open>packages/core/src/murmur.ts\<close>: MurmurHash3 x86_32 over bytes, and over a string through the
  shared scratch buffer. JavaScript's \<open>Math.imul\<close> and \<open>>>> 0\<close> are arithmetic on \<open>32 word\<close>.
\<close>

definition C1 :: "32 word" where "C1 = 0xcc9e2d51"
definition C2 :: "32 word" where "C2 = 0x1b873593"

definition rotl32 :: "32 word \<Rightarrow> nat \<Rightarrow> 32 word" where
  "rotl32 x r = push_bit r x OR drop_bit (32 - r) x"

text \<open>\<open>data[i]\<close> in a bit operation: \<open>undefined\<close> past the end counts as 0.\<close>

definition byte_at :: "8 word list \<Rightarrow> nat \<Rightarrow> 32 word" where
  "byte_at data i = (if i < length data then ucast (data ! i) else 0)"

definition block_at :: "8 word list \<Rightarrow> nat \<Rightarrow> 32 word" where
  "block_at data o' = byte_at data o' OR push_bit 8 (byte_at data (o' + 1))
     OR push_bit 16 (byte_at data (o' + 2)) OR push_bit 24 (byte_at data (o' + 3))"

text \<open>The scrambling of a block or of the tail, and the mixing of a block into \<open>h1\<close>.\<close>

definition scramble :: "32 word \<Rightarrow> 32 word" where
  "scramble k1 = rotl32 (k1 * C1) 15 * C2"

definition mix_block :: "32 word \<Rightarrow> 32 word \<Rightarrow> 32 word" where
  "mix_block h1 k1 = rotl32 (h1 XOR scramble k1) 13 * 5 + 0xe6546b64"

text \<open>The loop over the whole blocks \<open>i, ..., nblocks - 1\<close>.\<close>

fun body_loop :: "8 word list \<Rightarrow> nat \<Rightarrow> nat \<Rightarrow> 32 word \<Rightarrow> 32 word" where
  "body_loop data i 0 h1 = h1"
| "body_loop data i (Suc n) h1 = body_loop data (Suc i) n (mix_block h1 (block_at data (i * 4)))"

text \<open>The switch with its fallthrough.\<close>

definition tail_mix :: "8 word list \<Rightarrow> nat \<Rightarrow> nat \<Rightarrow> 32 word \<Rightarrow> 32 word" where
  "tail_mix data tail rest h1 =
     (let k3 = (if rest = 3 then push_bit 16 (byte_at data (tail + 2)) else 0);
          k2 = (if 2 \<le> rest then k3 XOR push_bit 8 (byte_at data (tail + 1)) else k3);
          k1 = k2 XOR byte_at data tail
      in if 1 \<le> rest then h1 XOR scramble k1 else h1)"

definition fmix :: "32 word \<Rightarrow> 32 word" where
  "fmix h0 =
     (let h1 = h0 XOR drop_bit 16 h0;
          h2 = h1 * 0x85ebca6b;
          h3 = h2 XOR drop_bit 13 h2;
          h4 = h3 * 0xc2b2ae35
      in h4 XOR drop_bit 16 h4)"

definition murmurHash3x86_32 :: "8 word list \<Rightarrow> 32 word \<Rightarrow> nat option \<Rightarrow> 32 word" where
  "murmurHash3x86_32 data seed byteLength =
     (let len = (case byteLength of None \<Rightarrow> length data | Some n \<Rightarrow> n);
          nblocks = nat (int len mod 2 ^ 32 div 4);
          h1 = body_loop data 0 nblocks seed;
          h2 = tail_mix data (nblocks * 4) (len mod 4) h1
      in fmix (h2 XOR word_of_int (int len)))"

section \<open>The string path\<close>

text \<open>
  \<open>TextEncoder\<close>: UTF-8 of a sequence of UTF-16 code units. A lone surrogate becomes U+FFFD.
\<close>

definition is_high :: "16 word \<Rightarrow> bool" where
  "is_high u = (0xD800 \<le> u \<and> u \<le> 0xDBFF)"

definition is_low :: "16 word \<Rightarrow> bool" where
  "is_low u = (0xDC00 \<le> u \<and> u \<le> 0xDFFF)"

definition code_point :: "16 word \<Rightarrow> 16 word \<Rightarrow> int" where
  "code_point hi lo = 0x10000 + (uint hi - 0xD800) * 0x400 + (uint lo - 0xDC00)"

fun code_points :: "js_string \<Rightarrow> int list" where
  "code_points [] = []"
| "code_points [u] = [if is_high u \<or> is_low u then 0xFFFD else uint u]"
| "code_points (u # v # us) =
     (if is_high u \<and> is_low v then code_point u v # code_points us
      else (if is_high u \<or> is_low u then 0xFFFD else uint u) # code_points (v # us))"

definition utf8_bytes :: "int \<Rightarrow> 8 word list" where
  "utf8_bytes c = map word_of_int
     (if c < 0x80 then [c]
      else if c < 0x800 then [0xC0 + c div 0x40, 0x80 + c mod 0x40]
      else if c < 0x10000 then
        [0xE0 + c div 0x1000, 0x80 + c div 0x40 mod 0x40, 0x80 + c mod 0x40]
      else [0xF0 + c div 0x40000, 0x80 + c div 0x1000 mod 0x40, 0x80 + c div 0x40 mod 0x40,
            0x80 + c mod 0x40])"

definition utf8 :: "js_string \<Rightarrow> 8 word list" where
  "utf8 s = concat (map utf8_bytes (code_points s))"

text \<open>
  \<open>encodeInto\<close> writes whole code points while they fit and returns the buffer and the number of
  bytes written.
\<close>

fun encode_loop :: "int list \<Rightarrow> 8 word list \<Rightarrow> nat \<Rightarrow> 8 word list \<times> nat" where
  "encode_loop [] dest written = (dest, written)"
| "encode_loop (c # cs) dest written =
     (let bs = utf8_bytes c in
      if written + length bs \<le> length dest
      then encode_loop cs (take written dest @ bs @ drop (written + length bs) dest)
             (written + length bs)
      else (dest, written))"

definition encodeInto :: "js_string \<Rightarrow> 8 word list \<Rightarrow> 8 word list \<times> nat" where
  "encodeInto s dest = encode_loop (code_points s) dest 0"

definition MAX_BYTES_PER_CODE_UNIT :: nat where
  "MAX_BYTES_PER_CODE_UNIT = 3"

text \<open>
  The module's \<open>scratch\<close> buffer is the state: the function returns the hash and the buffer it
  leaves behind, grown when the upper bound does not fit.
\<close>

definition murmurHash3x86_32String ::
    "8 word list \<Rightarrow> js_string \<Rightarrow> 32 word \<Rightarrow> 32 word \<times> 8 word list" where
  "murmurHash3x86_32String scratch input seed =
     (let upperBound = length input * MAX_BYTES_PER_CODE_UNIT;
          buf = (if length scratch < upperBound
                 then replicate (max upperBound (length scratch * 2)) 0 else scratch);
          (buf', written) = encodeInto input buf
      in (murmurHash3x86_32 buf' seed (Some written), buf'))"

section \<open>The rotation\<close>

lemma rotl32_rotates: "0 < r \<Longrightarrow> r < 32 \<Longrightarrow> rotl32 x r = word_rotl r x"
proof (rule bit_word_eqI)
  fix n assume r: "0 < r" "r < 32" and n: "n < LENGTH(32)"
  have a: "bit (rotl32 x r) n \<longleftrightarrow> (r \<le> n \<and> bit x (n - r)) \<or> bit x (32 - r + n)"
    using n by (simp only: rotl32_def bit_or_iff bit_push_bit_iff bit_drop_bit_eq) (simp add: o_def)
  have b: "bit (word_rotl r x) n \<longleftrightarrow> bit x ((n + (32 - r mod 32)) mod 32)"
    using n by (simp add: bit_word_rotl_iff)
  show "bit (rotl32 x r) n \<longleftrightarrow> bit (word_rotl r x) n"
  proof (cases "n < r")
    case True
    with r n have "(n + (32 - r mod 32)) mod 32 = 32 - r + n" by simp
    with a b True show ?thesis by auto
  next
    case False
    with r n have "\<not> bit x (32 - r + n)" by (auto dest: bit_imp_le_length)
    moreover have "n + (32 - r mod 32) = n - r + 32" using r False by simp
    then have "(n + (32 - r mod 32)) mod 32 = n - r" using n by (simp only: mod_add_self2) simp
    ultimately show ?thesis using a b False by simp
  qed
qed

section \<open>Without indices\<close>

text \<open>
  The code's steps on a list of bytes that is read from the front, four at a time. This is a step on the
  way to the reference below.
\<close>

fun front_blocks :: "8 word list \<Rightarrow> 32 word \<Rightarrow> 32 word \<times> 8 word list" where
  "front_blocks (a # b # c # d # rest) h1 =
     front_blocks rest (mix_block h1 (ucast a OR push_bit 8 (ucast b) OR push_bit 16 (ucast c)
       OR push_bit 24 (ucast d)))"
| "front_blocks rest h1 = (h1, rest)"

fun front_tail :: "8 word list \<Rightarrow> 32 word" where
  "front_tail [] = 0"
| "front_tail (b # bs) = ucast b XOR push_bit 8 (front_tail bs)"

definition murmur3_from_front :: "8 word list \<Rightarrow> 32 word \<Rightarrow> 32 word" where
  "murmur3_from_front bs seed =
     (let (h1, rest) = front_blocks bs seed;
          h2 = (if rest = [] then h1 else h1 XOR scramble (front_tail rest))
      in fmix (h2 XOR word_of_int (int (length bs))))"

lemma drop_4: "drop (4 + m) (a # b # c # d # xs) = drop m xs"
  by (simp add: numeral_eq_Suc)

lemma byte_at_4: "byte_at (a # b # c # d # xs) (4 + m) = byte_at xs m"
  by (simp add: byte_at_def numeral_eq_Suc)

lemma block_at_4: "block_at (a # b # c # d # xs) (4 + m) = block_at xs m"
  by (simp only: block_at_def byte_at_4 add.assoc)

lemma block_at_0: "block_at (a # b # c # d # xs) 0 =
    ucast a OR push_bit 8 (ucast b) OR push_bit 16 (ucast c) OR push_bit 24 (ucast d)"
  by (simp add: block_at_def byte_at_def numeral_eq_Suc)

lemma body_loop_shift:
  "body_loop (a # b # c # d # xs) (Suc i) n h = body_loop xs i n h"
proof (induction n arbitrary: i h)
  case (Suc n)
  have "block_at (a # b # c # d # xs) (Suc i * 4) = block_at xs (i * 4)"
    using block_at_4 [of a b c d xs "i * 4"] by simp
  with Suc show ?case by simp
qed simp

lemma body_loop_ref:
  "front_blocks bs h = (body_loop bs 0 (length bs div 4) h, drop (length bs div 4 * 4) bs)"
proof (induction bs h rule: front_blocks.induct)
  case (1 a b c d rest h1)
  have "length (a # b # c # d # rest) div 4 = Suc (length rest div 4)" by simp
  moreover have "Suc (length rest div 4) * 4 = 4 + length rest div 4 * 4" by simp
  ultimately show ?case using 1 by (simp only: drop_4 front_blocks.simps body_loop.simps body_loop_shift
    mult_zero_left block_at_0)
qed simp_all

lemma byte_at_take: "i < n \<Longrightarrow> n \<le> length data \<Longrightarrow> byte_at (take n data) i = byte_at data i"
  by (simp add: byte_at_def)

lemma body_loop_take:
  assumes "(i + k) * 4 \<le> n" "n \<le> length data"
  shows "body_loop (take n data) i k h = body_loop data i k h"
  using assms
proof (induction k arbitrary: i h)
  case (Suc k)
  then have "block_at (take n data) (i * 4) = block_at data (i * 4)"
    by (simp add: block_at_def byte_at_take)
  with Suc show ?case by simp
qed simp

lemma tail_mix_ref:
  assumes "t \<le> length bs" "length bs - t = r" "r < 4"
  shows "tail_mix bs t r h = (if r = 0 then h else h XOR scramble (front_tail (drop t bs)))"
proof -
  have d: "drop t bs = map (\<lambda>i. bs ! (t + i)) [0..<r]"
    using assms by (intro nth_equalityI) auto
  have at: "byte_at bs (t + i) = ucast (bs ! (t + i))" if "i < r" for i
  proof -
    have "t + i < length bs" using assms that by linarith
    then show ?thesis by (simp add: byte_at_def)
  qed
  have at0: "byte_at bs t = ucast (bs ! t)" if "0 < r" using at [of 0] that by simp
  consider "r = 0" | "r = 1" | "r = 2" | "r = 3" using assms by linarith
  then show ?thesis
  proof cases
    case 1
    then show ?thesis by (simp add: tail_mix_def)
  next
    case 2
    then show ?thesis using d at0 by (simp add: tail_mix_def)
  next
    case 3
    then have "drop t bs = [bs ! t, bs ! (t + 1)]" using d by (simp add: upt_rec)
    then show ?thesis using 3 at0 at [of 1] by (simp add: tail_mix_def xor.commute)
  next
    case 4
    then have "drop t bs = [bs ! t, bs ! (t + 1), bs ! (t + 2)]" using d by (simp add: upt_rec)
    then show ?thesis using 4 at0 at [of 1] at [of 2]
      by (simp add: tail_mix_def push_bit_xor xor.commute xor.left_commute)
  qed
qed

lemma tail_mix_take:
  assumes "t + r \<le> n" "n \<le> length data"
  shows "tail_mix (take n data) t r h = tail_mix data t r h"
  using assms by (auto simp: tail_mix_def byte_at_take Let_def)

text \<open>
  Hashing the first \<open>n\<close> bytes of a buffer is hashing those bytes: what follows them in the buffer does
  not matter.
\<close>

lemma murmur_prefix_from_front:
  assumes "n \<le> length data" "n < 2 ^ 32"
  shows "murmurHash3x86_32 data seed (Some n) = murmur3_from_front (take n data) seed"
proof -
  let ?bs = "take n data"
  have len: "length ?bs = n" using assms(1) by simp
  have "int n mod 2 ^ 32 = int n" using assms(2) by (simp add: zmod_trivial_iff)
  then have nb: "nat (int n mod 2 ^ 32 div 4) = n div 4" by (simp add: nat_div_distrib)
  have b: "body_loop data 0 (n div 4) seed = body_loop ?bs 0 (n div 4) seed"
    using assms(1) by (subst body_loop_take) auto
  have t: "tail_mix data (n div 4 * 4) (n mod 4) h = tail_mix ?bs (n div 4 * 4) (n mod 4) h" for h
    using assms(1) by (subst tail_mix_take) (simp_all add: div_mult_mod_eq)
  have r: "n - n div 4 * 4 = n mod 4" by (simp add: minus_div_mult_eq_mod)
  have t': "tail_mix ?bs (n div 4 * 4) (n mod 4) h =
      (if n mod 4 = 0 then h else h XOR scramble (front_tail (drop (n div 4 * 4) ?bs)))" for h
    using assms(1) r by (intro tail_mix_ref) (simp_all add: len)
  have e: "drop (n div 4 * 4) ?bs = [] \<longleftrightarrow> n mod 4 = 0"
  proof -
    have "drop (n div 4 * 4) ?bs = [] \<longleftrightarrow> n \<le> n div 4 * 4" by (simp only: drop_eq_Nil len)
    also have "\<dots> \<longleftrightarrow> n mod 4 = 0" by presburger
    finally show ?thesis .
  qed
  have "murmurHash3x86_32 data seed (Some n) =
      fmix (tail_mix data (n div 4 * 4) (n mod 4) (body_loop data 0 (n div 4) seed) XOR
        word_of_int (int n))"
    by (simp only: murmurHash3x86_32_def option.case Let_def nb)
  also have "\<dots> = murmur3_from_front ?bs seed"
    by (simp only: murmur3_from_front_def body_loop_ref prod.case Let_def len b t t' e)
  finally show ?thesis .
qed

section \<open>The reference\<close>

text \<open>
  MurmurHash3 x86 32 as it is published, on integers modulo \<open>2 ^ 32\<close>: bytes are read as little-endian
  numbers, also the one to three that are left at the end, and the rotations, constants and the
  finalizer are those of the publication. Nothing here is shared with the code's model.
\<close>

fun little_endian :: "int list \<Rightarrow> int" where
  "little_endian [] = 0"
| "little_endian (b # bs) = b + 256 * little_endian bs"

definition reference_rotate :: "int \<Rightarrow> nat \<Rightarrow> int" where
  "reference_rotate x r = x * 2 ^ r mod 2 ^ 32 + x div 2 ^ (32 - r)"

definition reference_scramble :: "int \<Rightarrow> int" where
  "reference_scramble k = reference_rotate (k * 3432918353 mod 2 ^ 32) 15 * 461845907 mod 2 ^ 32"

definition reference_round :: "int \<Rightarrow> int \<Rightarrow> int" where
  "reference_round h k = (reference_rotate (h XOR reference_scramble k) 13 * 5 + 3864292196) mod 2 ^ 32"

definition reference_finish :: "int \<Rightarrow> int" where
  "reference_finish h =
     (let a = (h XOR h div 2 ^ 16) * 2246822507 mod 2 ^ 32;
          b = (a XOR a div 2 ^ 13) * 3266489909 mod 2 ^ 32
      in b XOR b div 2 ^ 16)"

fun reference_blocks :: "int list \<Rightarrow> int \<Rightarrow> int" where
  "reference_blocks (a # b # c # d # rest) h = reference_blocks rest (reference_round h (little_endian [a, b, c, d]))"
| "reference_blocks rest h = h XOR reference_scramble (little_endian rest)"

definition murmur3_reference :: "8 word list \<Rightarrow> 32 word \<Rightarrow> 32 word" where
  "murmur3_reference bs seed =
     word_of_int (reference_finish (reference_blocks (map uint bs) (uint seed) XOR int (length bs) mod 2 ^ 32))"

section \<open>The code's steps are those of the reference\<close>

lemma uint_shift_left: "uint (push_bit n x) = uint x * 2 ^ n mod 2 ^ 32" for x :: "32 word"
proof -
  have "uint (push_bit n x) = take_bit LENGTH(32) (push_bit n (uint x))" by (rule unsigned_push_bit_eq)
  also have "\<dots> = uint x * 2 ^ n mod 2 ^ 32" by (simp add: take_bit_eq_mod push_bit_eq_mult)
  finally show ?thesis .
qed

lemma uint_shift_right: "uint (drop_bit n x) = uint x div 2 ^ n" for x :: "32 word"
proof -
  have "uint (drop_bit n x) = drop_bit n (take_bit LENGTH(32) (uint x))" by (rule unsigned_drop_bit_eq)
  also have "\<dots> = uint x div 2 ^ n" using uint_bounded [of x] by (simp add: drop_bit_eq_div take_bit_int_eq_self)
  finally show ?thesis .
qed

lemma uint_rotl32:
  assumes "0 < r" "r < 32"
  shows "uint (rotl32 x r) = reference_rotate (uint x) r"
proof -
  have "push_bit r x AND drop_bit (32 - r) x = 0"
    using assms by (auto simp: bit_eq_iff bit_simps dest: bit_imp_le_length)
  then have "uint (push_bit r x) AND uint (drop_bit (32 - r) x) = 0"
    by (metis unsigned_and_eq unsigned_0)
  then have "uint (rotl32 x r) = uint (push_bit r x) + uint (drop_bit (32 - r) x)"
    by (simp add: rotl32_def unsigned_or_eq disjunctive_add_eq_or)
  then show ?thesis by (simp only: uint_shift_left uint_shift_right reference_rotate_def)
qed

lemma uint_scramble: "uint (scramble k) = reference_scramble (uint k)"
  by (simp add: scramble_def reference_scramble_def uint_word_ariths uint_rotl32 C1_def C2_def)

lemma uint_mix_block: "uint (mix_block h k) = reference_round (uint h) (uint k)"
  by (simp add: mix_block_def reference_round_def uint_word_ariths uint_rotl32 uint_scramble unsigned_xor_eq mod_simps)

lemma uint_fmix: "uint (fmix h) = reference_finish (uint h)"
  by (simp add: fmix_def reference_finish_def Let_def uint_word_ariths unsigned_xor_eq uint_shift_right)

text \<open>A byte below the others: the bits do not meet, so that or, exclusive or and sum agree.\<close>

lemma byte_below:
  fixes a m :: int
  assumes "0 \<le> a" "a < 256"
  shows "a OR push_bit 8 m = a + 256 * m" "a XOR push_bit 8 m = a + 256 * m"
proof -
  have "take_bit 8 a = a" using assms by (simp add: take_bit_int_eq_self)
  then have "a AND push_bit 8 m = 0" by (metis bit_eq_iff bit_and_iff bit_push_bit_iff bit_take_bit_iff bit_0_eq bot_apply bot_bool_def linorder_not_le)
  then show "a OR push_bit 8 m = a + 256 * m" "a XOR push_bit 8 m = a + 256 * m"
    by (simp_all add: disjunctive_add_eq_or [symmetric] disjunctive_add_eq_xor [symmetric] push_bit_eq_mult)
qed

lemma uint_byte: "uint (b :: 8 word) < 256"
  using uint_bounded [of b] by simp

lemma uint_widened: "uint (ucast b :: 32 word) = uint (b :: 8 word)"
  by (simp add: unsigned_ucast_eq take_bit_int_eq_self order_less_trans [OF uint_byte])

lemma uint_block:
  "uint (ucast (a :: 8 word) OR push_bit 8 (ucast (b :: 8 word)) OR push_bit 16 (ucast (c :: 8 word)) OR push_bit 24 (ucast (d :: 8 word)) :: 32 word)
    = little_endian [uint a, uint b, uint c, uint d]"
proof -
  have s: "uint (push_bit n (ucast x :: 32 word)) = push_bit n (uint x)" if "n \<le> 24" for n and x :: "8 word"
  proof -
    have "uint x * 2 ^ n < 256 * 2 ^ n" using uint_byte [of x] by simp
    also have "\<dots> \<le> 2 ^ 8 * 2 ^ 24" using that by (intro mult_mono power_increasing) simp_all
    finally have "uint x * 2 ^ n mod 2 ^ 32 = push_bit n (uint x)" by (simp add: push_bit_eq_mult)
    then show ?thesis by (simp only: uint_shift_left uint_widened)
  qed
  have "uint a OR push_bit 8 (uint b) OR push_bit 16 (uint c) OR push_bit 24 (uint d)
      = uint a OR push_bit 8 (uint b OR push_bit 8 (uint c OR push_bit 8 (uint d)))"
    by (simp add: push_bit_or)
  then show ?thesis by (simp add: unsigned_or_eq s uint_widened byte_below uint_byte)
qed

lemma little_endian_bound: "list_all (\<lambda>b. 0 \<le> b \<and> b < 256) bs \<Longrightarrow> 0 \<le> little_endian bs \<and> little_endian bs < 256 ^ length bs"
  by (induction bs) auto

lemma uint_front_tail: "length bs \<le> 3 \<Longrightarrow> uint (front_tail bs) = little_endian (map uint bs)"
proof (induction bs)
  case (Cons b bs)
  have "0 \<le> little_endian (map uint bs)" "little_endian (map uint bs) < 256 ^ length bs"
    using little_endian_bound [of "map uint bs"] by (simp_all add: list_all_iff uint_byte)
  moreover have "256 ^ length bs \<le> (256 :: int) ^ 2" using Cons.prems by (intro power_increasing) simp_all
  ultimately have "0 \<le> little_endian (map uint bs)" "little_endian (map uint bs) < 65536" by simp_all
  then have "uint (push_bit 8 (front_tail bs)) = push_bit 8 (little_endian (map uint bs))"
    using Cons by (simp add: uint_shift_left push_bit_eq_mult [of _ "_ :: int"] del: push_bit_of_Suc_0 front_tail.simps)
  then show ?case by (simp only: front_tail.simps unsigned_xor_eq uint_widened byte_below uint_byte uint_ge_0 little_endian.simps list.map)
qed simp

lemma scramble_0: "reference_scramble 0 = 0"
  by (simp add: reference_scramble_def reference_rotate_def)

lemma front_blocks_reference:
  "(case front_blocks bs h of (h1, rest) \<Rightarrow> uint (if rest = [] then h1 else h1 XOR scramble (front_tail rest)))
    = reference_blocks (map uint bs) (uint h)"
proof (induction bs h rule: front_blocks.induct)
  case (1 a b c d rest h1)
  then show ?case by (simp only: front_blocks.simps list.map reference_blocks.simps uint_mix_block uint_block)
qed (simp_all add: scramble_0 unsigned_xor_eq uint_scramble uint_front_tail del: front_tail.simps)

lemma from_front_reference: "murmur3_from_front bs seed = murmur3_reference bs seed"
proof -
  obtain h1 rest where r: "front_blocks bs seed = (h1, rest)" by force
  define h2 where "h2 = (if rest = [] then h1 else h1 XOR scramble (front_tail rest))"
  have h2: "uint h2 = reference_blocks (map uint bs) (uint seed)" using front_blocks_reference [of bs seed] by (simp add: r h2_def)
  have "uint (word_of_int (int (length bs)) :: 32 word) = int (length bs) mod 2 ^ 32"
    by (simp only: uint_word_of_int) simp
  then have "uint (murmur3_from_front bs seed) = reference_finish (reference_blocks (map uint bs) (uint seed) XOR int (length bs) mod 2 ^ 32)"
    by (simp add: murmur3_from_front_def r h2_def [symmetric] uint_fmix unsigned_xor_eq h2)
  then show ?thesis unfolding murmur3_reference_def by (metis word_of_int_uint)
qed

lemma murmur_prefix_reference:
  assumes "n \<le> length data" "n < 2 ^ 32"
  shows "murmurHash3x86_32 data seed (Some n) = murmur3_reference (take n data) seed"
  by (simp only: murmur_prefix_from_front [OF assms] from_front_reference)

lemma murmur_None: "murmurHash3x86_32 data seed None = murmurHash3x86_32 data seed (Some (length data))"
  by (simp add: murmurHash3x86_32_def)

section \<open>UTF-8 and the scratch buffer\<close>

lemma length_utf8_bytes: "1 \<le> length (utf8_bytes c) \<and> length (utf8_bytes c) \<le> 4"
  by (simp add: utf8_bytes_def)

lemma length_utf8_bytes_bmp: "c < 0x10000 \<Longrightarrow> length (utf8_bytes c) \<le> 3"
  by (simp add: utf8_bytes_def)

lemma uint16_less: "uint (u :: 16 word) < 0x10000"
  using uint_bounded [of u] by simp

lemma length_utf8: "length (utf8 s) \<le> 3 * length s"
proof (induction s rule: code_points.induct)
  case 1
  then show ?case by (simp add: utf8_def)
next
  case (2 u)
  then show ?case using length_utf8_bytes_bmp [OF uint16_less [of u]]
    by (auto simp: utf8_def intro!: length_utf8_bytes_bmp)
next
  case (3 u v us)
  show ?case
  proof (cases "is_high u \<and> is_low v")
    case True
    then have "length (utf8 (u # v # us)) = length (utf8_bytes (code_point u v)) + length (utf8 us)"
      by (simp add: utf8_def)
    moreover have "length (utf8_bytes (code_point u v)) \<le> 4" using length_utf8_bytes by blast
    moreover have "length (utf8 us) \<le> 3 * length us" using 3 True by simp
    ultimately show ?thesis by simp
  next
    case False
    define c where "c = (if is_high u \<or> is_low u then 0xFFFD else uint u)"
    have "c < 0x10000" using uint16_less [of u] by (simp add: c_def)
    then have "length (utf8_bytes c) \<le> 3" by (rule length_utf8_bytes_bmp)
    moreover have "length (utf8 (u # v # us)) = length (utf8_bytes c) + length (utf8 (v # us))"
      using False by (auto simp add: utf8_def c_def)
    moreover have "length (utf8 (v # us)) \<le> 3 * length (v # us)" using 3 False by auto
    ultimately show ?thesis by simp
  qed
qed

lemma encode_loop_fits:
  assumes "w + length (concat (map utf8_bytes cs)) \<le> length dest"
  shows "encode_loop cs dest w =
    (take w dest @ concat (map utf8_bytes cs) @ drop (w + length (concat (map utf8_bytes cs))) dest,
     w + length (concat (map utf8_bytes cs)))"
  using assms
proof (induction cs arbitrary: dest w)
  case (Cons c cs)
  let ?bs = "utf8_bytes c"
  let ?d = "take w dest @ ?bs @ drop (w + length ?bs) dest"
  have len: "length ?d = length dest" using Cons.prems by simp
  have "encode_loop (c # cs) dest w = encode_loop cs ?d (w + length ?bs)"
    using Cons.prems by (simp add: Let_def)
  also have "\<dots> = (take (w + length ?bs) ?d @ concat (map utf8_bytes cs) @
      drop (w + length ?bs + length (concat (map utf8_bytes cs))) ?d,
      w + length ?bs + length (concat (map utf8_bytes cs)))"
    using Cons.prems len by (intro Cons.IH) simp
  also have "take (w + length ?bs) ?d = take w dest @ ?bs" using Cons.prems by simp
  also have "drop (w + length ?bs + length (concat (map utf8_bytes cs))) ?d =
      drop (w + length ?bs + length (concat (map utf8_bytes cs))) dest"
  proof -
    have m: "min (length dest) w = w" using Cons.prems by simp
    show ?thesis using Cons.prems by (simp add: m) (simp add: algebra_simps)
  qed
  finally show ?case by (simp add: add.assoc)
qed simp

lemma encodeInto_fits:
  assumes "length (utf8 s) \<le> length dest"
  shows "encodeInto s dest = (utf8 s @ drop (length (utf8 s)) dest, length (utf8 s))"
  using encode_loop_fits [of 0 "code_points s" dest] assms by (simp add: encodeInto_def utf8_def)

text \<open>The encoding of a text of ASCII characters.\<close>

lemma ascii_not_surrogate: "u < 0x80 \<Longrightarrow> \<not> is_high u \<and> \<not> is_low u"
  by (auto simp: is_high_def is_low_def word_le_nat_alt word_less_nat_alt)

lemma code_points_ascii: "\<forall>u \<in> set s. u < 0x80 \<Longrightarrow> code_points s = map uint s"
  by (induction s rule: code_points.induct) (auto simp: ascii_not_surrogate)

lemma unat_ucast_ascii:
  fixes u :: "16 word"
  assumes "u < 0x80" shows "unat (ucast u :: 8 word) = unat u"
proof -
  have "unat u < 128" using assms by (simp add: word_less_nat_alt)
  then show ?thesis by (simp add: unsigned_ucast_eq unsigned_take_bit_eq take_bit_nat_def)
qed

lemma utf8_bytes_ascii: "u < 0x80 \<Longrightarrow> utf8_bytes (uint u) = [ucast (u :: 16 word)]"
proof -
  assume "u < 0x80"
  then have "uint u < 0x80" by (simp add: word_less_alt)
  then show ?thesis by (simp add: utf8_bytes_def)
qed

lemma utf8_ascii:
  assumes "\<forall>u \<in> set s. u < 0x80" shows "utf8 s = map ucast s"
proof -
  have "concat (map utf8_bytes (map uint s)) = map ucast s"
    using assms by (induction s) (simp_all add: utf8_bytes_ascii)
  then show ?thesis by (simp add: utf8_def code_points_ascii [OF assms])
qed

text \<open>
  The buffer the string path encodes into always has room for the whole encoding, so nothing is
  truncated and the bytes a previous call left behind are never read.
\<close>

lemma string_hash_eq:
  assumes "3 * length s < 2 ^ 32"
  shows "fst (murmurHash3x86_32String scratch s seed) = murmur3_reference (utf8 s) seed"
proof -
  define buf where "buf = (if length scratch < length s * 3
    then replicate (max (length s * 3) (length scratch * 2)) 0 else scratch)"
  have fits: "length (utf8 s) \<le> length buf"
    using length_utf8 [of s] by (auto simp: buf_def max_def)
  have "fst (murmurHash3x86_32String scratch s seed) =
      murmurHash3x86_32 (utf8 s @ drop (length (utf8 s)) buf) seed (Some (length (utf8 s)))"
    using encodeInto_fits [OF fits]
    by (simp add: murmurHash3x86_32String_def MAX_BYTES_PER_CODE_UNIT_def buf_def [symmetric] Let_def)
  also have "\<dots> = murmur3_reference (utf8 s) seed"
    using length_utf8 [of s] assms by (subst murmur_prefix_reference) simp_all
  finally show ?thesis .
qed

lemma murmurHash3x86_32String_buffer:
  "length scratch \<le> length (snd (murmurHash3x86_32String scratch s seed))"
proof -
  define buf where "buf = (if length scratch < length s * 3
    then replicate (max (length s * 3) (length scratch * 2)) 0 else scratch)"
  have fits: "length (utf8 s) \<le> length buf" and grow: "length scratch \<le> length buf"
    using length_utf8 [of s] by (auto simp: buf_def max_def)
  have "snd (murmurHash3x86_32String scratch s seed) = fst (encodeInto s buf)"
    by (simp add: murmurHash3x86_32String_def MAX_BYTES_PER_CODE_UNIT_def buf_def [symmetric]
      Let_def split: prod.splits)
  then show ?thesis using grow encodeInto_fits [OF fits] fits by simp
qed

section \<open>Properties\<close>

text \<open>
  The string hash does not depend on the shared scratch buffer: whatever an earlier call left
  in it and however long it is, hashing a string hashes exactly its UTF-8 bytes, as the
  reference does, and the buffer never shrinks.
\<close>

lemma string_hash_ignores_scratch:
  assumes "3 * length s < 2 ^ 32"
  shows "fst (murmurHash3x86_32String scratch s seed) = murmur3_reference (utf8 s) seed
    \<and> length scratch \<le> length (snd (murmurHash3x86_32String scratch s seed))"
  using string_hash_eq [OF assms] murmurHash3x86_32String_buffer by simp

lemma string_hash_ignores_scratch_witness:
  "fst (murmurHash3x86_32String [1, 2, 3, 4, 5] (lit ''abc'') 0) = murmur3_reference (utf8 (lit ''abc'')) 0
    \<and> length [1 :: 8 word, 2, 3, 4, 5]
        \<le> length (snd (murmurHash3x86_32String [1, 2, 3, 4, 5] (lit ''abc'') 0))"
  by (rule string_hash_ignores_scratch) (simp add: lit_def)

text \<open>
  C11: the indexed, unrolled loop over a prefix of a larger buffer, with its signed shifts, its tail and its
  finalizer, computes the published MurmurHash3 x86 32 of that prefix, for every seed; bytes behind the
  prefix are never read. The reference is written with its own constants, on integers. The witness
  reaches a published test vector through it.
\<close>

theorem murmur_is_reference:
  assumes "n \<le> length data" "n < 2 ^ 32"
  shows "murmurHash3x86_32 data seed (Some n) = murmur3_reference (take n data) seed"
  using assms by (rule murmur_prefix_reference)

text \<open>The published value of "Hello, world!" under the seed 1234, which has three blocks and a tail.\<close>

definition hello_bytes :: "8 word list" where
  "hello_bytes = [0x48, 0x65, 0x6C, 0x6C, 0x6F, 0x2C, 0x20, 0x77, 0x6F, 0x72, 0x6C, 0x64, 0x21]"

lemma reference_vector: "murmur3_reference hello_bytes 1234 = 0xfaf6cdb3"
  by code_simp

theorem murmur_is_reference_witness:
  "murmurHash3x86_32 (hello_bytes @ [0xFF]) 1234 (Some 13) = 0xfaf6cdb3"
proof -
  have "length hello_bytes = 13" by (simp add: hello_bytes_def)
  with murmur_is_reference [of 13 "hello_bytes @ [0xFF]" 1234] show ?thesis by (simp add: reference_vector)
qed

lemma vector_a: "murmurHash3x86_32 (utf8 (lit ''a'')) 0 None = 0x3c2569b2"
  by code_simp

lemma vector_ab: "murmurHash3x86_32 (utf8 (lit ''ab'')) 0 None = 0x9bbfd75f"
  by code_simp

lemma vector_abc: "murmurHash3x86_32 (utf8 (lit ''abc'')) 0 None = 0xb3dd93fa"
  by code_simp

lemma vector_abcd: "murmurHash3x86_32 (utf8 (lit ''abcd'')) 0 None = 0x43ed676a"
  by code_simp

lemma vector_hello: "murmurHash3x86_32 (utf8 (lit ''Hello, world!'')) 0 None = 0xc0363e43"
  by code_simp

lemma vector_e_acute: "murmurHash3x86_32 (utf8 (lit ''checkout-redesign:salt-a:'' @ [0xE9])) 0 None = 3502916619"
  by code_simp

lemma vector_astral: "murmurHash3x86_32 (utf8 (lit ''checkout-redesign:salt-a:user-'' @ [0xD83C, 0xDF89])) 0 None = 1034520586"
  by code_simp

text \<open>
  The hash agrees with the published smhasher vectors and with cases of the shared
  conformance fixture, among them every tail length, a two-byte and an astral character.
\<close>

lemma murmur_reference_vectors:
  "murmurHash3x86_32 (utf8 (lit ''a'')) 0 None = 0x3c2569b2
   \<and> murmurHash3x86_32 (utf8 (lit ''ab'')) 0 None = 0x9bbfd75f
   \<and> murmurHash3x86_32 (utf8 (lit ''abc'')) 0 None = 0xb3dd93fa
   \<and> murmurHash3x86_32 (utf8 (lit ''abcd'')) 0 None = 0x43ed676a
   \<and> murmurHash3x86_32 (utf8 (lit ''Hello, world!'')) 0 None = 0xc0363e43
   \<and> murmurHash3x86_32 (utf8 (lit ''checkout-redesign:salt-a:'' @ [0xE9])) 0 None = 3502916619
   \<and> murmurHash3x86_32 (utf8 (lit ''checkout-redesign:salt-a:user-'' @ [0xD83C, 0xDF89])) 0 None = 1034520586"
  by (intro conjI vector_a vector_ab vector_abc vector_abcd vector_hello vector_e_acute vector_astral)

end
