(* ===== verification/Bucketing.thy ===== *)
theory Bucketing
  imports Murmur
begin

text \<open>\<open>packages/core/src/bucketing.ts\<close>: the bucket of a user and the walk over a rollout.\<close>

definition BUCKET_SPACE :: int where "BUCKET_SPACE = 100000"

definition BUCKET_SEPARATOR :: js_string where "BUCKET_SEPARATOR = lit '':''"

definition bucketingInput :: "js_string \<Rightarrow> js_string \<Rightarrow> js_string \<Rightarrow> js_string" where
  "bucketingInput flagKey salt' bucketKey =
     flagKey @ BUCKET_SEPARATOR @ salt' @ BUCKET_SEPARATOR @ bucketKey"

text \<open>
  The hash goes through the scratch buffer as the module allocates it; \<open>string_hash_eq\<close> says that
  any other buffer, and whatever earlier calls wrote into it, gives the same bucket.
\<close>

definition initial_scratch :: "8 word list" where
  "initial_scratch = replicate 512 0"

definition bucketFor :: "js_string \<Rightarrow> js_string \<Rightarrow> js_string \<Rightarrow> int" where
  "bucketFor flagKey salt' bucketKey =
     uint (fst (murmurHash3x86_32String initial_scratch (bucketingInput flagKey salt' bucketKey) 0))
       mod BUCKET_SPACE"

fun rollout_walk :: "distribution list \<Rightarrow> js_number \<Rightarrow> int \<Rightarrow> js_string option" where
  "rollout_walk [] cumulative b = None"
| "rollout_walk (entry # ds) cumulative b =
     (let cumulative' = num_add cumulative (weight entry) in
      if num_lt (Fin (of_int b)) cumulative' then Some (variationKey entry)
      else rollout_walk ds cumulative' b)"

definition variationForBucket :: "distribution list \<Rightarrow> int \<Rightarrow> js_string option" where
  "variationForBucket ds b = rollout_walk ds (Fin 0) b"

fun weights_total :: "distribution list \<Rightarrow> js_number \<Rightarrow> js_number option" where
  "weights_total [] tot = Some tot"
| "weights_total (entry # ds) tot =
     (if \<not> is_integer_number (weight entry) \<or> num_lt (weight entry) (Fin 0) then None
      else weights_total ds (num_add tot (weight entry)))"

definition isValidDistribution :: "distribution list \<Rightarrow> bool" where
  "isValidDistribution ds =
     (if ds = [] then False
      else case weights_total ds (Fin 0) of
             None \<Rightarrow> False
           | Some tot \<Rightarrow> num_eq tot (Fin (of_int BUCKET_SPACE)))"

section \<open>Buckets\<close>

lemma bucketFor_eq:
  assumes "3 * length (bucketingInput f s k) < 2 ^ 32"
  shows "bucketFor f s k =
    uint (murmur3_reference (utf8 (bucketingInput f s k)) 0) mod BUCKET_SPACE"
  using string_hash_eq [OF assms] by (simp add: bucketFor_def)

lemma bucketFor_range [simp]: "0 \<le> bucketFor f s k" "bucketFor f s k < BUCKET_SPACE"
  by (simp_all add: bucketFor_def BUCKET_SPACE_def)

lemma separator_split:
  assumes "a @ BUCKET_SEPARATOR @ b = a' @ BUCKET_SEPARATOR @ b'"
    and "of_char CHR '':'' \<notin> set a" "of_char CHR '':'' \<notin> set a'"
  shows "a = a' \<and> b = b'"
  using assms
proof (induction a arbitrary: a')
  case Nil
  then show ?case by (cases a') (auto simp: BUCKET_SEPARATOR_def lit_def)
next
  case (Cons x xs)
  then show ?case by (cases a') (auto simp: BUCKET_SEPARATOR_def lit_def)
qed

section \<open>Valid distributions\<close>

text \<open>
  The integer reading of a distribution: its weights as integers. A distribution that passes the
  validation has one, and its floating-point sums are exact.
\<close>

definition has_weights :: "distribution list \<Rightarrow> int list \<Rightarrow> bool" where
  "has_weights ds ws \<longleftrightarrow> map weight ds = map (\<lambda>w. Fin (of_int w)) ws \<and> (\<forall>w \<in> set ws. 0 \<le> w)"

lemma has_weights_Nil [simp]: "has_weights [] ws \<longleftrightarrow> ws = []"
  by (auto simp: has_weights_def)

lemma has_weights_Cons [simp]:
  "has_weights (d # ds) ws \<longleftrightarrow>
    (\<exists>w us. ws = w # us \<and> weight d = Fin (of_int w) \<and> 0 \<le> w \<and> has_weights ds us)"
  by (cases ws) (auto simp: has_weights_def)

lemma has_weights_nonneg: "has_weights ds ws \<Longrightarrow> 0 \<le> sum_list ws"
  by (auto simp: has_weights_def intro: sum_list_nonneg)

lemma integer_weightE:
  assumes "is_integer_number x" "\<not> num_lt x (Fin 0)"
  obtains w where "x = Fin (of_int w)" "0 \<le> w"
proof -
  obtain a where a: "x = Fin a" "of_int \<lfloor>a\<rfloor> = a" using assms(1) by (cases x) auto
  have "x = Fin (of_int \<lfloor>a\<rfloor>)" by (simp only: a)
  moreover have "0 \<le> \<lfloor>a\<rfloor>" using assms(2) by (simp add: a(1))
  ultimately show ?thesis by (rule that)
qed

text \<open>Once a partial sum has passed the bucket space, no rounding brings it back.\<close>

lemma weights_total_too_big:
  assumes "num_le (Fin 100001) t" "weights_total ds t = Some u"
  shows "num_le (Fin 100001) u"
  using assms
proof (induction ds arbitrary: t)
  case (Cons d ds)
  then have "is_integer_number (weight d)" "\<not> num_lt (weight d) (Fin 0)"
    by (auto split: if_splits)
  then obtain w where w: "weight d = Fin (of_int w)" "0 \<le> w" by (rule integer_weightE)
  have "num_le (Fin 100001) (num_add t (weight d))"
  proof (cases t)
    case (Fin c)
    with Cons.prems(1) have "of_int 100001 \<le> c + of_int w" using w(2) by simp
    then show ?thesis using Fin w round_double_ge_int [of 100001] by simp
  qed (use Cons.prems(1) w in auto)
  then show ?case using Cons by (auto split: if_splits)
qed simp

lemma weights_total_exact:
  assumes "0 \<le> n" "n \<le> BUCKET_SPACE"
  shows "weights_total ds (Fin (of_int n)) = Some (Fin (of_int BUCKET_SPACE)) \<longleftrightarrow>
    (\<exists>ws. has_weights ds ws \<and> n + sum_list ws = BUCKET_SPACE)"
  using assms
proof (induction ds arbitrary: n)
  case (Cons d ds)
  show ?case
  proof (cases "is_integer_number (weight d) \<and> \<not> num_lt (weight d) (Fin 0)")
    case True
    then obtain w where w: "weight d = Fin (of_int w)" "0 \<le> w" by (auto elim: integer_weightE)
    show ?thesis
    proof (cases "n + w \<le> BUCKET_SPACE")
      case small: True
      then have "num_add (Fin (of_int n)) (weight d) = Fin (of_int (n + w))"
        using w Cons.prems by (simp only: w(1)) (rule num_add_of_int, simp add: BUCKET_SPACE_def)
      then show ?thesis using Cons.IH [of "n + w"] small Cons.prems w True
        by (auto simp add: add.assoc)
    next
      case False
      then have "of_int 100001 \<le> (of_int (n + w) :: rat)"
        by (simp only: of_int_le_iff) (simp add: BUCKET_SPACE_def)
      then have "num_le (Fin 100001) (num_add (Fin (of_int n)) (weight d))"
        using w round_double_ge_int [of 100001 "of_int (n + w)"] by simp
      then have "weights_total (d # ds) (Fin (of_int n)) \<noteq> Some (Fin (of_int BUCKET_SPACE))"
        using True by (auto simp: BUCKET_SPACE_def dest: weights_total_too_big)
      moreover have "\<not> (\<exists>ws. has_weights (d # ds) ws \<and> n + sum_list ws = BUCKET_SPACE)"
        using False w has_weights_nonneg by fastforce
      ultimately show ?thesis by blast
    qed
  next
    case False
    then show ?thesis by auto
  qed
qed auto

lemma isValidDistribution_iff:
  "isValidDistribution ds \<longleftrightarrow> (\<exists>ws. has_weights ds ws \<and> sum_list ws = BUCKET_SPACE)"
proof -
  have eq: "num_eq t (Fin a) \<longleftrightarrow> t = Fin a" for t a by (cases t) auto
  have "(case weights_total ds (Fin 0) of None \<Rightarrow> False
      | Some tot \<Rightarrow> num_eq tot (Fin (of_int BUCKET_SPACE))) \<longleftrightarrow>
    weights_total ds (Fin (of_int 0)) = Some (Fin (of_int BUCKET_SPACE))"
    by (auto simp: eq split: option.splits)
  also have "\<dots> \<longleftrightarrow> (\<exists>ws. has_weights ds ws \<and> 0 + sum_list ws = BUCKET_SPACE)"
    by (rule weights_total_exact) (simp_all add: BUCKET_SPACE_def)
  finally show ?thesis by (auto simp: isValidDistribution_def BUCKET_SPACE_def)
qed

section \<open>The walk\<close>

text \<open>The walk over integers: cumulative sums with no rounding.\<close>

fun int_walk :: "(js_string \<times> int) list \<Rightarrow> int \<Rightarrow> int \<Rightarrow> js_string option" where
  "int_walk [] c b = None"
| "int_walk ((k, w) # es) c b = (if b < c + w then Some k else int_walk es (c + w) b)"

lemma rollout_walk_int:
  assumes "has_weights ds ws" "0 \<le> c" "c + sum_list ws \<le> BUCKET_SPACE"
  shows "rollout_walk ds (Fin (of_int c)) b = int_walk (zip (map variationKey ds) ws) c b"
  using assms
proof (induction ds arbitrary: ws c)
  case (Cons d ds)
  then obtain w us where ws: "ws = w # us" "weight d = Fin (of_int w)" "0 \<le> w" "has_weights ds us"
    by auto
  have "num_add (Fin (of_int c)) (weight d) = Fin (of_int (c + w))"
    using Cons.prems ws has_weights_nonneg [OF ws(4)]
    by (simp only: ws(2)) (rule num_add_of_int, simp add: BUCKET_SPACE_def)
  then show ?case using Cons.IH [OF ws(4), of "c + w"] Cons.prems ws
    by (simp del: of_int_add num_add.simps add: Let_def)
qed simp

lemma variationForBucket_int:
  "has_weights ds ws \<Longrightarrow> sum_list ws = BUCKET_SPACE \<Longrightarrow>
    variationForBucket ds b = int_walk (zip (map variationKey ds) ws) 0 b"
  using rollout_walk_int [of ds ws 0 b] by (simp add: variationForBucket_def)

lemma int_walk_total:
  "c \<le> b \<Longrightarrow> b < c + sum_list (map snd es) \<Longrightarrow> \<exists>k \<in> fst ` set es. int_walk es c b = Some k"
  by (induction es c b rule: int_walk.induct) auto

text \<open>
  The buckets that a walk from \<open>c\<close> serves with \<open>k\<close> number exactly the weight declared for \<open>k\<close>.
\<close>

lemma int_walk_share:
  assumes "\<forall>e \<in> set es. 0 \<le> snd e"
  shows "int (card {b \<in> {c..<c + sum_list (map snd es)}. int_walk es c b = Some k}) =
    sum_list (map snd (filter (\<lambda>e. fst e = k) es))"
  using assms
proof (induction es arbitrary: c)
  case (Cons e es)
  obtain k' w where e: "e = (k', w)" by (cases e)
  have w: "0 \<le> w" and rest: "\<forall>e \<in> set es. 0 \<le> snd e" using Cons.prems e by auto
  define S where "S = sum_list (map snd es)"
  have S: "0 \<le> S" unfolding S_def using rest by (intro sum_list_nonneg) auto
  let ?A = "{b \<in> {c..<c + w}. k' = k}"
  let ?B = "{b \<in> {c + w..<c + w + S}. int_walk es (c + w) b = Some k}"
  have "{b \<in> {c..<c + sum_list (map snd (e # es))}. int_walk (e # es) c b = Some k} = ?A \<union> ?B"
    using w S by (auto simp: e S_def [symmetric] split: if_splits)
  moreover have "card (?A \<union> ?B) = card ?A + card ?B"
  proof (rule card_Un_disjoint)
    show "finite ?A" by (rule finite_subset [of _ "{c..<c + w}"]) auto
    show "finite ?B" by (rule finite_subset [of _ "{c + w..<c + w + S}"]) auto
  qed auto
  moreover have "int (card ?A) = (if k' = k then w else 0)"
  proof (cases "k' = k")
    case True
    then have "?A = {c..<c + w}" by auto
    with True w show ?thesis by simp
  qed simp
  moreover have "int (card ?B) = sum_list (map snd (filter (\<lambda>e. fst e = k) es))"
    using Cons.IH [OF rest, of "c + w"] by (simp add: S_def)
  ultimately show ?case by (simp add: e)
qed simp


text \<open>The walk over \<open>pre @ post\<close> is the walk over \<open>pre\<close> where that one finds something.\<close>

lemma rollout_walk_append:
  "rollout_walk (pre @ post) c b =
    (case rollout_walk pre c b of
       None \<Rightarrow> rollout_walk post (fold (\<lambda>e c. num_add c (weight e)) pre c) b
     | Some k \<Rightarrow> Some k)"
  by (induction pre arbitrary: c) (auto simp: Let_def split: option.splits)

lemma has_weights_append:
  "has_weights (xs @ ys) ws \<longleftrightarrow>
    (\<exists>us vs. ws = us @ vs \<and> has_weights xs us \<and> has_weights ys vs)"
  by (auto simp: has_weights_def map_eq_append_conv append_eq_map_conv) blast

lemma fold_weights_int:
  assumes "has_weights ds ws" "0 \<le> c" "c + sum_list ws \<le> BUCKET_SPACE"
  shows "fold (\<lambda>e c. num_add c (weight e)) ds (Fin (of_int c)) = Fin (of_int (c + sum_list ws))"
  using assms
proof (induction ds arbitrary: ws c)
  case (Cons d ds)
  then obtain w us where ws: "ws = w # us" "weight d = Fin (of_int w)" "0 \<le> w" "has_weights ds us"
    by auto
  have "num_add (Fin (of_int c)) (weight d) = Fin (of_int (c + w))"
    using Cons.prems ws has_weights_nonneg [OF ws(4)]
    by (simp only: ws(2)) (rule num_add_of_int, simp add: BUCKET_SPACE_def)
  then show ?case using Cons.IH [OF ws(4), of "c + w"] Cons.prems ws
    by (simp del: of_int_add num_add.simps add: add.assoc)
qed simp

lemma num_add_mono_right:
  assumes "num_le x (Fin y)"
  shows "num_lt z (num_add (Fin c) x) \<Longrightarrow> num_lt z (num_add (Fin c) (Fin y))"
proof -
  assume lt: "num_lt z (num_add (Fin c) x)"
  show ?thesis
  proof (cases x)
    case (Fin a)
    then have "num_le (num_add (Fin c) x) (num_add (Fin c) (Fin y))"
      using assms by (simp add: round_double_mono)
    then show ?thesis using lt num_lt_le_trans by blast
  qed (use assms lt in \<open>auto, cases z, auto\<close>)
qed

section \<open>Properties\<close>

text \<open>
  Every bucket lies in \<open>[0, 100000)\<close> and is the reference hash of the joined input modulo the
  bucket space, whatever the keys are.
\<close>

lemma bucket_is_reference_hash_mod:
  assumes "3 * length (bucketingInput flagKey s k) < 2 ^ 32"
  shows "bucketFor flagKey s k =
      uint (murmur3_reference (utf8 (bucketingInput flagKey s k)) 0) mod 100000
    \<and> 0 \<le> bucketFor flagKey s k \<and> bucketFor flagKey s k < 100000"
  using bucketFor_eq [OF assms] bucketFor_range [of flagKey s k] by (simp add: BUCKET_SPACE_def)

lemma bucketFor_abcde: "bucketFor (lit ''checkout-redesign'') (lit ''salt-a'') (lit ''abcde'') = 74793"
proof -
  have "uint (murmur3_reference (utf8 (bucketingInput (lit ''checkout-redesign'') (lit ''salt-a'')
      (lit ''abcde''))) 0) mod BUCKET_SPACE = 74793"
    by code_simp
  moreover have "3 * length (bucketingInput (lit ''checkout-redesign'') (lit ''salt-a'')
      (lit ''abcde'')) < 2 ^ 32"
    by (simp add: bucketingInput_def BUCKET_SEPARATOR_def lit_def)
  ultimately show ?thesis by (simp add: bucketFor_eq)
qed

lemma bucket_is_reference_hash_mod_witness:
  "uint (murmur3_reference (utf8 (bucketingInput (lit ''checkout-redesign'') (lit ''salt-a'')
      (lit ''abcde''))) 0) mod 100000 = 74793"
proof -
  have "3 * length (bucketingInput (lit ''checkout-redesign'') (lit ''salt-a'') (lit ''abcde'')) < 2 ^ 32"
    by (simp add: bucketingInput_def BUCKET_SEPARATOR_def lit_def)
  from bucket_is_reference_hash_mod [OF this] show ?thesis by (simp only: bucketFor_abcde)
qed

text \<open>
  The unescaped join is unambiguous: two bucketing inputs are equal only for equal flag key,
  salt and bucket key, when flag keys and salts contain no colon (the write-time restriction);
  the bucket key is arbitrary.
\<close>

lemma bucketing_input_unambiguous:
  assumes "bucketingInput f s k = bucketingInput f' s' k'"
    and "of_char CHR '':'' \<notin> set f \<union> set f' \<union> set s \<union> set s'"
  shows "f = f' \<and> s = s' \<and> k = k'"
proof -
  have "f = f' \<and> s @ BUCKET_SEPARATOR @ k = s' @ BUCKET_SEPARATOR @ k'"
    using assms by (intro separator_split) (auto simp: bucketingInput_def)
  moreover from this have "s = s' \<and> k = k'"
    using assms(2) by (intro separator_split) auto
  ultimately show ?thesis by simp
qed

lemma bucketing_input_unambiguous_witness:
  "lit ''a'' = lit ''a'' \<and> lit ''b'' = lit ''b'' \<and> lit '':c:'' = lit '':c:''"
  by (rule bucketing_input_unambiguous) (simp_all add: lit_def)

text \<open>
  \<open>isValidDistribution\<close> accepts exactly the lists whose weights are non-negative integers with
  the exact sum 100000; no rounding of the floating-point running sum makes another list pass.
\<close>

lemma valid_distribution_iff_exact:
  "isValidDistribution ds =
    (\<exists>ws. map weight ds = map (\<lambda>w. Fin (of_int w)) ws \<and> list_all (\<lambda>w. 0 \<le> w) ws
      \<and> sum_list ws = 100000)"
  by (simp add: isValidDistribution_iff has_weights_def BUCKET_SPACE_def list_all_iff)

text \<open>A valid distribution serves every bucket a variation it declares.\<close>

lemma has_weights_length: "has_weights ds ws \<Longrightarrow> length ds = length ws"
  by (auto simp: has_weights_def dest: map_eq_imp_length_eq)

lemma variationForBucket_total:
  assumes "isValidDistribution ds" "0 \<le> b" "b < BUCKET_SPACE"
  shows "\<exists>k \<in> variationKey ` set ds. variationForBucket ds b = Some k"
proof -
  obtain ws where ws: "has_weights ds ws" "sum_list ws = BUCKET_SPACE"
    using assms(1) by (auto simp: isValidDistribution_iff)
  obtain k where k: "k \<in> fst ` set (zip (map variationKey ds) ws)"
      "int_walk (zip (map variationKey ds) ws) 0 b = Some k"
    using assms ws has_weights_length [OF ws(1)] int_walk_total [of 0 b "zip (map variationKey ds) ws"]
    by auto
  moreover have "fst ` set (zip (map variationKey ds) ws) \<subseteq> variationKey ` set ds"
    by (force dest: set_zip_leftD)
  moreover have "variationForBucket ds b = int_walk (zip (map variationKey ds) ws) 0 b"
    using ws by (rule variationForBucket_int)
  ultimately show ?thesis using k by auto
qed

lemma filter_weights:
  "has_weights ds ws \<Longrightarrow>
    has_weights (filter (\<lambda>e. variationKey e = k) ds)
      (map snd (filter (\<lambda>e. fst e = k) (zip (map variationKey ds) ws)))
    \<and> sum_list (map snd (filter (\<lambda>e. fst e = k) (zip (map variationKey ds) ws))) \<le> sum_list ws"
  by (induction ds arbitrary: ws) fastforce+

text \<open>
  C9: the split is exact: over the 100000 buckets, a valid distribution leaves no bucket
  unserved and serves each variation exactly as many buckets as the weights declared for it.
\<close>

theorem rollout_split_is_exact:
  assumes "isValidDistribution ds"
  shows "(\<forall>b \<in> {0..<100000}. \<exists>k \<in> variationKey ` set ds. variationForBucket ds b = Some k)
    \<and> Fin (of_nat (card {b \<in> {0..<100000}. variationForBucket ds b = Some k})) =
        fold (\<lambda>e c. num_add c (weight e)) (filter (\<lambda>e. variationKey e = k) ds) (Fin 0)"
proof -
  obtain ws where ws: "has_weights ds ws" "sum_list ws = BUCKET_SPACE"
    using assms by (auto simp: isValidDistribution_iff)
  let ?es = "zip (map variationKey ds) ws"
  let ?f = "filter (\<lambda>e. fst e = k) ?es"
  have snd_es: "map snd ?es = ws" using has_weights_length [OF ws(1)] by simp
  have sel: "has_weights (filter (\<lambda>e. variationKey e = k) ds) (map snd ?f)"
    and le: "0 + sum_list (map snd ?f) \<le> BUCKET_SPACE"
    using filter_weights [OF ws(1), of k] ws(2) by simp_all
  have "int (card {b \<in> {0..<0 + sum_list (map snd ?es)}. int_walk ?es 0 b = Some k}) =
      sum_list (map snd ?f)"
    using ws(1) by (intro int_walk_share) (auto simp: has_weights_def dest: set_zip_rightD)
  then have "int (card {b \<in> {0..<100000}. variationForBucket ds b = Some k}) = sum_list (map snd ?f)"
    using ws snd_es by (simp add: variationForBucket_int BUCKET_SPACE_def)
  moreover have "fold (\<lambda>e c. num_add c (weight e)) (filter (\<lambda>e. variationKey e = k) ds)
      (Fin (of_int 0)) = Fin (of_int (0 + sum_list (map snd ?f)))"
    using sel _ le by (rule fold_weights_int) simp
  ultimately show ?thesis using variationForBucket_total [OF assms]
    by (simp add: BUCKET_SPACE_def)
qed

definition example_rollout :: "distribution list" where
  "example_rollout = [\<lparr>variationKey = lit ''on'', weight = Fin (of_int 30000)\<rparr>,
                \<lparr>variationKey = lit ''off'', weight = Fin (of_int 70000)\<rparr>]"

lemma example_rollout_valid: "isValidDistribution example_rollout"
  unfolding isValidDistribution_iff
  by (rule exI [of _ "[30000, 70000]"]) (simp add: example_rollout_def BUCKET_SPACE_def)

theorem rollout_split_is_exact_witness:
  "Fin (of_nat (card {b \<in> {0..<100000}. variationForBucket example_rollout b = Some (lit ''on'')}))
    = Fin (of_int (0 + 30000))"
  using rollout_split_is_exact [OF example_rollout_valid, of "lit ''on''"]
    num_add_of_int [of 0 30000]
  by (simp add: example_rollout_def)

text \<open>
  C10: raising a rollout is purely additive: when the weight of an entry grows (and the entries
  before it stay), everybody served by that entry or an earlier one keeps their variation,
  whatever happens to the entries after it.
\<close>

theorem rollout_increase_is_additive:
  assumes "isValidDistribution (pre @ e' # post')"
    and "variationKey e' = variationKey e" "num_le (weight e) (weight e')"
    and "variationForBucket (pre @ [e]) b = Some k"
  shows "variationForBucket (pre @ e' # post') b = Some k"
proof (cases "rollout_walk pre (Fin 0) b")
  case (Some k')
  then show ?thesis using assms(4) by (simp add: variationForBucket_def rollout_walk_append)
next
  case None
  obtain ws where ws: "has_weights (pre @ e' # post') ws" "sum_list ws = BUCKET_SPACE"
    using assms(1) by (auto simp: isValidDistribution_iff)
  then obtain us w vs where u: "has_weights pre us" "ws = us @ w # vs"
      "weight e' = Fin (of_int w)" "0 \<le> w" "has_weights post' vs"
    by (auto simp: has_weights_append)
  have "0 + sum_list us \<le> BUCKET_SPACE"
    using ws(2) u has_weights_nonneg [OF u(5)] by simp
  then have cum: "fold (\<lambda>e c. num_add c (weight e)) pre (Fin 0) = Fin (of_int (sum_list us))"
    using fold_weights_int [OF u(1), of 0] by simp
  have "k = variationKey e \<and> num_lt (Fin (of_int b)) (num_add (Fin (of_int (sum_list us))) (weight e))"
    using assms(4) None cum
    by (simp add: variationForBucket_def rollout_walk_append Let_def split: if_splits)
  then show ?thesis
    using None cum assms(2,3) u(3) num_add_mono_right
    by (simp add: variationForBucket_def rollout_walk_append Let_def del: num_add.simps)
qed

theorem rollout_increase_is_additive_witness:
  "variationForBucket ([] @ \<lparr>variationKey = lit ''on'', weight = Fin (of_int 30000)\<rparr>
      # [\<lparr>variationKey = lit ''off'', weight = Fin (of_int 70000)\<rparr>]) 4711 = Some (lit ''on'')"
proof (rule rollout_increase_is_additive
    [where e = "\<lparr>variationKey = lit ''on'', weight = Fin (of_int 10000)\<rparr>"])
  show "isValidDistribution ([] @ \<lparr>variationKey = lit ''on'', weight = Fin (of_int 30000)\<rparr>
      # [\<lparr>variationKey = lit ''off'', weight = Fin (of_int 70000)\<rparr>])"
    using example_rollout_valid by (simp add: example_rollout_def)
qed (use num_add_of_int [of 0 10000] in \<open>simp_all add: variationForBucket_def\<close>)

end
