(* ===== verification/Operators.thy ===== *)
theory Operators
  imports Types
begin

text \<open>
  \<open>packages/core/src/operators.ts\<close>. The regular-expression engine of the runtime is a parameter
  \<open>regex\<close>: \<open>new RegExp(pattern)\<close> gives \<open>None\<close> where it throws, otherwise the \<open>test\<close> function. The
  module's \<open>regexCache\<close> is explicit state of \<open>applyOperator_cached\<close>; \<open>applyOperator\<close> is the
  cache-free reading that the evaluator uses, and the cache is proved transparent.
\<close>

type_synonym regex_engine = "js_string \<Rightarrow> (js_string \<Rightarrow> bool) option"

fun asString :: "attribute_value \<Rightarrow> js_string option" where
  "asString (AString s) = Some s"
| "asString v = None"

fun asNumber :: "attribute_value \<Rightarrow> js_number option" where
  "asNumber (ANumber n) = (if is_finite_number n then Some n else None)"
| "asNumber v = None"

text \<open>\<open>a === b\<close>: an object is never identical to a value of the ruleset.\<close>

fun looseEquals :: "attribute_value \<Rightarrow> attribute_value \<Rightarrow> bool" where
  "looseEquals (AString a) (AString b) = (a = b)"
| "looseEquals (ANumber a) (ANumber b) = num_eq a b"
| "looseEquals (ABoolean a) (ABoolean b) = (a = b)"
| "looseEquals ANull ANull = True"
| "looseEquals a b = False"

section \<open>Semantic versions\<close>

record semver =
  major :: js_number
  minor :: js_number
  patch :: js_number
  prerelease :: js_string

text \<open>The class \<open>[0-9A-Za-z.-]\<close>.\<close>

definition is_ident :: "16 word \<Rightarrow> bool" where
  "is_ident c = (is_digit c \<or> (0x41 \<le> c \<and> c \<le> 0x5A) \<or> (0x61 \<le> c \<and> c \<le> 0x7A)
     \<or> c = 0x2E \<or> c = 0x2D)"

text \<open>A non-empty run of characters of a class, and the rest.\<close>

definition run_of :: "(16 word \<Rightarrow> bool) \<Rightarrow> js_string \<Rightarrow> (js_string \<times> js_string) option" where
  "run_of P s = (if takeWhile P s = [] then None else Some (takeWhile P s, dropWhile P s))"

fun skip_char :: "16 word \<Rightarrow> js_string \<Rightarrow> js_string option" where
  "skip_char c [] = None"
| "skip_char c (x # xs) = (if x = c then Some xs else None)"

text \<open>An optional group: a lead character and a run of the identifier class.\<close>

definition opt_group :: "16 word \<Rightarrow> js_string \<Rightarrow> js_string option \<times> js_string" where
  "opt_group c s =
     (case Option.bind (skip_char c s) (run_of is_ident) of
        None \<Rightarrow> (None, s) | Some (run, rest) \<Rightarrow> (Some run, rest))"

text \<open>
  \<open>SEMVER_PATTERN\<close>. Matching is deterministic: a digit run is followed by a dot or an optional
  group, whose lead character is not a digit, and the identifier class has no plus sign.
\<close>

definition match_semver :: "js_string \<Rightarrow> (js_string \<times> js_string \<times> js_string \<times> js_string option) option" where
  "match_semver s =
     Option.bind (run_of is_digit s) (\<lambda>(a, s1).
     Option.bind (skip_char 0x2E s1) (\<lambda>s2.
     Option.bind (run_of is_digit s2) (\<lambda>(b, s3).
     Option.bind (skip_char 0x2E s3) (\<lambda>s4.
     Option.bind (run_of is_digit s4) (\<lambda>(c, s5).
       let (pre, s6) = opt_group 0x2D s5; (build, s7) = opt_group 0x2B s6
       in if s7 = [] then Some (a, b, c, pre) else None)))))"

definition parseSemVer :: "attribute_value \<Rightarrow> semver option" where
  "parseSemVer input =
     Option.bind (asString input) (\<lambda>raw.
     map_option (\<lambda>(a, b, c, pre).
       \<lparr>major = digits_to_number a, minor = digits_to_number b, patch = digits_to_number c,
        prerelease = (case pre of None \<Rightarrow> [] | Some p \<Rightarrow> p)\<rparr>) (match_semver raw))"

definition compareSemVer :: "semver \<Rightarrow> semver \<Rightarrow> js_number" where
  "compareSemVer a b =
     (if \<not> num_eq (major a) (major b) then num_sub (major a) (major b)
      else if \<not> num_eq (minor a) (minor b) then num_sub (minor a) (minor b)
      else if \<not> num_eq (patch a) (patch b) then num_sub (patch a) (patch b)
      else if prerelease a = prerelease b then Fin 0
      else if prerelease a = [] then Fin 1
      else if prerelease b = [] then Fin (- 1)
      else if string_less (prerelease a) (prerelease b) then Fin (- 1) else Fin 1)"

section \<open>Comparisons against a list of values\<close>

definition compareNumeric ::
    "attribute_value \<Rightarrow> attribute_value list \<Rightarrow> (js_number \<Rightarrow> js_number \<Rightarrow> bool) \<Rightarrow> bool" where
  "compareNumeric attribute values predicate =
     (case asNumber attribute of
        None \<Rightarrow> False
      | Some left \<Rightarrow> list_ex (\<lambda>v. case asNumber v of None \<Rightarrow> False
                                  | Some right \<Rightarrow> predicate left right) values)"

definition compareSemantic ::
    "attribute_value \<Rightarrow> attribute_value list \<Rightarrow> (js_number \<Rightarrow> bool) \<Rightarrow> bool" where
  "compareSemantic attribute values predicate =
     (case parseSemVer attribute of
        None \<Rightarrow> False
      | Some left \<Rightarrow> list_ex (\<lambda>v. case parseSemVer v of None \<Rightarrow> False
                                  | Some right \<Rightarrow> predicate (compareSemVer left right)) values)"

definition compareString ::
    "attribute_value \<Rightarrow> attribute_value list \<Rightarrow> (js_string \<Rightarrow> js_string \<Rightarrow> bool) \<Rightarrow> bool" where
  "compareString attribute values predicate =
     (case asString attribute of
        None \<Rightarrow> False
      | Some left \<Rightarrow> list_ex (\<lambda>v. case asString v of None \<Rightarrow> False
                                  | Some right \<Rightarrow> predicate left right) values)"

definition regex_matches :: "regex_engine \<Rightarrow> js_string \<Rightarrow> js_string \<Rightarrow> bool" where
  "regex_matches regex s pattern = (case regex pattern of None \<Rightarrow> False | Some test \<Rightarrow> test s)"

fun apply_to :: "regex_engine \<Rightarrow> operator \<Rightarrow> attribute_value \<Rightarrow> attribute_value list \<Rightarrow> bool" where
  "apply_to regex Eq attribute values = list_ex (looseEquals attribute) values"
| "apply_to regex Neq attribute values = (\<not> list_ex (looseEquals attribute) values)"
| "apply_to regex In attribute values = list_ex (looseEquals attribute) values"
| "apply_to regex NotIn attribute values = (\<not> list_ex (looseEquals attribute) values)"
| "apply_to regex Contains attribute values = compareString attribute values has_substring"
| "apply_to regex StartsWith attribute values = compareString attribute values starts_with"
| "apply_to regex EndsWith attribute values = compareString attribute values ends_with"
| "apply_to regex Matches attribute values = compareString attribute values (regex_matches regex)"
| "apply_to regex Gt attribute values = compareNumeric attribute values (\<lambda>a b. num_lt b a)"
| "apply_to regex Gte attribute values = compareNumeric attribute values (\<lambda>a b. num_le b a)"
| "apply_to regex Lt attribute values = compareNumeric attribute values num_lt"
| "apply_to regex Lte attribute values = compareNumeric attribute values num_le"
| "apply_to regex SemverGt attribute values = compareSemantic attribute values (num_lt (Fin 0))"
| "apply_to regex SemverLt attribute values = compareSemantic attribute values (\<lambda>o'. num_lt o' (Fin 0))"
| "apply_to regex (UnknownOperator name) attribute values = False"

text \<open>\<open>attribute\<close> is \<open>None\<close> when it is \<open>undefined\<close>.\<close>

definition applyOperator ::
    "regex_engine \<Rightarrow> operator \<Rightarrow> attribute_value option \<Rightarrow> attribute_value list \<Rightarrow> bool" where
  "applyOperator regex operator attribute values =
     (case attribute of None \<Rightarrow> False | Some a \<Rightarrow> apply_to regex operator a values)"

section \<open>The regular-expression cache\<close>

type_synonym regex_cache = "(js_string, (js_string \<Rightarrow> bool) option) js_map"

definition compileRegex ::
    "regex_engine \<Rightarrow> regex_cache \<Rightarrow> js_string \<Rightarrow> (js_string \<Rightarrow> bool) option \<times> regex_cache" where
  "compileRegex regex cache pattern =
     (case map_get cache pattern of
        Some compiled \<Rightarrow> (compiled, cache)
      | None \<Rightarrow> (let compiled = regex pattern in (compiled, map_set pattern compiled cache)))"

text \<open>\<open>values.some(...)\<close> with the cache threaded through: it stops at the first match.\<close>

fun some_matches ::
    "regex_engine \<Rightarrow> regex_cache \<Rightarrow> js_string \<Rightarrow> attribute_value list \<Rightarrow> bool \<times> regex_cache" where
  "some_matches regex cache left [] = (False, cache)"
| "some_matches regex cache left (v # vs) =
     (case asString v of
        None \<Rightarrow> some_matches regex cache left vs
      | Some right \<Rightarrow>
          (let (compiled, cache') = compileRegex regex cache right in
           if (case compiled of None \<Rightarrow> False | Some test \<Rightarrow> test left) then (True, cache')
           else some_matches regex cache' left vs))"

definition applyOperator_cached ::
    "regex_engine \<Rightarrow> regex_cache \<Rightarrow> operator \<Rightarrow> attribute_value option \<Rightarrow> attribute_value list
     \<Rightarrow> bool \<times> regex_cache" where
  "applyOperator_cached regex cache operator attribute values =
     (case attribute of
        None \<Rightarrow> (False, cache)
      | Some a \<Rightarrow>
          (if operator = Matches
           then (case asString a of None \<Rightarrow> (False, cache)
                 | Some left \<Rightarrow> some_matches regex cache left values)
           else (apply_to regex operator a values, cache)))"

text \<open>Every cached entry is what compiling its pattern gives.\<close>

definition cache_ok :: "regex_engine \<Rightarrow> regex_cache \<Rightarrow> bool" where
  "cache_ok regex cache = (\<forall>p c. map_get cache p = Some c \<longrightarrow> c = regex p)"

lemma cache_ok_Nil [simp]: "cache_ok regex []"
  by (simp add: cache_ok_def)

lemma compileRegex_ok:
  "cache_ok regex cache \<Longrightarrow> fst (compileRegex regex cache p) = regex p
    \<and> cache_ok regex (snd (compileRegex regex cache p))"
  by (auto simp: compileRegex_def cache_ok_def update_conv' Let_def split: option.splits if_splits)

lemma some_matches_ok:
  "cache_ok regex cache \<Longrightarrow>
    fst (some_matches regex cache left vs) =
      list_ex (\<lambda>v. case asString v of None \<Rightarrow> False | Some r \<Rightarrow> regex_matches regex left r) vs
    \<and> cache_ok regex (snd (some_matches regex cache left vs))"
proof (induction vs arbitrary: cache)
  case (Cons v vs)
  show ?case
  proof (cases "asString v")
    case (Some r)
    obtain c cache' where c: "compileRegex regex cache r = (c, cache')" by fastforce
    with compileRegex_ok [OF Cons.prems, of r] have "c = regex r" "cache_ok regex cache'" by auto
    with Some c Cons.IH [of cache'] show ?thesis by (auto simp: regex_matches_def split: option.splits)
  qed (use Cons in auto)
qed simp

text \<open>
  The regular-expression cache is transparent: starting from any cache that only holds results
  of compiling, an operator gives the same answer as without a cache, and leaves such a cache.
\<close>

lemma regex_cache_transparent:
  assumes "cache_ok regex cache"
  shows "fst (applyOperator_cached regex cache operator attribute values)
      = applyOperator regex operator attribute values
    \<and> cache_ok regex (snd (applyOperator_cached regex cache operator attribute values))"
  using assms some_matches_ok [OF assms]
  by (cases operator) (auto simp: applyOperator_cached_def applyOperator_def compareString_def
      split: option.splits)

lemma regex_cache_transparent_witness:
  "cache_ok (\<lambda>p. if p = lit ''('' then None else Some (\<lambda>s. s = p))
     (snd (applyOperator_cached (\<lambda>p. if p = lit ''('' then None else Some (\<lambda>s. s = p)) [] Matches
       (Some (AString (lit ''a''))) [AString (lit ''(''), AString (lit ''a'')]))"
  using regex_cache_transparent [OF cache_ok_Nil] by blast

section \<open>Order of semantic versions\<close>

text \<open>A component of a parsed version is a natural number or, past the range, infinity.\<close>

definition sv_num :: "js_number \<Rightarrow> bool" where
  "sv_num x \<longleftrightarrow> x = PosInf \<or> (\<exists>n. x = Fin (of_int n))"

definition sv_ok :: "semver \<Rightarrow> bool" where
  "sv_ok v \<longleftrightarrow> sv_num (major v) \<and> sv_num (minor v) \<and> sv_num (patch v)"

lemma round_pos_integer: "\<exists>m. round_pos (of_nat n) = of_int m"
proof (cases "n < 2 ^ 53")
  case True
  then have "round_pos (of_int (int n)) = of_int (int n)" by (intro round_pos_of_int) simp_all
  then show ?thesis by (intro exI [of _ "int n"]) simp
next
  case False
  then have n: "(0::rat) < of_nat n" by (cases n) auto
  have "(2 ^ 53 :: rat) \<le> of_nat n" using False by (metis not_less of_nat_le_iff of_nat_numeral of_nat_power)
  then have "(2::rat) powi 53 < 2 powi (ilog2 (of_nat n) + 1)"
    using ilog2_bounds(2) [OF n] by simp
  then have "53 < ilog2 (of_nat n) + 1" by (rule powi2_lessD)
  then have "0 \<le> ulp_exp (of_nat n)" by (simp add: ulp_exp_def)
  then have "(2::rat) powi ulp_exp (of_nat n) = of_int (2 ^ nat (ulp_exp (of_nat n)))"
    by (simp add: power_int_nonneg_exp)
  then have "round_pos (of_nat n) = of_int (round_half_even (of_nat n / 2 powi ulp_exp (of_nat n)) *
      2 ^ nat (ulp_exp (of_nat n)))"
    using n by (simp add: round_pos_def)
  then show ?thesis by blast
qed

lemma sv_num_digits [simp]: "sv_num (digits_to_number ds)"
  using round_pos_integer [of "digits_value ds"]
  by (auto simp: sv_num_def digits_to_number_def number_of_nat_def round_double_def)

lemma parseSemVer_ok: "parseSemVer v = Some s \<Longrightarrow> sv_ok s"
  by (auto simp: parseSemVer_def sv_ok_def bind_eq_Some_conv)

lemma sv_num_sub_neg:
  assumes "sv_num x" "sv_num y" "\<not> num_eq x y"
  shows "num_lt (num_sub x y) (Fin 0) \<longleftrightarrow> num_lt x y"
    and "num_lt (Fin 0) (num_sub x y) \<longleftrightarrow> num_lt y x"
proof -
  have fin: "(num_lt (round_double (of_int a - of_int b)) (Fin 0) \<longleftrightarrow> a < b)
      \<and> (num_lt (Fin 0) (round_double (of_int a - of_int b)) \<longleftrightarrow> b < a)" if "a \<noteq> b" for a b :: int
  proof (cases "a < b")
    case True
    then have "num_le (round_double (of_int (a - b))) (Fin (of_int (- 1)))"
      by (intro round_double_le_int) simp_all
    then have "num_lt (round_double (of_int (a - b))) (Fin 0)"
      by (rule num_le_lt_trans) simp
    moreover from this have "\<not> num_lt (Fin 0) (round_double (of_int (a - b)))"
      by (cases "round_double (of_int (a - b))") auto
    ultimately show ?thesis using True by simp
  next
    case False
    with that have ba: "b < a" by simp
    then have "num_le (Fin (of_int 1)) (round_double (of_int (a - b)))"
      by (intro round_double_ge_int) simp_all
    then have "num_lt (Fin 0) (round_double (of_int (a - b)))"
      by (rule num_lt_le_trans [rotated]) simp
    moreover from this have "\<not> num_lt (round_double (of_int (a - b))) (Fin 0)"
      by (cases "round_double (of_int (a - b))") auto
    ultimately show ?thesis using ba by simp
  qed
  show "num_lt (num_sub x y) (Fin 0) \<longleftrightarrow> num_lt x y"
    and "num_lt (Fin 0) (num_sub x y) \<longleftrightarrow> num_lt y x"
    using assms fin by (auto simp: sv_num_def num_sub_def)
qed

text \<open>
  The order that the comparison is meant to be: component by component, and at equal components
  a version without a prerelease comes last.
\<close>

definition pre_less :: "js_string \<Rightarrow> js_string \<Rightarrow> bool" where
  "pre_less p q \<longleftrightarrow> p \<noteq> [] \<and> (q = [] \<or> string_less p q)"

definition sv_less :: "semver \<Rightarrow> semver \<Rightarrow> bool" where
  "sv_less a b \<longleftrightarrow>
     num_lt (major a) (major b) \<or> major a = major b \<and>
     (num_lt (minor a) (minor b) \<or> minor a = minor b \<and>
     (num_lt (patch a) (patch b) \<or> patch a = patch b \<and> pre_less (prerelease a) (prerelease b)))"

lemma num_lt_irrefl [simp]: "\<not> num_lt x x"
  by (cases x) auto

lemma num_lt_trans: "num_lt x y \<Longrightarrow> num_lt y z \<Longrightarrow> num_lt x z"
  by (cases x; cases y; cases z; auto)

lemma sv_num_eq [simp]: "sv_num x \<Longrightarrow> num_eq x y \<longleftrightarrow> x = y"
  by (cases y) (auto simp: sv_num_def)

lemma sv_num_linear: "sv_num x \<Longrightarrow> sv_num y \<Longrightarrow> x \<noteq> y \<Longrightarrow> num_lt x y \<or> num_lt y x"
  by (auto simp: sv_num_def)

lemma pre_less_trans: "pre_less p q \<Longrightarrow> pre_less q r \<Longrightarrow> pre_less p r"
  by (auto simp: pre_less_def intro: string_less_trans)

lemma pre_less_irrefl: "\<not> pre_less p p"
  by (auto simp: pre_less_def string_less_irrefl)

lemma pre_less_linear: "p \<noteq> q \<Longrightarrow> pre_less p q \<or> pre_less q p"
  using string_less_total [of p q] by (auto simp: pre_less_def)

lemma sv_less_trans: "sv_less a b \<Longrightarrow> sv_less b c \<Longrightarrow> sv_less a c"
  unfolding sv_less_def
  using num_lt_trans [of "major a" "major b" "major c"] num_lt_trans [of "minor a" "minor b" "minor c"]
    num_lt_trans [of "patch a" "patch b" "patch c"]
    pre_less_trans [of "prerelease a" "prerelease b" "prerelease c"]
  by auto

lemma sv_less_irrefl: "\<not> sv_less a a"
  by (simp add: sv_less_def pre_less_irrefl)

lemma sv_less_linear:
  assumes "sv_ok a" "sv_ok b" "a \<noteq> b"
  shows "sv_less a b \<or> sv_less b a"
proof -
  have ma: "major a = major b \<or> num_lt (major a) (major b) \<or> num_lt (major b) (major a)"
    and mi: "minor a = minor b \<or> num_lt (minor a) (minor b) \<or> num_lt (minor b) (minor a)"
    and pa: "patch a = patch b \<or> num_lt (patch a) (patch b) \<or> num_lt (patch b) (patch a)"
    using assms(1,2) sv_num_linear unfolding sv_ok_def by blast+
  have "major a = major b \<Longrightarrow> minor a = minor b \<Longrightarrow> patch a = patch b \<Longrightarrow>
      prerelease a \<noteq> prerelease b"
    using assms(3) by auto
  then show ?thesis using ma mi pa pre_less_linear [of "prerelease a" "prerelease b"]
    by (auto simp: sv_less_def)
qed

lemma not_num_lt_sym: "num_lt x y \<Longrightarrow> \<not> num_lt y x"
  using num_lt_trans num_lt_irrefl by blast

lemma compareSemVer_iff:
  assumes "sv_ok a" "sv_ok b"
  shows "num_lt (compareSemVer a b) (Fin 0) \<longleftrightarrow> sv_less a b"
    and "num_lt (Fin 0) (compareSemVer a b) \<longleftrightarrow> sv_less b a"
proof -
  note ok = assms [unfolded sv_ok_def]
  show "num_lt (compareSemVer a b) (Fin 0) \<longleftrightarrow> sv_less a b"
    using ok string_less_irrefl [of "prerelease b"]
    by (auto simp: compareSemVer_def sv_less_def sv_num_sub_neg pre_less_def)
  show "num_lt (Fin 0) (compareSemVer a b) \<longleftrightarrow> sv_less b a"
    using ok string_less_irrefl [of "prerelease b"] string_less_total [of "prerelease a" "prerelease b"]
      string_less_trans [of "prerelease a" "prerelease b" "prerelease a"]
      string_less_irrefl [of "prerelease a"]
    by (auto simp: compareSemVer_def sv_less_def sv_num_sub_neg pre_less_def)
qed

section \<open>Printing and parsing versions\<close>

lemma run_of_append:
  assumes "\<forall>c \<in> set xs. P c" "xs \<noteq> []" "ys = [] \<or> \<not> P (hd ys)"
  shows "run_of P (xs @ ys) = Some (xs, ys)"
proof -
  have "takeWhile P ys = []" "dropWhile P ys = ys"
    using assms(3) by (cases ys; simp)+
  then show ?thesis using assms(1,2) by (simp add: run_of_def takeWhile_append2)
qed

lemma run_show_nat: "ys = [] \<or> \<not> is_digit (hd ys) \<Longrightarrow> run_of is_digit (show_nat n @ ys) = Some (show_nat n, ys)"
  using show_nat_digits [of n] by (intro run_of_append) auto

text \<open>A version as it is written, with an optional prerelease.\<close>

definition show_semver :: "nat \<Rightarrow> nat \<Rightarrow> nat \<Rightarrow> js_string \<Rightarrow> js_string" where
  "show_semver a b c pre =
     show_nat a @ lit ''.'' @ show_nat b @ lit ''.'' @ show_nat c @
     (if pre = [] then [] else lit ''-'' @ pre)"

lemma dot_not_digit [simp]: "\<not> is_digit 0x2E" "\<not> is_digit 0x2D"
  by (simp_all add: is_digit_def)

lemma lit_dot [simp]: "lit ''.'' = [0x2E]" and lit_dash [simp]: "lit ''-'' = [0x2D]"
  by (simp_all add: lit_def)

lemma match_show_semver:
  assumes "\<forall>c \<in> set pre. is_ident c"
  shows "match_semver (show_semver a b c pre) =
    Some (show_nat a, show_nat b, show_nat c, if pre = [] then None else Some pre)"
proof -
  have opt: "opt_group 0x2D (if pre = [] then [] else [0x2D] @ pre) =
      (if pre = [] then (None, []) else (Some pre, []))"
    using assms run_of_append [of pre is_ident "[]"] by (simp add: opt_group_def)
  have nobuild: "opt_group 0x2B [] = (None, [])" by (simp add: opt_group_def)
  have r3: "run_of is_digit (show_nat c @ (if pre = [] then [] else [0x2D] @ pre)) =
      Some (show_nat c, if pre = [] then [] else [0x2D] @ pre)"
    by (rule run_show_nat) simp
  show ?thesis
    using opt nobuild r3
    by (cases "pre = []") (simp_all add: match_semver_def show_semver_def run_show_nat)
qed

lemma parse_show_semver:
  assumes "\<forall>ch \<in> set pre. is_ident ch" "a < 2 ^ 53" "b < 2 ^ 53" "c < 2 ^ 53"
  shows "parseSemVer (AString (show_semver a b c pre)) =
    Some \<lparr>major = Fin (of_nat a), minor = Fin (of_nat b), patch = Fin (of_nat c), prerelease = pre\<rparr>"
  using assms show_nat_digits
  by (simp add: parseSemVer_def match_show_semver digits_to_number_def)

section \<open>Properties of versions\<close>

text \<open>
  Printing a version and parsing it gives the version back: any three components below
  \<open>2 ^ 53\<close> and any prerelease over the identifier characters.
\<close>

lemma semver_roundtrip:
  assumes "\<forall>ch \<in> set pre. is_ident ch" "a < 2 ^ 53" "b < 2 ^ 53" "c < 2 ^ 53"
  shows "parseSemVer (AString (show_nat a @ lit ''.'' @ show_nat b @ lit ''.'' @ show_nat c @
      (if pre = [] then [] else lit ''-'' @ pre))) =
    Some \<lparr>major = Fin (of_nat a), minor = Fin (of_nat b), patch = Fin (of_nat c), prerelease = pre\<rparr>"
  using parse_show_semver [OF assms] by (simp add: show_semver_def)

lemma semver_roundtrip_witness:
  "parseSemVer (AString (show_nat 2 @ lit ''.'' @ show_nat 10 @ lit ''.'' @ show_nat 0 @
      (if lit ''rc.1'' = [] then [] else lit ''-'' @ lit ''rc.1''))) =
    Some \<lparr>major = Fin (of_nat 2), minor = Fin (of_nat 10), patch = Fin (of_nat 0),
      prerelease = lit ''rc.1''\<rparr>"
  by (rule semver_roundtrip) (simp_all add: lit_def is_ident_def is_digit_def)

text \<open>
  On parsed versions, \<open>semverLt\<close> and \<open>semverGt\<close> are the two directions of one strict total
  order: exactly one of less, equal and greater holds, and the order is transitive.
\<close>

lemma semver_operators_strict_order:
  assumes "parseSemVer x = Some a" "parseSemVer y = Some b" "parseSemVer z = Some c"
  shows "applyOperator regex SemverGt (Some x) [y] = applyOperator regex SemverLt (Some y) [x]
    \<and> (applyOperator regex SemverLt (Some x) [y] \<or> a = b \<or> applyOperator regex SemverGt (Some x) [y])
    \<and> \<not> (applyOperator regex SemverLt (Some x) [y] \<and> applyOperator regex SemverGt (Some x) [y])
    \<and> (a = b \<longrightarrow> \<not> applyOperator regex SemverLt (Some x) [y])
    \<and> (applyOperator regex SemverLt (Some x) [y] \<longrightarrow> applyOperator regex SemverLt (Some y) [z]
        \<longrightarrow> applyOperator regex SemverLt (Some x) [z])"
proof -
  note ok = assms [THEN parseSemVer_ok]
  have lt: "applyOperator regex SemverLt (Some u) [v] = sv_less p q"
    and gt: "applyOperator regex SemverGt (Some u) [v] = sv_less q p"
    if "parseSemVer u = Some p" "parseSemVer v = Some q" for u v p q
    using that compareSemVer_iff [OF that [THEN parseSemVer_ok]]
    by (simp_all add: applyOperator_def compareSemantic_def)
  show ?thesis
    using assms sv_less_linear [OF ok(1,2)] sv_less_irrefl sv_less_trans
    by (simp add: lt gt) blast
qed

lemma semver_operators_strict_order_witness:
  "let x = AString (show_semver 1 0 0 []); y = AString (show_semver 1 0 0 (lit ''rc'')) in
    applyOperator (\<lambda>p. None) SemverGt (Some x) [y] = applyOperator (\<lambda>p. None) SemverLt (Some y) [x]"
proof -
  have "parseSemVer (AString (show_semver 1 0 0 [])) =
      Some \<lparr>major = Fin (of_nat 1), minor = Fin (of_nat 0), patch = Fin (of_nat 0), prerelease = []\<rparr>"
    by (rule parse_show_semver) simp_all
  moreover have "parseSemVer (AString (show_semver 1 0 0 (lit ''rc''))) =
      Some \<lparr>major = Fin (of_nat 1), minor = Fin (of_nat 0), patch = Fin (of_nat 0),
        prerelease = lit ''rc''\<rparr>"
    by (rule parse_show_semver) (simp_all add: lit_def is_ident_def)
  ultimately show ?thesis unfolding Let_def using semver_operators_strict_order by blast
qed

text \<open>
  The order on prereleases is the code-unit order of the whole string, so a numeric identifier
  does not count as a number: release candidate 10 is older than release candidate 9.
\<close>

lemma rc10_older_than_rc9:
  "applyOperator regex SemverLt (Some (AString (show_semver 1 0 0 (lit ''rc.10''))))
     [AString (show_semver 1 0 0 (lit ''rc.9''))]"
proof -
  have "parseSemVer (AString (show_semver 1 0 0 p)) =
      Some \<lparr>major = Fin (of_nat 1), minor = Fin (of_nat 0), patch = Fin (of_nat 0), prerelease = p\<rparr>"
    if "\<forall>ch \<in> set p. is_ident ch" for p
    using that by (rule parse_show_semver) simp_all
  then show ?thesis
    by (simp add: applyOperator_def compareSemantic_def compareSemVer_def lit_def is_ident_def
      is_digit_def)
qed

end
