(* ===== verification/Evaluate.thy ===== *)
theory Evaluate
  imports Bucketing Operators
begin

text \<open>
  \<open>packages/core/src/evaluate.ts\<close>: indexing a snapshot, matching a rule tree, and evaluating a
  flag. The sets \<open>seenSegments\<close> and \<open>seenFlags\<close> are arguments: the code adds a key around a
  recursive call and removes it in \<open>finally\<close>, so each call sees the keys on its own path. The call
  stack is unbounded here.
\<close>

record compiled_flag =
  cf_flag :: flag
  cf_variations :: "(js_string, variation) js_map"

record evaluation_environment =
  env_flags :: "(js_string, compiled_flag) js_map"
  env_segments :: "(js_string, segment) js_map"

definition compile_flag :: "flag \<Rightarrow> compiled_flag" where
  "compile_flag f = \<lparr>cf_flag = f, cf_variations = index_by vkey id (variations f)\<rparr>"

definition indexSnapshot :: "ruleset_snapshot \<Rightarrow> evaluation_environment" where
  "indexSnapshot snapshot =
     \<lparr>env_flags = index_by fkey compile_flag (flags snapshot),
      env_segments = index_by skey id (segments snapshot)\<rparr>"

section \<open>Attributes\<close>

text \<open>
  A plain object inherits the properties of \<open>Object.prototype\<close>, so reading one of these names
  from the attributes of a context that does not carry it gives a function or an object, and not
  \<open>undefined\<close>.
\<close>

definition native_function :: "js_string \<Rightarrow> attribute_value" where
  "native_function name = AObject (lit ''function '' @ name @ lit ''() { [native code] }'')"

definition object_prototype :: "(js_string, attribute_value) js_map" where
  "object_prototype =
     (lit ''constructor'', native_function (lit ''Object'')) #
     (lit ''__proto__'', AObject (lit ''[object Object]'')) #
     map (\<lambda>name. (name, native_function name))
       [lit ''toString'', lit ''toLocaleString'', lit ''valueOf'', lit ''hasOwnProperty'',
        lit ''isPrototypeOf'', lit ''propertyIsEnumerable'', lit ''__defineGetter__'',
        lit ''__defineSetter__'', lit ''__lookupGetter__'', lit ''__lookupSetter__'']"

definition resolveAttribute :: "evaluation_context \<Rightarrow> js_string \<Rightarrow> attribute_value option" where
  "resolveAttribute context' attribute =
     (if attribute = lit ''key'' then Some (AString (ckey context'))
      else case map_get (attributes context') attribute of
             Some v \<Rightarrow> Some v
           | None \<Rightarrow> map_get object_prototype attribute)"

section \<open>Rule trees\<close>

function matchNode ::
    "regex_engine \<Rightarrow> evaluation_context \<Rightarrow> evaluation_environment \<Rightarrow> js_string list \<Rightarrow> rule_node \<Rightarrow> bool"
where
  "matchNode regex context' env seen (Condition attribute operator values vis) =
     applyOperator regex operator (resolveAttribute context' attribute) values"
| "matchNode regex context' env seen (AndNode cs) = list_all (matchNode regex context' env seen) cs"
| "matchNode regex context' env seen (OrNode cs) = list_ex (matchNode regex context' env seen) cs"
| "matchNode regex context' env seen (NotNode cs) =
     list_ex (\<lambda>c. \<not> matchNode regex context' env seen c) cs"
| "matchNode regex context' env seen (SegmentRef k negated) =
     (if k \<in> set seen then False
      else case map_get (env_segments env) k of
             None \<Rightarrow> False
           | Some s \<Rightarrow>
               (let matched = matchNode regex context' env (k # seen) (seg_when s)
                in if negated then \<not> matched else matched))"
| "matchNode regex context' env seen (UnknownNode kind) = False"
  by pat_completeness auto

text \<open>
  Each segment reference adds a segment of the ruleset to the path, and between two references the
  recursion goes to a child.
\<close>

lemma unseen_decreases:
  assumes "map_of m k = Some v" "k \<notin> set seen"
  shows "card (fst ` set m - set (k # seen)) < card (fst ` set m - set seen)"
proof -
  have "k \<in> fst ` set m - set seen"
    using assms by (auto dest: map_of_SomeD intro: rev_image_eqI)
  then have "fst ` set m - set (k # seen) \<subset> fst ` set m - set seen" by auto
  then show ?thesis by (intro psubset_card_mono) auto
qed

termination matchNode
  by (relation "measures [\<lambda>(_, _, env, seen, _). card (fst ` set (env_segments env) - set seen),
      \<lambda>(_, _, _, _, node). size node]")
    (auto dest: unseen_decreases size_child_less)

section \<open>Flags\<close>

fun attribute_to_string :: "attribute_value \<Rightarrow> js_string" where
  "attribute_to_string (AString s) = s"
| "attribute_to_string (ANumber n) = number_to_string n"
| "attribute_to_string (ABoolean b) = bool_to_string b"
| "attribute_to_string ANull = lit ''null''"
| "attribute_to_string (AObject s) = s"

definition resolveBucketKey :: "flag \<Rightarrow> evaluation_context \<Rightarrow> js_string option" where
  "resolveBucketKey f context' =
     (case resolveAttribute context' (bucketBy f) of
        None \<Rightarrow> None
      | Some raw \<Rightarrow> if raw = ANull then None else Some (attribute_to_string raw))"

definition error_result :: "js_value \<Rightarrow> js_string \<Rightarrow> js_string \<Rightarrow> evaluation_result" where
  "error_result fallback served message =
     \<lparr>rvalue = fallback, rvariationKey = served, reason = RError message, bucket = None\<rparr>"

definition resultFor ::
    "compiled_flag \<Rightarrow> js_string \<Rightarrow> evaluation_reason \<Rightarrow> js_value \<Rightarrow> int option \<Rightarrow> evaluation_result"
where
  "resultFor compiled served why fallback b =
     (case map_get (cf_variations compiled) served of
        None \<Rightarrow> error_result fallback served (lit ''unknown variation '' @ quoted served)
      | Some v \<Rightarrow> \<lparr>rvalue = vvalue v, rvariationKey = served, reason = why, bucket = b\<rparr>)"

text \<open>The loop over the targeting rules, from its next rule on: \<open>break\<close> goes to the default.\<close>

fun evaluate_rules ::
    "regex_engine \<Rightarrow> evaluation_context \<Rightarrow> evaluation_environment \<Rightarrow> compiled_flag \<Rightarrow> js_value
     \<Rightarrow> targeting_rule list \<Rightarrow> evaluation_result" where
  "evaluate_rules regex context' env compiled fallback [] =
     resultFor compiled (defaultVariationKey (cf_flag compiled)) RDefault fallback None"
| "evaluate_rules regex context' env compiled fallback (rule # rest) =
     (if \<not> matchNode regex context' env [] (rule_when rule)
      then evaluate_rules regex context' env compiled fallback rest
      else case rule_serve rule of
        ServeVariation served \<Rightarrow>
          resultFor compiled served (RRuleMatch (rule_id rule)) fallback None
      | ServeRollout rollout \<Rightarrow>
          (case resolveBucketKey (cf_flag compiled) context' of
             None \<Rightarrow>
               resultFor compiled (defaultVariationKey (cf_flag compiled)) RDefault fallback None
           | Some bucketKey \<Rightarrow>
               (let b = bucketFor (fkey (cf_flag compiled)) (salt (cf_flag compiled)) bucketKey in
                case variationForBucket rollout b of
                  None \<Rightarrow> error_result fallback []
                            (lit ''malformed rollout in rule '' @ quoted (rule_id rule))
                | Some served \<Rightarrow>
                    resultFor compiled served (RRuleMatch (rule_id rule)) fallback (Some b))))"

function evaluateInternal ::
    "regex_engine \<Rightarrow> evaluation_context \<Rightarrow> evaluation_environment \<Rightarrow> js_string list \<Rightarrow> js_string
     \<Rightarrow> js_value \<Rightarrow> evaluation_result" where
  "evaluateInternal regex context' env seen flagKey fallback =
     (case map_get (env_flags env) flagKey of
        None \<Rightarrow> error_result fallback [] (lit ''unknown flag '' @ quoted flagKey)
      | Some compiled \<Rightarrow>
          (if flagKey \<in> set seen
           then error_result fallback [] (lit ''prerequisite cycle at '' @ quoted flagKey)
           else if \<not> enabled (cf_flag compiled)
           then resultFor compiled (offVariationKey (cf_flag compiled)) ROff fallback None
           else case find (\<lambda>p. rvariationKey (evaluateInternal regex context' env (flagKey # seen)
                                 (pre_flagKey p) JUndefined) \<noteq> pre_variationKey p)
                       (prerequisites (cf_flag compiled)) of
             Some p \<Rightarrow> resultFor compiled (offVariationKey (cf_flag compiled))
                         (RPrerequisiteFailed (pre_flagKey p)) fallback None
           | None \<Rightarrow> evaluate_rules regex context' env compiled fallback (rules (cf_flag compiled))))"
  by pat_completeness auto

termination evaluateInternal
  by (relation "measure (\<lambda>(_, _, env, seen, _, _). card (fst ` set (env_flags env) - set seen))")
    (auto dest: unseen_decreases)

declare evaluateInternal.simps [simp del]

text \<open>
  No operation of the evaluation raises in this model, so the \<open>catch\<close> of \<open>evaluateFlag\<close> is never
  taken.
\<close>

definition evaluateFlag ::
    "regex_engine \<Rightarrow> js_string \<Rightarrow> evaluation_context \<Rightarrow> evaluation_environment \<Rightarrow> js_value
     \<Rightarrow> evaluation_result" where
  "evaluateFlag regex flagKey context' env fallback =
     evaluateInternal regex context' env [] flagKey fallback"

section \<open>What an evaluation result says\<close>

text \<open>The upstream variation a prerequisite of a flag sees, and the state of all of them.\<close>

definition prerequisite_met ::
    "regex_engine \<Rightarrow> evaluation_context \<Rightarrow> evaluation_environment \<Rightarrow> js_string \<Rightarrow> prerequisite \<Rightarrow> bool"
where
  "prerequisite_met regex context' env flagKey p \<longleftrightarrow>
     rvariationKey (evaluateInternal regex context' env [flagKey] (pre_flagKey p) JUndefined)
       = pre_variationKey p"

text \<open>The first rule that matches, and what is served by it.\<close>

definition first_match ::
    "regex_engine \<Rightarrow> evaluation_context \<Rightarrow> evaluation_environment \<Rightarrow> targeting_rule list
     \<Rightarrow> targeting_rule option" where
  "first_match regex context' env rs = find (\<lambda>r. matchNode regex context' env [] (rule_when r)) rs"

definition serve_rule ::
    "evaluation_context \<Rightarrow> compiled_flag \<Rightarrow> js_value \<Rightarrow> targeting_rule \<Rightarrow> evaluation_result" where
  "serve_rule context' compiled fallback rule =
     (case rule_serve rule of
        ServeVariation served \<Rightarrow>
          resultFor compiled served (RRuleMatch (rule_id rule)) fallback None
      | ServeRollout rollout \<Rightarrow>
          (case resolveBucketKey (cf_flag compiled) context' of
             None \<Rightarrow>
               resultFor compiled (defaultVariationKey (cf_flag compiled)) RDefault fallback None
           | Some bucketKey \<Rightarrow>
               (let b = bucketFor (fkey (cf_flag compiled)) (salt (cf_flag compiled)) bucketKey in
                case variationForBucket rollout b of
                  None \<Rightarrow> error_result fallback []
                            (lit ''malformed rollout in rule '' @ quoted (rule_id rule))
                | Some served \<Rightarrow>
                    resultFor compiled served (RRuleMatch (rule_id rule)) fallback (Some b))))"

lemma evaluate_rules_first_match:
  "evaluate_rules regex context' env compiled fallback rs =
     (case first_match regex context' env rs of
        None \<Rightarrow> resultFor compiled (defaultVariationKey (cf_flag compiled)) RDefault fallback None
      | Some rule \<Rightarrow> serve_rule context' compiled fallback rule)"
  by (induction rs) (auto simp: first_match_def serve_rule_def)

lemma first_match_SomeD:
  "first_match regex context' env rs = Some r \<Longrightarrow>
     \<exists>before after. rs = before @ r # after \<and> matchNode regex context' env [] (rule_when r)
       \<and> (\<forall>q \<in> set before. \<not> matchNode regex context' env [] (rule_when q))"
  unfolding first_match_def by (rule find_split)

lemma env_flags_index:
  assumes "map_get (env_flags (indexSnapshot snapshot)) flagKey = Some c"
  shows "\<exists>f \<in> set (flags snapshot). fkey f = flagKey \<and> c = compile_flag f"
  using index_by_SomeD [OF assms [unfolded indexSnapshot_def evaluation_environment.simps]] by blast

lemma cf_flag_compile [simp]: "cf_flag (compile_flag f) = f"
  by (simp add: compile_flag_def)

text \<open>
  What a flag dictates for a context: a variation with the reason and the bucket that go with it, or
  nothing, when the bucket is in no slice of the rollout of a rule.
\<close>

datatype decision =
    Dictated evaluation_reason js_string "int option"
  | NoSlice js_string

definition all_met ::
    "regex_engine \<Rightarrow> evaluation_context \<Rightarrow> evaluation_environment \<Rightarrow> flag \<Rightarrow> bool" where
  "all_met regex context' env f \<longleftrightarrow>
     (\<forall>p \<in> set (prerequisites f). prerequisite_met regex context' env (fkey f) p)"

definition first_unmet ::
    "regex_engine \<Rightarrow> evaluation_context \<Rightarrow> evaluation_environment \<Rightarrow> flag \<Rightarrow> prerequisite \<Rightarrow> bool" where
  "first_unmet regex context' env f p \<longleftrightarrow>
     (\<exists>before after. prerequisites f = before @ p # after \<and> \<not> prerequisite_met regex context' env (fkey f) p
        \<and> (\<forall>q \<in> set before. prerequisite_met regex context' env (fkey f) q))"

definition deciding_rule ::
    "regex_engine \<Rightarrow> evaluation_context \<Rightarrow> evaluation_environment \<Rightarrow> flag \<Rightarrow> targeting_rule \<Rightarrow> bool" where
  "deciding_rule regex context' env f r \<longleftrightarrow> enabled f \<and> all_met regex context' env f \<and>
     (\<exists>before after. rules f = before @ r # after \<and> matchNode regex context' env [] (rule_when r)
        \<and> (\<forall>q \<in> set before. \<not> matchNode regex context' env [] (rule_when q)))"

inductive dictates ::
    "regex_engine \<Rightarrow> evaluation_context \<Rightarrow> evaluation_environment \<Rightarrow> flag \<Rightarrow> decision \<Rightarrow> bool"
  for regex context' env f where
  Disabled: "\<not> enabled f \<Longrightarrow> dictates regex context' env f (Dictated ROff (offVariationKey f) None)"
| Unmet: "enabled f \<Longrightarrow> first_unmet regex context' env f p \<Longrightarrow>
    dictates regex context' env f (Dictated (RPrerequisiteFailed (pre_flagKey p)) (offVariationKey f) None)"
| Fixed: "deciding_rule regex context' env f r \<Longrightarrow> rule_serve r = ServeVariation k \<Longrightarrow>
    dictates regex context' env f (Dictated (RRuleMatch (rule_id r)) k None)"
| Slice: "deciding_rule regex context' env f r \<Longrightarrow> rule_serve r = ServeRollout ds \<Longrightarrow>
    resolveBucketKey f context' = Some u \<Longrightarrow> b = bucketFor (fkey f) (salt f) u \<Longrightarrow> variationForBucket ds b = Some k \<Longrightarrow>
    dictates regex context' env f (Dictated (RRuleMatch (rule_id r)) k (Some b))"
| Gap: "deciding_rule regex context' env f r \<Longrightarrow> rule_serve r = ServeRollout ds \<Longrightarrow>
    resolveBucketKey f context' = Some u \<Longrightarrow> variationForBucket ds (bucketFor (fkey f) (salt f) u) = None \<Longrightarrow>
    dictates regex context' env f (NoSlice (rule_id r))"
| Unplaced: "deciding_rule regex context' env f r \<Longrightarrow> rule_serve r = ServeRollout ds \<Longrightarrow>
    resolveBucketKey f context' = None \<Longrightarrow>
    dictates regex context' env f (Dictated RDefault (defaultVariationKey f) None)"
| Unmatched: "enabled f \<Longrightarrow> all_met regex context' env f \<Longrightarrow>
    \<forall>r \<in> set (rules f). \<not> matchNode regex context' env [] (rule_when r) \<Longrightarrow>
    dictates regex context' env f (Dictated RDefault (defaultVariationKey f) None)"

text \<open>The result of a decision: the value of the last variation declared under the key, or an error.\<close>

definition decided_result :: "flag \<Rightarrow> js_value \<Rightarrow> decision \<Rightarrow> evaluation_result" where
  "decided_result f fallback d =
     (case d of
        Dictated why k b \<Rightarrow>
          (case find (\<lambda>v. vkey v = k) (rev (variations f)) of
             Some v \<Rightarrow> \<lparr>rvalue = vvalue v, rvariationKey = k, reason = why, bucket = b\<rparr>
           | None \<Rightarrow> \<lparr>rvalue = fallback, rvariationKey = k,
               reason = RError (lit ''unknown variation '' @ quoted k), bucket = None\<rparr>)
      | NoSlice i \<Rightarrow> \<lparr>rvalue = fallback, rvariationKey = [],
          reason = RError (lit ''malformed rollout in rule '' @ quoted i), bucket = None\<rparr>)"

text \<open>The decision as a function.\<close>

definition rule_decision :: "evaluation_context \<Rightarrow> flag \<Rightarrow> targeting_rule \<Rightarrow> decision" where
  "rule_decision context' f r =
     (case rule_serve r of
        ServeVariation k \<Rightarrow> Dictated (RRuleMatch (rule_id r)) k None
      | ServeRollout ds \<Rightarrow>
          (case resolveBucketKey f context' of
             None \<Rightarrow> Dictated RDefault (defaultVariationKey f) None
           | Some u \<Rightarrow>
               (case variationForBucket ds (bucketFor (fkey f) (salt f) u) of
                  None \<Rightarrow> NoSlice (rule_id r)
                | Some k \<Rightarrow> Dictated (RRuleMatch (rule_id r)) k (Some (bucketFor (fkey f) (salt f) u)))))"

definition decision_for ::
    "regex_engine \<Rightarrow> evaluation_context \<Rightarrow> evaluation_environment \<Rightarrow> flag \<Rightarrow> decision" where
  "decision_for regex context' env f =
     (if \<not> enabled f then Dictated ROff (offVariationKey f) None
      else case find (\<lambda>p. \<not> prerequisite_met regex context' env (fkey f) p) (prerequisites f) of
        Some p \<Rightarrow> Dictated (RPrerequisiteFailed (pre_flagKey p)) (offVariationKey f) None
      | None \<Rightarrow>
          (case first_match regex context' env (rules f) of
             None \<Rightarrow> Dictated RDefault (defaultVariationKey f) None
           | Some r \<Rightarrow> rule_decision context' f r))"

lemma first_unmet_iff:
  "first_unmet regex context' env f p \<longleftrightarrow>
    find (\<lambda>p. \<not> prerequisite_met regex context' env (fkey f) p) (prerequisites f) = Some p"
  by (simp add: first_unmet_def find_Some_iff_split)

lemma all_met_iff:
  "all_met regex context' env f \<longleftrightarrow>
    find (\<lambda>p. \<not> prerequisite_met regex context' env (fkey f) p) (prerequisites f) = None"
  by (simp add: all_met_def find_None_iff_all)

lemma deciding_rule_iff:
  "deciding_rule regex context' env f r \<longleftrightarrow>
    enabled f \<and> all_met regex context' env f \<and> first_match regex context' env (rules f) = Some r"
  by (simp add: deciding_rule_def first_match_def find_Some_iff_split)

lemma unmatched_iff:
  "(\<forall>r \<in> set (rules f). \<not> matchNode regex context' env [] (rule_when r)) \<longleftrightarrow> first_match regex context' env (rules f) = None"
  by (simp add: first_match_def find_None_iff_all)

lemma dictates_iff: "dictates regex context' env f d \<longleftrightarrow> d = decision_for regex context' env f"
proof
  assume "dictates regex context' env f d"
  then show "d = decision_for regex context' env f"
    by cases (simp_all add: decision_for_def rule_decision_def first_unmet_iff all_met_iff deciding_rule_iff unmatched_iff)
next
  assume d: "d = decision_for regex context' env f"
  show "dictates regex context' env f d"
  proof (cases "enabled f \<and> all_met regex context' env f")
    case False
    show ?thesis
    proof (cases "enabled f")
      case True
      with False obtain p where p: "first_unmet regex context' env f p" by (auto simp: all_met_iff first_unmet_iff)
      then have "d = Dictated (RPrerequisiteFailed (pre_flagKey p)) (offVariationKey f) None"
        using True by (simp add: d decision_for_def first_unmet_iff)
      with Unmet [OF True p] show ?thesis by simp
    qed (simp add: d decision_for_def Disabled)
  next
    case met: True
    show ?thesis
    proof (cases "first_match regex context' env (rules f)")
      case None
      with met show ?thesis unfolding d
        by (simp add: decision_for_def all_met_iff [symmetric]) (simp add: decision_for_def all_met_iff Unmatched unmatched_iff)
    next
      case (Some r)
      with met have r: "deciding_rule regex context' env f r" by (simp add: deciding_rule_iff)
      from met Some have "d = rule_decision context' f r" by (simp add: d decision_for_def all_met_iff)
      with r show ?thesis
        by (auto simp: rule_decision_def split: serve.split option.split intro: dictates.intros)
    qed
  qed
qed

text \<open>The code's results are those of the decisions.\<close>

lemma resultFor_decided:
  "resultFor (compile_flag f) k why fallback b = decided_result f fallback (Dictated why k b)"
  by (simp add: resultFor_def compile_flag_def map_of_index_by decided_result_def error_result_def split: option.split)

lemma serve_rule_decided: "serve_rule context' (compile_flag f) fallback r = decided_result f fallback (rule_decision context' f r)"
  by (simp add: serve_rule_def rule_decision_def resultFor_decided Let_def split: serve.split option.split)
    (simp add: decided_result_def error_result_def)

lemma evaluate_decided:
  assumes "map_get (env_flags env) (fkey f) = Some (compile_flag f)"
  shows "evaluateFlag regex (fkey f) context' env fallback
    = decided_result f fallback (decision_for regex context' env f)"
  using assms unfolding evaluateFlag_def
  by (subst evaluateInternal.simps)
    (simp add: decision_for_def evaluate_rules_first_match resultFor_decided serve_rule_decided
      prerequisite_met_def split: option.split)

section \<open>An example ruleset\<close>

text \<open>
  A flag with a segment rule and a rollout, and a context that no segment holds: its bucket is the
  one of \<open>bucketFor_abcde\<close>.
\<close>

definition example_flag :: flag where
  "example_flag =
     \<lparr>fkey = lit ''checkout-redesign'', enabled = True, salt = lit ''salt-a'',
      variations = [\<lparr>vkey = lit ''off'', vvalue = JBool False\<rparr>, \<lparr>vkey = lit ''on'', vvalue = JBool True\<rparr>],
      defaultVariationKey = lit ''off'', offVariationKey = lit ''off'', prerequisites = [],
      rules = [\<lparr>rule_id = lit ''staff'', description = [],
                rule_when = SegmentRef (lit ''staff'') False, rule_serve = ServeVariation (lit ''on'')\<rparr>,
               \<lparr>rule_id = lit ''rollout'', description = [], rule_when = AndNode [],
                rule_serve = ServeRollout example_rollout\<rparr>],
      bucketBy = lit ''key''\<rparr>"

definition example_segment :: segment where
  "example_segment =
     \<lparr>skey = lit ''staff'',
      seg_when = Condition (lit ''email'') EndsWith [AString (lit ''@corp.test'')] ServerOnly\<rparr>"

definition example_snapshot :: ruleset_snapshot where
  "example_snapshot =
     \<lparr>environmentKey = lit ''prod'', version = Fin 1, flags = [example_flag],
      segments = [example_segment], servedAt = []\<rparr>"

definition example_context :: evaluation_context where
  "example_context = \<lparr>ckey = lit ''abcde'', attributes = []\<rparr>"

definition no_regex :: regex_engine where
  "no_regex pattern = None"

lemma example_flag_indexed:
  "map_get (env_flags (indexSnapshot example_snapshot)) (fkey example_flag)
    = Some (compile_flag example_flag)"
  by (simp add: indexSnapshot_def example_snapshot_def index_by_def)

section \<open>Properties of evaluation\<close>

text \<open>
  C2: a result is exactly what the flag dictates. An unknown flag gives the error that says so; otherwise the
  flag, the last one with the key, dictates exactly one decision, and the result is that of the
  decision in every field. A disabled flag dictates its off variation as \<open>off\<close>; the first prerequisite
  that is not met dictates the off variation too; else the first matching rule dictates its variation, or
  that of the slice of its rollout which holds the bucket of the context, with the bucket, or the
  default when the context has no bucketing attribute; without a matching rule it is the default. A
  decision carries the value of the last variation declared under its key. The only errors are a
  variation that is not declared and a bucket in no slice, with their messages, and then the value is
  the fallback of the caller; no other result has a bucket but that of a slice. The witness follows a
  context into its slice.
\<close>

theorem evaluation_reason_is_truthful:
  "let env = indexSnapshot snapshot; res = evaluateFlag regex flagKey context' env fallback in
    case find (\<lambda>f. fkey f = flagKey) (rev (flags snapshot)) of
      None \<Rightarrow> res = \<lparr>rvalue = fallback, rvariationKey = [],
        reason = RError (lit ''unknown flag '' @ quoted flagKey), bucket = None\<rparr>
    | Some f \<Rightarrow> \<exists>d. (\<forall>e. dictates regex context' env f e \<longleftrightarrow> e = d) \<and> res = decided_result f fallback d"
proof (cases "find (\<lambda>f. fkey f = flagKey) (rev (flags snapshot))")
  case None
  then have "map_get (env_flags (indexSnapshot snapshot)) flagKey = None"
    by (simp add: indexSnapshot_def map_of_index_by)
  with None show ?thesis by (simp add: evaluateFlag_def evaluateInternal.simps error_result_def)
next
  case (Some f)
  then have "map_get (env_flags (indexSnapshot snapshot)) (fkey f) = Some (compile_flag f)" "fkey f = flagKey"
    using find_SomeD [OF Some] by (simp_all add: indexSnapshot_def map_of_index_by)
  with Some show ?thesis by (auto simp: Let_def dictates_iff evaluate_decided)
qed

theorem evaluation_reason_is_truthful_witness:
  "evaluateFlag no_regex (fkey example_flag) example_context (indexSnapshot example_snapshot) JNull
    = \<lparr>rvalue = JBool False, rvariationKey = lit ''off'', reason = RRuleMatch (lit ''rollout''), bucket = Some 74793\<rparr>"
proof -
  let ?env = "indexSnapshot example_snapshot"
  let ?r = "rules example_flag ! 1"
  have r: "deciding_rule no_regex example_context ?env example_flag ?r"
    unfolding deciding_rule_iff
    by (simp add: all_met_def first_match_def example_flag_def example_snapshot_def indexSnapshot_def index_by_def
      example_segment_def example_context_def resolveAttribute_def applyOperator_def object_prototype_def)
  have b: "74793 = bucketFor (fkey example_flag) (salt example_flag) (lit ''abcde'')"
    using bucketFor_abcde by (simp add: example_flag_def)
  have k: "variationForBucket example_rollout 74793 = Some (lit ''off'')"
    by (subst variationForBucket_int [of _ "[30000, 70000]"]) (simp_all add: example_rollout_def BUCKET_SPACE_def)
  have "dictates no_regex example_context ?env example_flag (Dictated (RRuleMatch (rule_id ?r)) (lit ''off'') (Some 74793))"
    by (rule Slice [OF r _ _ b k]) (simp_all add: example_flag_def resolveBucketKey_def resolveAttribute_def example_context_def)
  moreover have "find (\<lambda>f. fkey f = fkey example_flag) (rev (flags example_snapshot)) = Some example_flag"
    by (simp add: example_snapshot_def)
  ultimately have "evaluateFlag no_regex (fkey example_flag) example_context ?env JNull
      = decided_result example_flag JNull (Dictated (RRuleMatch (rule_id ?r)) (lit ''off'') (Some 74793))"
    using evaluation_reason_is_truthful [of example_snapshot no_regex "fkey example_flag" example_context JNull]
    by (auto simp: Let_def)
  also have "\<dots> = \<lparr>rvalue = JBool False, rvariationKey = lit ''off'', reason = RRuleMatch (lit ''rollout''), bucket = Some 74793\<rparr>"
    by (simp add: decided_result_def example_flag_def)
  finally show ?thesis .
qed

text \<open>The segments a tree references, and the attributes it reads.\<close>

fun segment_refs :: "rule_node \<Rightarrow> js_string set" where
  "segment_refs (AndNode cs) = (\<Union>c \<in> set cs. segment_refs c)"
| "segment_refs (OrNode cs) = (\<Union>c \<in> set cs. segment_refs c)"
| "segment_refs (NotNode cs) = (\<Union>c \<in> set cs. segment_refs c)"
| "segment_refs (SegmentRef k negated) = {k}"
| "segment_refs n = {}"

fun attribute_refs :: "rule_node \<Rightarrow> js_string set" where
  "attribute_refs (Condition a op vs vis) = {a}"
| "attribute_refs (AndNode cs) = (\<Union>c \<in> set cs. attribute_refs c)"
| "attribute_refs (OrNode cs) = (\<Union>c \<in> set cs. attribute_refs c)"
| "attribute_refs (NotNode cs) = (\<Union>c \<in> set cs. attribute_refs c)"
| "attribute_refs n = {}"

text \<open>A ranking of the segments that every reference decreases: there is no cycle.\<close>

definition segments_ranked :: "evaluation_environment \<Rightarrow> (js_string \<Rightarrow> nat) \<Rightarrow> bool" where
  "segments_ranked env rank \<longleftrightarrow>
     (\<forall>k s. map_get (env_segments env) k = Some s \<longrightarrow> (\<forall>r \<in> segment_refs (seg_when s). rank r < rank k))"

definition above_refs :: "(js_string \<Rightarrow> nat) \<Rightarrow> js_string list \<Rightarrow> rule_node \<Rightarrow> bool" where
  "above_refs rank seen node \<longleftrightarrow> (\<forall>x \<in> set seen. \<forall>r \<in> segment_refs node. rank r < rank x)"

lemma above_refs_simps [simp]:
  "above_refs rank [] node"
  "above_refs rank seen (AndNode cs) \<longleftrightarrow> (\<forall>c \<in> set cs. above_refs rank seen c)"
  "above_refs rank seen (OrNode cs) \<longleftrightarrow> (\<forall>c \<in> set cs. above_refs rank seen c)"
  "above_refs rank seen (NotNode cs) \<longleftrightarrow> (\<forall>c \<in> set cs. above_refs rank seen c)"
  "above_refs rank seen (SegmentRef k negated) \<longleftrightarrow> (\<forall>x \<in> set seen. rank k < rank x)"
  by (auto simp: above_refs_def)

lemma above_refs_segment:
  assumes "segments_ranked env rank" "map_get (env_segments env) k = Some s"
    "\<forall>x \<in> set seen. rank k < rank x"
  shows "above_refs rank (k # seen) (seg_when s)"
  using assms by (fastforce simp: above_refs_def segments_ranked_def)

lemma matchNode_guard:
  assumes "segments_ranked env rank" "above_refs rank seen node" "above_refs rank seen' node"
  shows "matchNode regex context' env seen node = matchNode regex context' env seen' node"
  using assms
proof (induction regex context' env seen node arbitrary: seen' rule: matchNode.induct)
  case (2 regex context' env seen cs)
  have "matchNode regex context' env seen c = matchNode regex context' env seen' c" if "c \<in> set cs" for c
    by (rule 2(1) [OF that 2(2)]) (use 2(3,4) that in simp_all)
  then show ?case by (simp add: list_all_iff)
next
  case (3 regex context' env seen cs)
  have "matchNode regex context' env seen c = matchNode regex context' env seen' c" if "c \<in> set cs" for c
    by (rule 3(1) [OF that 3(2)]) (use 3(3,4) that in simp_all)
  then show ?case by (simp add: list_ex_iff)
next
  case (4 regex context' env seen cs)
  have "matchNode regex context' env seen c = matchNode regex context' env seen' c" if "c \<in> set cs" for c
    by (rule 4(1) [OF that 4(2)]) (use 4(3,4) that in simp_all)
  then show ?case by (simp add: list_ex_iff)
next
  case (5 regex context' env seen k negated)
  then have k: "k \<notin> set seen" "k \<notin> set seen'" by auto
  show ?case
  proof (cases "map_get (env_segments env) k")
    case None
    with k show ?thesis by simp
  next
    case (Some s)
    have "above_refs rank (k # seen) (seg_when s)" "above_refs rank (k # seen') (seg_when s)"
      using above_refs_segment [OF 5(2) Some] 5(3,4) by simp_all
    then have "matchNode regex context' env (k # seen) (seg_when s)
        = matchNode regex context' env (k # seen') (seg_when s)"
      by (rule 5(1) [OF k(1) Some 5(2)])
    with k Some show ?thesis by simp
  qed
qed simp_all

text \<open>
  On a ruleset whose segments have no reference cycle the cycle guard is invisible: a segment
  reference is exactly the truth of the tree of the segment, negated when the reference says so, and
  an unknown segment matches neither way.
\<close>

lemma segment_reference_meaning:
  assumes "segments_ranked env rank"
  shows "matchNode regex context' env [] (SegmentRef k negated) \<longleftrightarrow>
    (\<exists>s. map_get (env_segments env) k = Some s \<and>
      matchNode regex context' env [] (seg_when s) = (\<not> negated))"
proof -
  have "matchNode regex context' env [k] (seg_when s) = matchNode regex context' env [] (seg_when s)"
    if "map_get (env_segments env) k = Some s" for s
    using matchNode_guard [OF assms above_refs_segment [OF assms that, of "[]"]] by simp
  then show ?thesis by (auto split: option.splits)
qed

lemma segment_reference_meaning_witness:
  "matchNode no_regex example_context (indexSnapshot example_snapshot) [] (SegmentRef (lit ''staff'') True) \<longleftrightarrow>
    (\<exists>s. map_get (env_segments (indexSnapshot example_snapshot)) (lit ''staff'') = Some s \<and>
      matchNode no_regex example_context (indexSnapshot example_snapshot) [] (seg_when s) = (\<not> True))"
proof -
  have "segments_ranked (indexSnapshot example_snapshot) (\<lambda>k. 0)"
    by (auto simp: segments_ranked_def indexSnapshot_def example_snapshot_def index_by_def
        example_segment_def)
  then show ?thesis by (rule segment_reference_meaning)
qed

text \<open>A tree in which failing closed stays closed: no negation anywhere.\<close>

fun positive :: "rule_node \<Rightarrow> bool" where
  "positive (AndNode cs) = list_all positive cs"
| "positive (OrNode cs) = list_all positive cs"
| "positive (NotNode cs) = False"
| "positive (SegmentRef k negated) = (\<not> negated)"
| "positive n = True"

definition more_segments :: "evaluation_environment \<Rightarrow> evaluation_environment \<Rightarrow> bool" where
  "more_segments env env' \<longleftrightarrow>
     (\<forall>k s. map_get (env_segments env) k = Some s \<longrightarrow> map_get (env_segments env') k = Some s)"

definition positive_segments :: "evaluation_environment \<Rightarrow> bool" where
  "positive_segments env \<longleftrightarrow> (\<forall>k s. map_get (env_segments env) k = Some s \<longrightarrow> positive (seg_when s))"

lemma matchNode_positive_mono:
  assumes "more_segments env env'" "positive_segments env" "positive node"
    and "matchNode regex context' env seen node"
  shows "matchNode regex context' env' seen node"
  using assms
proof (induction regex context' env seen node rule: matchNode.induct)
  case (5 regex context' env seen k negated)
  then show ?case
    by (auto simp: positive_segments_def more_segments_def split: option.splits if_splits)
qed (auto simp: list_all_iff list_ex_iff)

text \<open>
  Without negation the fail-closed cases only ever close: when a context matches a negation-free
  tree in a ruleset that lacks some segments, it matches the tree in the ruleset that has them.
\<close>

lemma missing_segments_fail_closed:
  assumes "more_segments env env'" "positive_segments env" "positive node"
    and "matchNode regex context' env [] node"
  shows "matchNode regex context' env' [] node"
  using matchNode_positive_mono [OF assms] .

lemma missing_segments_fail_closed_witness:
  "matchNode no_regex example_context (indexSnapshot example_snapshot) []
     (OrNode [SegmentRef (lit ''staff'') False, Condition (lit ''key'') Eq [AString (lit ''abcde'')] ClientVisible])"
proof (rule missing_segments_fail_closed)
  let ?env = "indexSnapshot (example_snapshot\<lparr>segments := []\<rparr>)"
  show "more_segments ?env (indexSnapshot example_snapshot)" "positive_segments ?env"
    by (simp_all add: more_segments_def positive_segments_def indexSnapshot_def index_by_def)
  show "matchNode no_regex example_context ?env []
      (OrNode [SegmentRef (lit ''staff'') False, Condition (lit ''key'') Eq [AString (lit ''abcde'')] ClientVisible])"
    by (simp add: applyOperator_def resolveAttribute_def example_context_def)
qed simp

text \<open>
  Under a negation they open: a rule "not in an unknown segment" matches every context, whatever the
  comments on the segment cases say.
\<close>

lemma unknown_segment_under_not_matches:
  "map_get (env_segments env) k = None \<Longrightarrow>
    matchNode regex context' env seen (NotNode [SegmentRef k negated])"
  by simp

definition mentioned_attributes :: "evaluation_environment \<Rightarrow> js_string set" where
  "mentioned_attributes env =
     {a. \<exists>k s. map_get (env_segments env) k = Some s \<and> a \<in> attribute_refs (seg_when s)} \<union>
     {a. \<exists>k c. map_get (env_flags env) k = Some c \<and>
        (a = bucketBy (cf_flag c) \<or> (\<exists>r \<in> set (rules (cf_flag c)). a \<in> attribute_refs (rule_when r)))}"

lemma matchNode_attributes:
  assumes "\<forall>a \<in> mentioned_attributes env \<union> attribute_refs node. resolveAttribute c a = resolveAttribute c' a"
  shows "matchNode regex c env seen node = matchNode regex c' env seen node"
  using assms
proof (induction regex c env seen node rule: matchNode.induct)
  case (2 regex c env seen cs)
  then have "\<forall>n \<in> set cs. matchNode regex c env seen n = matchNode regex c' env seen n" by auto
  then show ?case by (simp add: list_all_iff)
next
  case (3 regex c env seen cs)
  then have "\<forall>n \<in> set cs. matchNode regex c env seen n = matchNode regex c' env seen n" by auto
  then show ?case by (simp add: list_ex_iff)
next
  case (4 regex c env seen cs)
  then have "\<forall>n \<in> set cs. matchNode regex c env seen n = matchNode regex c' env seen n" by auto
  then show ?case by (simp add: list_ex_iff)
next
  case (5 regex c env seen k negated)
  have "matchNode regex c env (k # seen) (seg_when s) = matchNode regex c' env (k # seen) (seg_when s)"
    if "k \<notin> set seen" "map_get (env_segments env) k = Some s" for s
  proof (rule 5(1) [OF that])
    have "attribute_refs (seg_when s) \<subseteq> mentioned_attributes env"
      using that(2) by (auto simp: mentioned_attributes_def)
    with 5(2) show "\<forall>a \<in> mentioned_attributes env \<union> attribute_refs (seg_when s).
        resolveAttribute c a = resolveAttribute c' a" by blast
  qed
  then show ?case by (simp split: option.splits)
qed auto

lemma evaluate_rules_attributes:
  assumes "\<forall>a \<in> mentioned_attributes env. resolveAttribute c a = resolveAttribute c' a"
    and "map_get (env_flags env) k = Some compiled" "set rs \<subseteq> set (rules (cf_flag compiled))"
  shows "evaluate_rules regex c env compiled fallback rs = evaluate_rules regex c' env compiled fallback rs"
  using assms(3)
proof (induction rs)
  case (Cons r rs)
  have "attribute_refs (rule_when r) \<subseteq> mentioned_attributes env"
    "bucketBy (cf_flag compiled) \<in> mentioned_attributes env"
    using assms(2) Cons.prems by (auto simp: mentioned_attributes_def)
  then have "matchNode regex c env [] (rule_when r) = matchNode regex c' env [] (rule_when r)"
    "resolveBucketKey (cf_flag compiled) c = resolveBucketKey (cf_flag compiled) c'"
    using assms(1) by (auto intro!: matchNode_attributes simp: resolveBucketKey_def)
  then show ?case using Cons by (simp split: serve.split)
qed simp

text \<open>
  An evaluation reads only the attributes that the ruleset mentions: two contexts that agree on
  the attributes of its conditions and on its bucketing attributes get the same result, for every
  flag.
\<close>

lemma evaluation_reads_mentioned_attributes:
  assumes "\<forall>a \<in> mentioned_attributes env. resolveAttribute c a = resolveAttribute c' a"
  shows "evaluateFlag regex flagKey c env fallback = evaluateFlag regex flagKey c' env fallback"
proof -
  have "evaluateInternal regex c env seen k v = evaluateInternal regex c' env seen k v" for seen k v
    using assms
  proof (induction regex c env seen k v rule: evaluateInternal.induct)
    case (1 regex c env seen k v)
    show ?case
    proof (cases "map_get (env_flags env) k")
      case (Some compiled)
      have "find (\<lambda>p. rvariationKey (evaluateInternal regex c env (k # seen) (pre_flagKey p) JUndefined)
              \<noteq> pre_variationKey p) ps =
          find (\<lambda>p. rvariationKey (evaluateInternal regex c' env (k # seen) (pre_flagKey p) JUndefined)
              \<noteq> pre_variationKey p) ps"
        if "k \<notin> set seen" "enabled (cf_flag compiled)" "set ps \<subseteq> set (prerequisites (cf_flag compiled))" for ps
        using that 1(1) [OF Some] 1(2) by (intro find_cong) auto
      then show ?thesis
        using Some evaluate_rules_attributes [OF 1(2) Some order_refl]
        by (subst (1 2) evaluateInternal.simps) (simp split: option.splits)
    qed (simp add: evaluateInternal.simps)
  qed
  then show ?thesis by (simp add: evaluateFlag_def)
qed

lemma evaluation_reads_mentioned_attributes_witness:
  "evaluateFlag no_regex (fkey example_flag) example_context (indexSnapshot example_snapshot) JNull
    = evaluateFlag no_regex (fkey example_flag)
        (example_context\<lparr>attributes := [(lit ''plan'', AString (lit ''pro''))]\<rparr>)
        (indexSnapshot example_snapshot) JNull"
proof (rule evaluation_reads_mentioned_attributes)
  have "mentioned_attributes (indexSnapshot example_snapshot) \<subseteq> {lit ''key'', lit ''email''}"
    by (auto simp: mentioned_attributes_def indexSnapshot_def example_snapshot_def index_by_def
        example_flag_def example_segment_def split: if_splits)
  then show "\<forall>a \<in> mentioned_attributes (indexSnapshot example_snapshot).
      resolveAttribute example_context a
        = resolveAttribute (example_context\<lparr>attributes := [(lit ''plan'', AString (lit ''pro''))]\<rparr>) a"
    by (auto simp: resolveAttribute_def example_context_def)
qed

text \<open>
  A condition on an attribute that the context does not carry never matches, whatever the
  operator, when the name is neither \<open>key\<close> nor one that every object inherits.
\<close>

lemma absent_attribute_never_matches:
  assumes "map_get (attributes context') a = None" "a \<noteq> lit ''key''"
    and "a \<notin> fst ` set object_prototype"
  shows "\<not> matchNode regex context' env seen (Condition a operator values vis)"
proof -
  have "map_get object_prototype a = None" using assms(3) by (simp add: map_of_eq_None_iff)
  then have "resolveAttribute context' a = None" using assms(1,2) by (simp add: resolveAttribute_def)
  then show ?thesis by (simp add: applyOperator_def)
qed

lemma absent_attribute_never_matches_witness:
  "\<not> matchNode no_regex example_context (indexSnapshot example_snapshot) []
      (Condition (lit ''plan'') NotIn [AString (lit ''free'')] ClientVisible)"
  by (rule absent_attribute_never_matches) (simp_all add: example_context_def object_prototype_def)

text \<open>
  The last hypothesis matters: every context matches "constructor is not ''x''", although it does
  not carry the attribute.
\<close>

lemma inherited_attribute_matches:
  "matchNode regex \<lparr>ckey = k, attributes = []\<rparr> env seen
     (Condition (lit ''constructor'') Neq [AString (lit ''x'')] ClientVisible)"
  by (simp add: resolveAttribute_def applyOperator_def object_prototype_def native_function_def)

section \<open>Prerequisites\<close>

definition flag_edges :: "evaluation_environment \<Rightarrow> (js_string \<times> js_string) set" where
  "flag_edges env =
     {(k, pre_flagKey p) | k c p. map_get (env_flags env) k = Some c \<and> p \<in> set (prerequisites (cf_flag c))}"

definition flags_ranked :: "evaluation_environment \<Rightarrow> (js_string \<Rightarrow> nat) \<Rightarrow> bool" where
  "flags_ranked env rank \<longleftrightarrow> (\<forall>(k, r) \<in> flag_edges env. rank r < rank k)"

lemma flags_rankedD:
  "flags_ranked env rank \<Longrightarrow> map_get (env_flags env) k = Some c \<Longrightarrow> p \<in> set (prerequisites (cf_flag c)) \<Longrightarrow>
    rank (pre_flagKey p) < rank k"
  by (auto simp: flags_ranked_def flag_edges_def)

lemma evaluateInternal_guard:
  assumes "flags_ranked env rank"
    and "\<forall>x \<in> set seen. rank k < rank x" "\<forall>x \<in> set seen'. rank k < rank x"
  shows "evaluateInternal regex c env seen k v = evaluateInternal regex c env seen' k v"
  using assms
proof (induction regex c env seen k v arbitrary: seen' rule: evaluateInternal.induct)
  case (1 regex c env seen k v)
  have unseen: "k \<notin> set seen" "k \<notin> set seen'" using 1(3,4) by auto
  show ?case
  proof (cases "map_get (env_flags env) k")
    case (Some compiled)
    have "evaluateInternal regex c env (k # seen) (pre_flagKey p) JUndefined
        = evaluateInternal regex c env (k # seen') (pre_flagKey p) JUndefined"
      if en: "enabled (cf_flag compiled)" and p: "p \<in> set (prerequisites (cf_flag compiled))" for p
    proof (rule 1(1) [OF Some unseen(1) _ p 1(2)])
      have "rank (pre_flagKey p) < rank k" by (rule flags_rankedD [OF 1(2) Some p])
      then show "\<forall>x \<in> set (k # seen). rank (pre_flagKey p) < rank x"
        "\<forall>x \<in> set (k # seen'). rank (pre_flagKey p) < rank x"
        using 1(3,4) by fastforce+
    qed (use en in simp)
    then have "find (\<lambda>p. rvariationKey (evaluateInternal regex c env (k # seen) (pre_flagKey p) JUndefined)
            \<noteq> pre_variationKey p) (prerequisites (cf_flag compiled)) =
        find (\<lambda>p. rvariationKey (evaluateInternal regex c env (k # seen') (pre_flagKey p) JUndefined)
            \<noteq> pre_variationKey p) (prerequisites (cf_flag compiled))"
      if "enabled (cf_flag compiled)"
      using that by (intro find_cong) simp_all
    then show ?thesis using Some unseen
      by (subst (1 2) evaluateInternal.simps) simp
  qed (simp add: evaluateInternal.simps)
qed

lemma evaluateFlag_unguarded:
  assumes "flags_ranked env rank"
    and "map_get (env_flags env) k = Some c" "enabled (cf_flag c)"
  shows "evaluateFlag regex k context' env fallback =
    (case find (\<lambda>p. rvariationKey (evaluateFlag regex (pre_flagKey p) context' env JUndefined)
                    \<noteq> pre_variationKey p) (prerequisites (cf_flag c)) of
       Some p \<Rightarrow> resultFor c (offVariationKey (cf_flag c)) (RPrerequisiteFailed (pre_flagKey p)) fallback None
     | None \<Rightarrow> evaluate_rules regex context' env c fallback (rules (cf_flag c)))"
proof -
  have "evaluateInternal regex context' env [k] (pre_flagKey p) JUndefined
      = evaluateInternal regex context' env [] (pre_flagKey p) JUndefined"
    if "p \<in> set (prerequisites (cf_flag c))" for p
    using flags_rankedD [OF assms(1,2) that] by (intro evaluateInternal_guard [OF assms(1)]) simp_all
  then have "find (\<lambda>p. rvariationKey (evaluateInternal regex context' env [k] (pre_flagKey p) JUndefined)
        \<noteq> pre_variationKey p) (prerequisites (cf_flag c)) =
      find (\<lambda>p. rvariationKey (evaluateInternal regex context' env [] (pre_flagKey p) JUndefined)
        \<noteq> pre_variationKey p) (prerequisites (cf_flag c))"
    by (intro find_cong) simp_all
  then show ?thesis
    unfolding evaluateFlag_def using assms(2,3) by (subst evaluateInternal.simps) simp
qed

text \<open>
  On a ruleset whose prerequisites have no cycle the guard is invisible: an enabled flag serves
  its off variation for the first prerequisite whose upstream flag, evaluated on its own for the same
  context, does not serve the required variation, and its rules decide when there is none.
\<close>

lemma prerequisite_meaning:
  assumes "flags_ranked env rank"
    and "map_get (env_flags env) k = Some c" "enabled (cf_flag c)"
  shows "evaluateFlag regex k context' env fallback =
    (case find (\<lambda>p. rvariationKey (evaluateFlag regex (pre_flagKey p) context' env JUndefined)
                    \<noteq> pre_variationKey p) (prerequisites (cf_flag c)) of
       Some p \<Rightarrow> resultFor c (offVariationKey (cf_flag c)) (RPrerequisiteFailed (pre_flagKey p)) fallback None
     | None \<Rightarrow> evaluate_rules regex context' env c fallback (rules (cf_flag c)))"
  using assms by (rule evaluateFlag_unguarded)

definition gated_snapshot :: ruleset_snapshot where
  "gated_snapshot =
     example_snapshot\<lparr>flags := [example_flag, example_flag\<lparr>fkey := lit ''gated'',
       prerequisites := [\<lparr>pre_flagKey = fkey example_flag, pre_variationKey = lit ''on''\<rparr>]\<rparr>]\<rparr>"

lemma prerequisite_meaning_witness:
  "\<exists>c. map_get (env_flags (indexSnapshot gated_snapshot)) (lit ''gated'') = Some c \<and>
    evaluateFlag no_regex (lit ''gated'') example_context (indexSnapshot gated_snapshot) JNull =
    (case find (\<lambda>p. rvariationKey (evaluateFlag no_regex (pre_flagKey p) example_context
                      (indexSnapshot gated_snapshot) JUndefined) \<noteq> pre_variationKey p)
            (prerequisites (cf_flag c)) of
       Some p \<Rightarrow> resultFor c (offVariationKey (cf_flag c)) (RPrerequisiteFailed (pre_flagKey p)) JNull None
     | None \<Rightarrow> evaluate_rules no_regex example_context (indexSnapshot gated_snapshot) c JNull
                 (rules (cf_flag c)))"
proof -
  let ?env = "indexSnapshot gated_snapshot"
  let ?c = "compile_flag (flags gated_snapshot ! 1)"
  have flags: "env_flags ?env = [(lit ''checkout-redesign'', compile_flag example_flag), (lit ''gated'', ?c)]"
    by (simp add: indexSnapshot_def gated_snapshot_def index_by_def example_flag_def)
  have "flags_ranked ?env (\<lambda>k. if k = lit ''gated'' then 1 else 0)"
    unfolding flags_ranked_def flag_edges_def flags
    by (auto simp: gated_snapshot_def example_flag_def split: if_splits)
  moreover have "map_get (env_flags ?env) (lit ''gated'') = Some ?c" by (simp add: flags)
  moreover have "enabled (cf_flag ?c)" by (simp add: gated_snapshot_def example_flag_def)
  ultimately show ?thesis using prerequisite_meaning by blast
qed

end
