(* ===== verification/Version_Guard.thy ===== *)
theory Version_Guard
  imports Js_Number "HOL-Library.Multiset"
begin

text \<open>
  The contract of a version guard: a holder takes a payload when its version is newer than what it
  holds, and ignores it otherwise. The SDK client and the console stream each implement it; the
  consequences for out-of-order and repeated delivery are proved once, here.
\<close>

text \<open>The version as a number, for a payload that has one.\<close>

fun finite_value :: "js_number \<Rightarrow> rat" where
  "finite_value (Fin q) = q"
| "finite_value x = 0"

locale version_guard =
  fixes ver :: "'p \<Rightarrow> js_number"
    and valid :: "'p \<Rightarrow> bool"
    and holds :: "'s \<Rightarrow> 'p option"
    and inv :: "'s \<Rightarrow> bool"
    and offer :: "'p \<Rightarrow> 's \<Rightarrow> 's"
  assumes valid_finite: "valid p \<Longrightarrow> is_finite_number (ver p)"
    and held_valid: "inv s \<Longrightarrow> holds s = Some q \<Longrightarrow> valid q"
    and inv_offer: "inv s \<Longrightarrow> valid p \<Longrightarrow> inv (offer p s)"
    and accept: "inv s \<Longrightarrow> valid p \<Longrightarrow>
      (\<And>q. holds s = Some q \<Longrightarrow> num_lt (ver q) (ver p)) \<Longrightarrow> holds (offer p s) = Some p"
    and reject: "inv s \<Longrightarrow> valid p \<Longrightarrow> holds s = Some q \<Longrightarrow> num_le (ver p) (ver q) \<Longrightarrow>
      offer p s = s"
begin

abbreviation rank :: "'p \<Rightarrow> rat" where
  "rank p \<equiv> finite_value (ver p)"

lemma compare_rank:
  assumes "valid p" "valid q"
  shows "num_lt (ver q) (ver p) \<longleftrightarrow> rank q < rank p" and "num_le (ver p) (ver q) \<longleftrightarrow> rank p \<le> rank q"
  using assms [THEN valid_finite] by (cases "ver p"; cases "ver q"; simp)+

lemma holds_offer:
  assumes "inv s" "valid p"
  shows "holds (offer p s) =
    (case holds s of None \<Rightarrow> Some p | Some q \<Rightarrow> if rank q < rank p then Some p else Some q)"
proof (cases "holds s")
  case None
  with accept [OF assms] show ?thesis by simp
next
  case (Some q)
  have vq: "valid q" by (rule held_valid [OF assms(1) Some])
  show ?thesis
  proof (cases "rank q < rank p")
    case True
    then have "num_lt (ver q) (ver p)" by (simp add: compare_rank [OF assms(2) vq])
    with accept [OF assms] Some True show ?thesis by simp
  next
    case False
    then have "num_le (ver p) (ver q)" by (simp add: compare_rank [OF assms(2) vq])
    with reject [OF assms Some] Some False show ?thesis by simp
  qed
qed

text \<open>What is held never gets older.\<close>

lemma held_monotone:
  assumes "inv s" "valid p" "holds s = Some q"
  shows "\<exists>q'. holds (offer p s) = Some q' \<and> rank q \<le> rank q'"
  using holds_offer [OF assms(1,2)] assms(3) by (auto split: if_splits)

lemma held_monotone_all:
  assumes "inv s" "\<forall>p \<in> set ps. valid p" "holds s = Some q"
  shows "\<exists>q'. holds (fold offer ps s) = Some q' \<and> rank q \<le> rank q'"
  using assms
proof (induction ps arbitrary: s q)
  case (Cons p ps)
  then obtain q' where "holds (offer p s) = Some q'" "rank q \<le> rank q'"
    using held_monotone [of s p q] by auto
  moreover have "inv (offer p s)" using Cons.prems by (intro inv_offer) simp_all
  ultimately show ?case using Cons.IH [of "offer p s" q'] Cons.prems by force
qed simp

text \<open>Offering again what is held, or an older payload, changes nothing.\<close>

lemma offer_stale:
  assumes "inv s" "valid p" "holds s = Some q" "rank p \<le> rank q"
  shows "offer p s = s"
proof (rule reject [OF assms(1-3)])
  have "valid q" by (rule held_valid [OF assms(1,3)])
  with assms(4) show "num_le (ver p) (ver q)" by (simp add: compare_rank assms(2))
qed

text \<open>
  After any sequence of offers the holder holds the newest payload: nothing it held or was offered is
  newer than what it holds.
\<close>

lemma holds_newest:
  assumes "inv s" "\<forall>p \<in> set ps. valid p"
  shows "(\<forall>p \<in> set_option (holds s) \<union> set ps. \<exists>q. holds (fold offer ps s) = Some q \<and> rank p \<le> rank q)
    \<and> set_option (holds (fold offer ps s)) \<subseteq> set_option (holds s) \<union> set ps"
  using assms
proof (induction ps arbitrary: s)
  case (Cons p ps)
  have inv: "inv (offer p s)" using Cons.prems by (intro inv_offer) simp_all
  have step: "holds (offer p s) =
      (case holds s of None \<Rightarrow> Some p | Some q \<Rightarrow> if rank q < rank p then Some p else Some q)"
    using Cons.prems by (intro holds_offer) simp_all
  note IH = Cons.IH [OF inv]
  show ?case
  proof (cases "holds s")
    case None
    with step IH Cons.prems show ?thesis by auto
  next
    case (Some q)
    with step IH Cons.prems show ?thesis by (cases "rank q < rank p") force+
  qed
qed force

text \<open>
  The order of delivery does not matter: two sequences of the same payloads, in any order and with
  any repetitions, leave the same payload held, when no two of them share a version.
\<close>

lemma delivery_order_irrelevant:
  assumes "inv s" "holds s = None" "\<forall>p \<in> set ps. valid p" "set ps = set qs" "inj_on rank (set ps)"
  shows "holds (fold offer ps s) = holds (fold offer qs s)"
proof (cases "ps = []")
  case True
  with assms(4) show ?thesis by simp
next
  case False
  then obtain p0 where p0: "p0 \<in> set ps" by (cases ps) auto
  have ps: "\<forall>p \<in> set ps. \<exists>q. holds (fold offer ps s) = Some q \<and> rank p \<le> rank q"
      "set_option (holds (fold offer ps s)) \<subseteq> set ps"
    using holds_newest [OF assms(1,3)] assms(2) by auto
  have qs: "\<forall>p \<in> set ps. \<exists>q. holds (fold offer qs s) = Some q \<and> rank p \<le> rank q"
      "set_option (holds (fold offer qs s)) \<subseteq> set ps"
    using holds_newest [OF assms(1), of qs] assms(2,3,4) by auto
  obtain a where a: "holds (fold offer ps s) = Some a" using ps(1) p0 by blast
  obtain b where b: "holds (fold offer qs s) = Some b" using qs(1) p0 by blast
  have in_set: "a \<in> set ps" "b \<in> set ps" using ps(2) qs(2) a b by auto
  with ps(1) qs(1) a b have "rank b \<le> rank a" "rank a \<le> rank b" by auto
  then have "rank a = rank b" by simp
  with assms(5) in_set have "a = b" by (auto dest: inj_onD)
  with a b show ?thesis by simp
qed

end

end
