(* ===== verification/Client.thy ===== *)
theory Client
  imports Evaluate Version_Guard
begin

text \<open>
  \<open>packages/sdk-js/src/client.ts\<close>: the in-process client. Its state is the snapshot it holds and the
  index built from it. The callbacks of the host are parameters that act on the client and on a world
  of their own and may throw; a missing version in a frame is \<open>NaN\<close>, which compares like the
  \<open>undefined\<close> of the code. \<open>start\<close> and \<open>close\<close> of the client are stubs that throw, in the code too.
\<close>

record exposure_record =
  ex_flagKey :: js_string
  ex_variationKey :: js_string
  ex_contextKey :: js_string
  ex_rulesetVersion :: js_number
  ex_reason :: evaluation_reason

record client =
  held_snapshot :: "ruleset_snapshot option"
  held_env :: "evaluation_environment option"

text \<open>What a callback may throw, and the message of the \<open>Error\<close> made of it.\<close>

datatype thrown = ThrownError js_string | ThrownValue js_value

fun thrown_message :: "thrown \<Rightarrow> js_string" where
  "thrown_message (ThrownError m) = m"
| "thrown_message (ThrownValue v) = value_to_string v"

type_synonym 'w host_state = "client \<times> 'w"

record 'w host =
  onExposure :: "(exposure_record \<Rightarrow> 'w host_state \<Rightarrow> thrown option \<times> 'w host_state) option"
  onError :: "(js_string \<Rightarrow> 'w host_state \<Rightarrow> thrown option \<times> 'w host_state) option"

definition apply_snapshot :: "ruleset_snapshot \<Rightarrow> client \<Rightarrow> client" where
  "apply_snapshot s c = \<lparr>held_snapshot = Some s, held_env = Some (indexSnapshot s)\<rparr>"

definition new_client :: "ruleset_snapshot option \<Rightarrow> client" where
  "new_client bootstrap =
     (let c = \<lparr>held_snapshot = None, held_env = None\<rparr> in
      case bootstrap of None \<Rightarrow> c | Some s \<Rightarrow> apply_snapshot s c)"

definition client_version :: "client \<Rightarrow> js_number" where
  "client_version c = (case held_snapshot c of None \<Rightarrow> Fin (- 1) | Some s \<Rightarrow> version s)"

definition ready :: "client \<Rightarrow> bool" where
  "ready c = (held_env c \<noteq> None)"

definition applySnapshot :: "ruleset_snapshot \<Rightarrow> client \<Rightarrow> bool \<times> client" where
  "applySnapshot s c =
     (case held_snapshot c of
        Some h \<Rightarrow> if num_le (version s) (version h) then (False, c) else (True, apply_snapshot s c)
      | None \<Rightarrow> (True, apply_snapshot s c))"

definition reportError :: "'w host \<Rightarrow> thrown \<Rightarrow> 'w host_state \<Rightarrow> 'w host_state" where
  "reportError host err st =
     (case onError host of None \<Rightarrow> st | Some handler \<Rightarrow> snd (handler (thrown_message err) st))"

definition recordExposure ::
    "'w host \<Rightarrow> js_string \<Rightarrow> evaluation_context \<Rightarrow> evaluation_result \<Rightarrow> 'w host_state \<Rightarrow> 'w host_state"
where
  "recordExposure host flagKey context' result st =
     (case onExposure host of
        None \<Rightarrow> st
      | Some callback \<Rightarrow>
          (if is_error (reason result) then st
           else case callback \<lparr>ex_flagKey = flagKey, ex_variationKey = rvariationKey result,
                               ex_contextKey = ckey context', ex_rulesetVersion = client_version (fst st),
                               ex_reason = reason result\<rparr> st of
             (None, st') \<Rightarrow> st'
           | (Some err, st') \<Rightarrow> reportError host err st'))"

definition client_evaluate ::
    "regex_engine \<Rightarrow> 'w host \<Rightarrow> js_string \<Rightarrow> evaluation_context \<Rightarrow> js_value \<Rightarrow> 'w host_state
     \<Rightarrow> evaluation_result \<times> 'w host_state" where
  "client_evaluate regex host flagKey context' fallback st =
     (case held_env (fst st) of
        None \<Rightarrow> (error_result fallback [] (lit ''no ruleset loaded''), st)
      | Some env \<Rightarrow>
          (let result = evaluateFlag regex flagKey context' env fallback in
           (result, recordExposure host flagKey context' result st)))"

definition isEnabled ::
    "regex_engine \<Rightarrow> 'w host \<Rightarrow> js_string \<Rightarrow> evaluation_context \<Rightarrow> bool \<Rightarrow> 'w host_state
     \<Rightarrow> bool \<times> 'w host_state" where
  "isEnabled regex host flagKey context' fallback st =
     (let (result, st') = client_evaluate regex host flagKey context' (JBool fallback) st in
      (case rvalue result of JBool b \<Rightarrow> b | _ \<Rightarrow> fallback, st'))"

section \<open>The version guard of the client\<close>

definition client_ok :: "client \<Rightarrow> bool" where
  "client_ok c \<longleftrightarrow> held_env c = map_option indexSnapshot (held_snapshot c)
     \<and> (\<forall>s. held_snapshot c = Some s \<longrightarrow> is_finite_number (version s))"

definition deliver :: "ruleset_snapshot \<Rightarrow> client \<Rightarrow> client" where
  "deliver s c = snd (applySnapshot s c)"

lemma client_ok_new [simp]: "client_ok (new_client None)"
  by (simp add: client_ok_def new_client_def)

interpretation client_guard: version_guard version "\<lambda>s. is_finite_number (version s)" held_snapshot
    client_ok deliver
  by unfold_locales
    (auto simp: client_ok_def deliver_def applySnapshot_def apply_snapshot_def dest: num_lt_not_le
      split: option.splits)

lemma client_ok_deliver_all:
  "client_ok c \<Longrightarrow> \<forall>s \<in> set ss. is_finite_number (version s) \<Longrightarrow> client_ok (fold deliver ss c)"
  by (induction ss arbitrary: c) (auto intro: client_guard.inv_offer)

lemma client_env: "client_ok c \<Longrightarrow> held_env c = map_option indexSnapshot (held_snapshot c)"
  by (simp add: client_ok_def)

text \<open>
  C12: out-of-order and repeated delivery is safe: two clients that receive the same frames, in any
  order and with any repetitions, answer every evaluation alike, when versions identify frames.
\<close>

theorem delivery_order_does_not_matter:
  assumes "\<forall>s \<in> set ss. is_finite_number (version s)" "set ss = set ts" "inj_on version (set ss)"
  shows "fst (client_evaluate regex host flagKey context' fallback (fold deliver ss (new_client None), w))
    = fst (client_evaluate regex host flagKey context' fallback (fold deliver ts (new_client None), w))"
proof -
  have "inj_on (\<lambda>s. finite_value (version s)) (set ss)"
  proof (rule inj_onI)
    fix a b assume ab: "a \<in> set ss" "b \<in> set ss" "finite_value (version a) = finite_value (version b)"
    with assms(1) have "is_finite_number (version a)" "is_finite_number (version b)" by auto
    with ab(3) have "version a = version b" by (cases "version a"; cases "version b") simp_all
    with ab(1,2) assms(3) show "a = b" by (auto dest: inj_onD)
  qed
  moreover have "held_snapshot (new_client None) = None" by (simp add: new_client_def)
  ultimately have "held_snapshot (fold deliver ss (new_client None)) = held_snapshot (fold deliver ts (new_client None))"
    using client_guard.delivery_order_irrelevant [OF client_ok_new _ assms(1,2)] by blast
  moreover have "client_ok (fold deliver ss (new_client None))" "client_ok (fold deliver ts (new_client None))"
    using assms(1,2) by (auto intro: client_ok_deliver_all)
  ultimately show ?thesis
    by (simp add: client_evaluate_def client_env Let_def split: option.splits)
qed

theorem delivery_order_does_not_matter_witness:
  "fst (client_evaluate no_regex \<lparr>onExposure = None, onError = None\<rparr> (fkey example_flag) example_context JNull
      (fold deliver [example_snapshot, example_snapshot\<lparr>version := Fin 2, flags := []\<rparr>, example_snapshot]
        (new_client None), ()))
    = fst (client_evaluate no_regex \<lparr>onExposure = None, onError = None\<rparr> (fkey example_flag) example_context JNull
      (fold deliver [example_snapshot\<lparr>version := Fin 2, flags := []\<rparr>, example_snapshot]
        (new_client None), ()))"
  by (rule delivery_order_does_not_matter) (auto simp: example_snapshot_def inj_on_def)

text \<open>
  The version a client holds never goes back, and after any frames it is at least the version of
  each of them; the snapshot it evaluates against is one it was given.
\<close>

lemma client_holds_newest_frame:
  assumes "client_ok c" "\<forall>s \<in> set ss. is_finite_number (version s)" "s \<in> set ss \<or> held_snapshot c = Some s"
  shows "\<exists>h. held_snapshot (fold deliver ss c) = Some h \<and> num_le (version s) (version h)
    \<and> (h \<in> set ss \<or> held_snapshot c = Some h) \<and> held_env (fold deliver ss c) = Some (indexSnapshot h)"
proof -
  obtain h where h: "held_snapshot (fold deliver ss c) = Some h"
      "finite_value (version s) \<le> finite_value (version h)" "h \<in> set ss \<or> held_snapshot c = Some h"
    using client_guard.holds_newest [OF assms(1,2)] assms(3) by fastforce
  have "is_finite_number (version s)" "is_finite_number (version h)"
    using assms h(3) by (auto simp: client_ok_def)
  then have "num_le (version s) (version h)"
    using client_guard.compare_rank(2) h(2) by blast
  with h client_env [OF client_ok_deliver_all [OF assms(1,2)]] show ?thesis by simp
qed

lemma client_holds_newest_frame_witness:
  "\<exists>h. held_snapshot (fold deliver [example_snapshot, example_snapshot\<lparr>version := Fin 0\<rparr>]
        (new_client (Some (example_snapshot\<lparr>version := Fin 3\<rparr>)))) = Some h \<and> num_le (Fin 3) (version h)
    \<and> held_env (fold deliver [example_snapshot, example_snapshot\<lparr>version := Fin 0\<rparr>]
        (new_client (Some (example_snapshot\<lparr>version := Fin 3\<rparr>)))) = Some (indexSnapshot h)"
proof -
  let ?c = "new_client (Some (example_snapshot\<lparr>version := Fin 3\<rparr>))"
  have c: "client_ok ?c" "held_snapshot ?c = Some (example_snapshot\<lparr>version := Fin 3\<rparr>)"
    by (simp_all add: client_ok_def new_client_def apply_snapshot_def)
  show ?thesis
    using client_holds_newest_frame [OF c(1), of "[example_snapshot, example_snapshot\<lparr>version := Fin 0\<rparr>]"
      "example_snapshot\<lparr>version := Fin 3\<rparr>"] c(2) by (auto simp: example_snapshot_def)
qed

text \<open>A frame without a version defeats the guard: it is applied, and so is any frame after it.\<close>

lemma missing_version_defeats_guard:
  "version s = NaN \<Longrightarrow> held_snapshot (deliver old (deliver s c)) = Some old"
  by (cases "held_snapshot c")
    (auto simp: deliver_def applySnapshot_def apply_snapshot_def)

section \<open>Exposures\<close>

text \<open>
  A host that keeps the exposures it is called with and whose callbacks throw as \<open>fails\<close> and
  \<open>error_fails\<close> say, and a sequence of evaluations on one client.
\<close>

definition logging_host ::
    "(exposure_record \<Rightarrow> thrown option) \<Rightarrow> (js_string \<Rightarrow> thrown option) \<Rightarrow> exposure_record list host" where
  "logging_host fails error_fails =
     \<lparr>onExposure = Some (\<lambda>r (c, w). (fails r, (c, w @ [r]))),
      onError = Some (\<lambda>m st. (error_fails m, st))\<rparr>"

fun evaluate_all ::
    "regex_engine \<Rightarrow> 'w host \<Rightarrow> (js_string \<times> evaluation_context \<times> js_value) list \<Rightarrow> 'w host_state
     \<Rightarrow> evaluation_result list \<times> 'w host_state" where
  "evaluate_all regex host [] st = ([], st)"
| "evaluate_all regex host ((k, c, v) # rs) st =
     (let (r, st') = client_evaluate regex host k c v st;
          (rest, st'') = evaluate_all regex host rs st'
      in (r # rest, st''))"

definition exposure_of ::
    "js_number \<Rightarrow> js_string \<times> evaluation_context \<times> js_value \<Rightarrow> evaluation_result \<Rightarrow> exposure_record list" where
  "exposure_of ver request result =
     (if is_error (reason result) then []
      else [\<lparr>ex_flagKey = fst request, ex_variationKey = rvariationKey result,
             ex_contextKey = ckey (fst (snd request)), ex_rulesetVersion = ver,
             ex_reason = reason result\<rparr>])"

lemma client_evaluate_logging:
  "client_evaluate regex (logging_host fails error_fails) k ctx v (c, w) =
    (let r = fst (client_evaluate regex (logging_host fails error_fails) k ctx v (c, w)) in
     (r, (c, w @ (if held_env c = None then [] else exposure_of (client_version c) (k, ctx, v) r))))"
  by (auto simp: client_evaluate_def recordExposure_def reportError_def logging_host_def exposure_of_def
      Let_def split: option.splits)

text \<open>
  Exposures are the results that were served: over any evaluations on a client with a ruleset,
  each result is the one the snapshot gives, and the exposure callback is called once, in order, for
  each result without an error, with its flag, variation, context and the version held, and for
  nothing else; callbacks that throw change neither the results nor the exposures.
\<close>

lemma exposures_are_served_results:
  assumes "client_ok c" "held_snapshot c = Some s"
  shows "evaluate_all regex (logging_host fails error_fails) requests (c, w) =
    (let results = map (\<lambda>(k, ctx, v). evaluateFlag regex k ctx (indexSnapshot s) v) requests in
     (results, (c, w @ concat (map2 (exposure_of (version s)) requests results))))"
  unfolding Let_def
proof (induction requests arbitrary: w)
  case (Cons request rs)
  obtain k ctx v where request: "request = (k, ctx, v)" by (cases request)
  let ?r = "evaluateFlag regex k ctx (indexSnapshot s) v"
  have env: "held_env c = Some (indexSnapshot s)" and ver: "client_version c = version s"
    using assms(1,2) by (simp_all add: client_ok_def client_version_def)
  have "fst (client_evaluate regex (logging_host fails error_fails) k ctx v (c, w)) = ?r"
    by (simp add: client_evaluate_def env Let_def)
  then have "client_evaluate regex (logging_host fails error_fails) k ctx v (c, w)
      = (?r, (c, w @ exposure_of (version s) (k, ctx, v) ?r))"
    using client_evaluate_logging [of regex fails error_fails k ctx v c w]
    by (simp add: env ver Let_def)
  then show ?case using Cons [of "w @ exposure_of (version s) (k, ctx, v) ?r"]
    by (simp add: request)
qed simp

lemma exposures_are_served_results_witness:
  "fst (evaluate_all no_regex (logging_host (\<lambda>r. Some (ThrownError [])) (\<lambda>m. None))
      [(fkey example_flag, example_context, JNull), (lit ''nope'', example_context, JBool True)]
      (new_client (Some example_snapshot), []))
    = [evaluateFlag no_regex (fkey example_flag) example_context (indexSnapshot example_snapshot) JNull,
       evaluateFlag no_regex (lit ''nope'') example_context (indexSnapshot example_snapshot) (JBool True)]"
proof -
  have "client_ok (new_client (Some example_snapshot))"
    "held_snapshot (new_client (Some example_snapshot)) = Some example_snapshot"
    by (simp_all add: client_ok_def new_client_def apply_snapshot_def example_snapshot_def)
  from exposures_are_served_results [OF this] show ?thesis
    by (simp add: Let_def del: evaluate_all.simps)
qed

lemma evaluateFlag_unknown:
  "map_get (env_flags env) k = None \<Longrightarrow>
    evaluateFlag regex k ctx env v = error_result v [] (lit ''unknown flag '' @ quoted k)"
  by (simp add: evaluateFlag_def evaluateInternal.simps [where seen = "[]"])

lemma fst_client_evaluate:
  "fst (client_evaluate regex host k ctx v (c, w)) =
    (case held_env c of None \<Rightarrow> error_result v [] (lit ''no ruleset loaded'')
     | Some env \<Rightarrow> evaluateFlag regex k ctx env v)"
  by (simp add: client_evaluate_def Let_def split: option.split)

lemma fst_isEnabled:
  "fst (isEnabled regex host k ctx fallback st) =
    (case rvalue (fst (client_evaluate regex host k ctx (JBool fallback) st)) of JBool b \<Rightarrow> b | _ \<Rightarrow> fallback)"
  by (simp add: isEnabled_def split_def Let_def)

text \<open>
  \<open>isEnabled\<close> answers whatever happens: without a ruleset, for an unknown flag, or when the
  served value is not a boolean, it is the fallback, and otherwise the boolean that is served.
\<close>

lemma is_enabled_falls_back:
  "fst (isEnabled regex host flagKey ctx fallback (c, w)) =
    (case held_env c of
       None \<Rightarrow> fallback
     | Some env \<Rightarrow>
         (if map_get (env_flags env) flagKey = None then fallback
          else case rvalue (evaluateFlag regex flagKey ctx env (JBool fallback)) of
            JBool b \<Rightarrow> b | _ \<Rightarrow> fallback))"
proof (cases "held_env c")
  case None
  then show ?thesis by (simp add: fst_isEnabled fst_client_evaluate error_result_def)
next
  case (Some env)
  then show ?thesis
    by (cases "map_get (env_flags env) flagKey")
      (simp_all add: fst_isEnabled fst_client_evaluate evaluateFlag_unknown error_result_def)
qed

end
