(* ===== verification/Stream.thy ===== *)
theory Stream
  imports Js_Value Version_Guard
begin

text \<open>
  \<open>apps/console/src/hooks/useRulesetStream.ts\<close>: the console's view of the ruleset channel, as a
  state machine over the events of its \<open>EventSource\<close>. The state joins the React state and the ref;
  a ruleset frame comes with what \<open>JSON.parse\<close> makes of its data (\<open>None\<close> where it throws) and the
  clock. Subscribing to an environment starts from \<open>initial_stream\<close>.
\<close>

datatype stream_status = Connecting | Live | Reconnecting | StreamFailed

record ruleset_event =
  event_version :: js_number
  receivedAt :: js_number

record stream =
  stream_status :: stream_status
  shown_version :: "js_number option"
  lastEvent :: "ruleset_event option"
  eventCount :: nat
  highestVersion :: js_number

datatype stream_event =
    Opened
  | RulesetFrame "js_value option" js_number
  | Resync
  | Errored bool

definition initial_stream :: stream where
  "initial_stream = \<lparr>stream_status = Connecting, shown_version = None, lastEvent = None, eventCount = 0,
     highestVersion = Fin (- 1)\<rparr>"

definition accept_version :: "js_number \<Rightarrow> js_number \<Rightarrow> stream \<Rightarrow> stream" where
  "accept_version now v s =
     (if num_le v (highestVersion s) then s
      else \<lparr>stream_status = Live, shown_version = Some v,
            lastEvent = Some \<lparr>event_version = v, receivedAt = now\<rparr>, eventCount = eventCount s + 1,
            highestVersion = v\<rparr>)"

text \<open>The version of a frame: reading it from \<open>null\<close> throws inside the \<open>try\<close>.\<close>

fun frame_version :: "js_value option \<Rightarrow> js_number option" where
  "frame_version None = None"
| "frame_version (Some data) = (case get_prop data (lit ''version'') of JNum v \<Rightarrow> Some v | _ \<Rightarrow> None)"

fun stream_step :: "stream_event \<Rightarrow> stream \<Rightarrow> stream" where
  "stream_step Opened s = s\<lparr>stream_status := Live\<rparr>"
| "stream_step (RulesetFrame data now) s =
     (case frame_version data of None \<Rightarrow> s | Some v \<Rightarrow> accept_version now v s)"
| "stream_step Resync s = s\<lparr>stream_status := Reconnecting\<rparr>"
| "stream_step (Errored gone) s =
     s\<lparr>stream_status := (if gone then StreamFailed else Reconnecting)\<rparr>"

section \<open>The version guard of the console\<close>

definition stream_ok :: "stream \<Rightarrow> bool" where
  "stream_ok s \<longleftrightarrow>
     (case shown_version s of
        None \<Rightarrow> highestVersion s = Fin (- 1) \<and> eventCount s = 0 \<and> lastEvent s = None
      | Some v \<Rightarrow> is_finite_number v \<and> num_lt (Fin (- 1)) v \<and> highestVersion s = v
          \<and> map_option event_version (lastEvent s) = Some v \<and> 0 < eventCount s)"

definition real_version :: "js_number \<Rightarrow> bool" where
  "real_version v \<longleftrightarrow> is_finite_number v \<and> num_lt (Fin (- 1)) v"

lemma real_not_stale: "num_lt x y \<Longrightarrow> \<not> num_le y x"
  by (cases x; cases y; simp)

interpretation stream_guard: version_guard id real_version shown_version stream_ok "accept_version now" for now
  by unfold_locales
    (auto simp: real_version_def stream_ok_def accept_version_def dest: real_not_stale split: option.splits)

lemma initial_stream_ok [simp]: "stream_ok initial_stream" "shown_version initial_stream = None"
  by (simp_all add: stream_ok_def initial_stream_def)

definition frames :: "stream_event list \<Rightarrow> js_number list" where
  "frames es = concat (map (\<lambda>e. case e of RulesetFrame data now \<Rightarrow>
     (case frame_version data of None \<Rightarrow> [] | Some v \<Rightarrow> [v]) | _ \<Rightarrow> []) es)"

lemma frames_Nil [simp]: "frames [] = []"
  by (simp add: frames_def)

lemma frames_Cons:
  "frames (e # es) = (case e of RulesetFrame data now \<Rightarrow>
     (case frame_version data of None \<Rightarrow> [] | Some v \<Rightarrow> [v]) | _ \<Rightarrow> []) @ frames es"
  by (simp add: frames_def)

text \<open>A status event keeps the version and the invariant; a frame is an offer to the guard.\<close>

lemma stream_step_cases:
  assumes "stream_ok s" "\<forall>v \<in> set (frames [e]). is_finite_number v"
  shows "stream_ok (stream_step e s) \<and>
    (frames [e] = [] \<and> shown_version (stream_step e s) = shown_version s
     \<or> (\<exists>v now. frames [e] = [v] \<and> stream_step e s = accept_version now v s))"
proof (cases e)
  case (RulesetFrame data now)
  show ?thesis
  proof (cases "frame_version data")
    case (Some v)
    have "stream_ok (accept_version now v s)"
    proof (cases "real_version v")
      case True
      then show ?thesis by (rule stream_guard.inv_offer [OF assms(1)])
    next
      case False
      have "is_finite_number v" using assms(2) RulesetFrame Some by (simp add: frames_Cons)
      with False have "accept_version now v s = s" using assms(1)
        by (cases v) (auto simp: real_version_def accept_version_def stream_ok_def split: option.splits
            elim!: is_finite_number.elims)
      with assms(1) show ?thesis by simp
    qed
    with RulesetFrame Some show ?thesis by (auto simp: frames_Cons)
  qed (use assms RulesetFrame in \<open>simp add: frames_Cons\<close>)
qed (use assms in \<open>simp_all add: frames_Cons stream_ok_def split: option.splits\<close>)

lemma frames_append [simp]: "frames (es @ fs) = frames es @ frames fs"
  by (simp add: frames_def)

text \<open>What is shown after any events, and that the invariant holds there.\<close>

lemma stream_run:
  assumes "\<forall>v \<in> set (frames es). is_finite_number v"
  defines "s \<equiv> fold stream_step es initial_stream"
  shows "stream_ok s \<and> (\<forall>v \<in> set (frames es). num_le v (highestVersion s))
    \<and> set_option (shown_version s) \<subseteq> set (frames es)"
  unfolding s_def using assms(1)
proof (induction es rule: rev_induct)
  case (snoc e es)
  let ?s = "fold stream_step es initial_stream"
  have IH: "stream_ok ?s" "\<forall>v \<in> set (frames es). num_le v (highestVersion ?s)"
      "set_option (shown_version ?s) \<subseteq> set (frames es)"
    using snoc by auto
  have step: "stream_ok (stream_step e ?s)"
      "frames [e] = [] \<and> shown_version (stream_step e ?s) = shown_version ?s
       \<or> (\<exists>v now. frames [e] = [v] \<and> stream_step e ?s = accept_version now v ?s)"
    using stream_step_cases [OF IH(1), of e] snoc.prems by auto
  from step(2) show ?case
  proof (elim disjE exE conjE)
    assume e: "frames [e] = []" "shown_version (stream_step e ?s) = shown_version ?s"
    then have "highestVersion (stream_step e ?s) = highestVersion ?s"
      using IH(1) step(1) by (auto simp: stream_ok_def split: option.splits)
    with e IH step(1) show ?thesis by simp
  next
    fix v now assume e: "frames [e] = [v]" "stream_step e ?s = accept_version now v ?s"
    show ?thesis
    proof (cases "num_le v (highestVersion ?s)")
      case True
      then have "accept_version now v ?s = ?s" by (simp add: accept_version_def)
      with True e IH show ?thesis by auto
    next
      case False
      then have new: "accept_version now v ?s = \<lparr>stream_status = Live, shown_version = Some v,
          lastEvent = Some \<lparr>event_version = v, receivedAt = now\<rparr>, eventCount = eventCount ?s + 1,
          highestVersion = v\<rparr>"
        by (simp add: accept_version_def)
      have "is_finite_number v" "is_finite_number (highestVersion ?s)"
        using snoc.prems e(1) IH(1) by (auto simp: stream_ok_def split: option.splits)
      with False have le: "num_le (highestVersion ?s) v" "num_le v v"
        by (cases v; cases "highestVersion ?s"; simp)+
      have "\<forall>u \<in> set (frames es). num_le u v"
        using IH(2) le(1) num_le_trans by blast
      with step(1) e new IH(3) le(2) show ?thesis by simp
    qed
  qed
qed simp

text \<open>
  C13: the version the console shows never goes back, whatever the order of frames, reopenings,
  resyncs and errors: at any time it is the highest version among the frames received since the
  subscription, frames that cannot be parsed or carry no version being ignored.
\<close>

theorem console_shows_newest_version:
  assumes "\<forall>v \<in> set (frames es). is_finite_number v"
  shows "case shown_version (fold stream_step es initial_stream) of
      None \<Rightarrow> \<forall>v \<in> set (frames es). num_le v (Fin (- 1))
    | Some w \<Rightarrow> w \<in> set (frames es) \<and> (\<forall>v \<in> set (frames es). num_le v w)"
  using stream_run [OF assms] by (auto simp: stream_ok_def split: option.splits)

theorem console_shows_newest_version_witness:
  "shown_version (fold stream_step
     [Opened, RulesetFrame (Some (JObj [(lit ''version'', JNum (Fin 7))])) (Fin 0), Errored False,
      RulesetFrame (Some (JObj [(lit ''version'', JNum (Fin 5))])) (Fin 1), RulesetFrame None (Fin 2)]
     initial_stream) = Some (Fin 7)"
proof -
  let ?es = "[Opened, RulesetFrame (Some (JObj [(lit ''version'', JNum (Fin 7))])) (Fin 0), Errored False,
      RulesetFrame (Some (JObj [(lit ''version'', JNum (Fin 5))])) (Fin 1), RulesetFrame None (Fin 2)]"
  have "frames ?es = [Fin 7, Fin 5]" by (simp add: frames_Cons)
  with console_shows_newest_version [of ?es] show ?thesis
    by (auto split: option.splits simp del: stream_step.simps)
qed

end
