(* ===== verification/Pipeline.thy ===== *)
theory Pipeline
  imports Prelude
begin

text \<open>
  The contract shared by the two stages of the exposure pipeline, the buffer of the SDK and the writer
  of the control plane: a state machine that accepts items, holds some of them, and settles each one
  once. The accounting is proved here from what a single step does.
\<close>

locale accounting =
  fixes step :: "'a \<Rightarrow> 's \<Rightarrow> 's"
    and inv :: "'s \<Rightarrow> bool"
    and accepted :: "'s \<Rightarrow> nat"
    and settled :: "'s \<Rightarrow> nat"
    and pending :: "'s \<Rightarrow> nat"
  assumes inv_step: "inv s \<Longrightarrow> inv (step a s)"
    and balance: "inv s \<Longrightarrow> accepted s = settled s + pending s"
    and accepted_mono: "inv s \<Longrightarrow> accepted s \<le> accepted (step a s)"
    and settled_mono: "inv s \<Longrightarrow> settled s \<le> settled (step a s)"
begin

lemma inv_run: "inv s \<Longrightarrow> inv (fold step as s)"
  by (induction as arbitrary: s) (auto intro: inv_step)

lemma balance_run: "inv s \<Longrightarrow> accepted (fold step as s) = settled (fold step as s) + pending (fold step as s)"
  by (intro balance inv_run)

lemma settled_run_mono: "inv s \<Longrightarrow> settled s \<le> settled (fold step as s)"
proof (induction as arbitrary: s)
  case (Cons a as)
  from settled_mono [OF Cons.prems, of a] Cons.IH [OF inv_step [OF Cons.prems, of a]]
  show ?case by simp
qed simp

lemma accepted_run_mono: "inv s \<Longrightarrow> accepted s \<le> accepted (fold step as s)"
proof (induction as arbitrary: s)
  case (Cons a as)
  from accepted_mono [OF Cons.prems, of a] Cons.IH [OF inv_step [OF Cons.prems, of a]]
  show ?case by simp
qed simp

text \<open>What is settled later was accepted: nothing is settled twice or made up.\<close>

lemma settled_le_accepted: "inv s \<Longrightarrow> settled (fold step as s) \<le> accepted (fold step as s)"
  using balance_run by simp

lemma drained_run: "inv s \<Longrightarrow> pending (fold step as s) = 0 \<Longrightarrow>
    accepted (fold step as s) = settled (fold step as s)"
  using balance_run by simp

end

text \<open>A stage that also bounds what it holds, so that a crash loses at most its capacity.\<close>

locale bounded_pipeline = accounting +
  fixes capacity :: nat
  assumes bounded: "inv s \<Longrightarrow> pending s \<le> capacity"
begin

lemma bounded_run: "inv s \<Longrightarrow> pending (fold step as s) \<le> capacity"
  by (intro bounded inv_run)

lemma crash_loss: "inv s \<Longrightarrow> accepted (fold step as s) - settled (fold step as s) \<le> capacity"
  using balance_run bounded_run by simp

end

end
