(* ===== verification/Exposure_Buffer.thy ===== *)
theory Exposure_Buffer
  imports Js_Value Pipeline
begin

text \<open>
  \<open>packages/sdk-js/src/exposure.ts\<close>: the exposure buffer, as a state machine. An \<open>await\<close> splits
  \<open>flush\<close> in two: \<open>flush_begin\<close> hands the batch to the transport and \<open>flush_end\<close> runs when the
  transport settles. \<open>Math.random()\<close> and the ISO text of the clock are inputs of a recording, and
  the tick of the interval timer is an action. The sizes of the configuration are natural numbers;
  reporting an error to the host changes nothing here.
\<close>

record exposure_event =
  ev_flagKey :: js_string
  ev_variationKey :: js_string
  ev_contextKey :: js_string
  ev_rulesetVersion :: js_number
  ev_timestamp :: js_string
  ev_dedupeKey :: js_string

record exposure_input =
  in_flagKey :: js_string
  in_variationKey :: js_string
  in_contextKey :: js_string
  in_rulesetVersion :: js_number
  in_timestamp :: "js_string option"
  in_dedupeKey :: "js_string option"

record buffer_config =
  batchSize :: nat
  maxQueueSize :: nat
  samplingThreshold :: js_number

definition default_config :: buffer_config where
  "default_config = \<lparr>batchSize = 100, maxQueueSize = 10000, samplingThreshold = Fin (1 / 2)\<rparr>"

text \<open>\<open>in_flight\<close> is the batch of the pending \<open>flush\<close>, \<open>None\<close> when \<open>#flushInFlight\<close> is false.\<close>

record buffer =
  queue :: "exposure_event list"
  timer :: bool
  closed_flag :: bool
  in_flight :: "exposure_event list option"
  sequence :: nat
  recorded :: nat
  dropped :: nat
  sampled :: nat
  sent :: nat
  failed :: nat

definition new_buffer :: buffer where
  "new_buffer = \<lparr>queue = [], timer = False, closed_flag = False, in_flight = None, sequence = 0,
     recorded = 0, dropped = 0, sampled = 0, sent = 0, failed = 0\<rparr>"

definition start :: "buffer \<Rightarrow> buffer" where
  "start b = (if timer b \<or> closed_flag b then b else b\<lparr>timer := True\<rparr>)"

definition samplingRate :: "buffer_config \<Rightarrow> buffer \<Rightarrow> js_number" where
  "samplingRate cfg b =
     (let occupancy = num_div (number_of_nat (length (queue b))) (number_of_nat (maxQueueSize cfg)) in
      if num_le occupancy (samplingThreshold cfg) then Fin 1
      else let overage = num_div (num_sub occupancy (samplingThreshold cfg))
                                 (num_sub (Fin 1) (samplingThreshold cfg)) in
           math_max (Fin 0) (num_sub (Fin 1) overage))"

definition flush_begin :: "buffer \<Rightarrow> buffer" where
  "flush_begin b =
     (if in_flight b \<noteq> None \<or> queue b = [] then b
      else b\<lparr>in_flight := Some (queue b), queue := []\<rparr>)"

definition flush_end :: "bool \<Rightarrow> buffer \<Rightarrow> buffer" where
  "flush_end ok b =
     (case in_flight b of
        None \<Rightarrow> b
      | Some batch \<Rightarrow>
          (if ok then b\<lparr>sent := sent b + length batch, in_flight := None\<rparr>
           else b\<lparr>failed := failed b + length batch, in_flight := None\<rparr>))"

definition generated_key :: "exposure_input \<Rightarrow> nat \<Rightarrow> js_string" where
  "generated_key e n =
     in_contextKey e @ lit '':'' @ in_flagKey e @ lit '':'' @ number_to_string (in_rulesetVersion e) @
     lit '':'' @ show_nat n"

definition make_event :: "exposure_input \<Rightarrow> js_string \<Rightarrow> nat \<Rightarrow> exposure_event" where
  "make_event e stamp n =
     \<lparr>ev_flagKey = in_flagKey e, ev_variationKey = in_variationKey e, ev_contextKey = in_contextKey e,
      ev_rulesetVersion = in_rulesetVersion e,
      ev_timestamp = (case in_timestamp e of None \<Rightarrow> stamp | Some t \<Rightarrow> t),
      ev_dedupeKey = (case in_dedupeKey e of None \<Rightarrow> generated_key e n | Some k \<Rightarrow> k)\<rparr>"

text \<open>
  \<open>record\<close>, with the random number and the time text it may draw. The clock is taken to give a date, as
  \<open>Date.now\<close>, the default, does: for an injected clock that gives none, \<open>toISOString\<close> would raise.
\<close>

definition record_event ::
    "buffer_config \<Rightarrow> js_number \<Rightarrow> js_string \<Rightarrow> exposure_input \<Rightarrow> buffer \<Rightarrow> bool \<times> buffer" where
  "record_event cfg random stamp e b =
     (if closed_flag b then (False, b)
      else if maxQueueSize cfg \<le> length (queue b) then (False, b\<lparr>dropped := dropped b + 1\<rparr>)
      else let rate = samplingRate cfg b in
        if num_lt rate (Fin 1) \<and> num_le rate random then (False, b\<lparr>sampled := sampled b + 1\<rparr>)
        else
          let n = sequence b + 1;
              b' = b\<lparr>sequence := n, queue := queue b @ [make_event e stamp n], recorded := recorded b + 1\<rparr>
          in (True, if batchSize cfg \<le> length (queue b') then flush_begin b' else b'))"

definition close :: "buffer \<Rightarrow> buffer" where
  "close b = flush_begin (b\<lparr>closed_flag := True, timer := False\<rparr>)"

datatype buffer_action =
    Start
  | Record exposure_input js_number js_string
  | Tick
  | Flush
  | Settle bool
  | Close

fun buffer_step :: "buffer_config \<Rightarrow> buffer_action \<Rightarrow> buffer \<Rightarrow> buffer" where
  "buffer_step cfg Start b = start b"
| "buffer_step cfg (Record e random stamp) b = snd (record_event cfg random stamp e b)"
| "buffer_step cfg Tick b = (if timer b then flush_begin b else b)"
| "buffer_step cfg Flush b = flush_begin b"
| "buffer_step cfg (Settle ok) b = flush_end ok b"
| "buffer_step cfg Close b = close b"

section \<open>Accounting\<close>

definition flying :: "buffer \<Rightarrow> exposure_event list" where
  "flying b = (case in_flight b of None \<Rightarrow> [] | Some batch \<Rightarrow> batch)"

definition buffer_ok :: "buffer_config \<Rightarrow> buffer \<Rightarrow> bool" where
  "buffer_ok cfg b \<longleftrightarrow>
     recorded b = sent b + failed b + length (flying b) + length (queue b)
     \<and> sequence b = recorded b
     \<and> length (queue b) \<le> maxQueueSize cfg \<and> length (flying b) \<le> maxQueueSize cfg
     \<and> (closed_flag b \<longrightarrow> \<not> timer b)"

lemma new_buffer_ok [simp]: "buffer_ok cfg new_buffer"
  by (simp add: buffer_ok_def new_buffer_def flying_def)

lemmas buffer_defs = start_def flush_begin_def flush_end_def close_def record_event_def flying_def Let_def

lemma flush_begin_ok: "buffer_ok cfg b \<Longrightarrow> buffer_ok cfg (flush_begin b)"
  by (auto simp: buffer_ok_def flush_begin_def flying_def)

lemma record_ok:
  assumes "buffer_ok cfg b" shows "buffer_ok cfg (snd (record_event cfg random stamp e b))"
proof -
  have "buffer_ok cfg (b\<lparr>sequence := sequence b + 1, queue := queue b @ [x], recorded := recorded b + 1\<rparr>)"
    if "\<not> maxQueueSize cfg \<le> length (queue b)" for x
    using that assms by (auto simp: buffer_ok_def flying_def)
  moreover have "buffer_ok cfg (b\<lparr>dropped := dropped b + 1\<rparr>)" "buffer_ok cfg (b\<lparr>sampled := sampled b + 1\<rparr>)"
    using assms by (simp_all add: buffer_ok_def flying_def)
  ultimately show ?thesis using assms by (auto simp: record_event_def Let_def intro!: flush_begin_ok)
qed

lemma buffer_step_ok: "buffer_ok cfg b \<Longrightarrow> buffer_ok cfg (buffer_step cfg a b)"
proof (cases a)
  case Start
  assume "buffer_ok cfg b"
  with Start show ?thesis by (simp add: start_def buffer_ok_def flying_def)
next
  case (Settle ok)
  assume "buffer_ok cfg b"
  with Settle show ?thesis by (auto simp: flush_end_def buffer_ok_def flying_def split: option.splits)
next
  case Close
  assume ok: "buffer_ok cfg b"
  then have "buffer_ok cfg (b\<lparr>closed_flag := True, timer := False\<rparr>)"
    by (simp add: buffer_ok_def flying_def)
  with Close show ?thesis by (simp add: close_def flush_begin_ok)
qed (auto intro: flush_begin_ok record_ok)

lemma buffer_counters:
  "recorded b \<le> recorded (buffer_step cfg a b)"
  "sent b + failed b \<le> sent (buffer_step cfg a b) + failed (buffer_step cfg a b)"
  by (cases a; auto simp: buffer_defs split: option.splits)+

interpretation buffer_pipeline: bounded_pipeline "buffer_step cfg" "buffer_ok cfg" recorded
    "\<lambda>b. sent b + failed b" "\<lambda>b. length (flying b) + length (queue b)" "2 * maxQueueSize cfg" for cfg
  by unfold_locales (erule buffer_step_ok | rule buffer_counters | simp add: buffer_ok_def)+

text \<open>Every recording in an open buffer is counted once: as recorded, as sampled away or as dropped.\<close>

definition attempts :: "buffer \<Rightarrow> nat" where
  "attempts b = recorded b + sampled b + dropped b"

definition is_record :: "buffer_action \<Rightarrow> bool" where
  "is_record a \<longleftrightarrow> (case a of Record e random stamp \<Rightarrow> True | _ \<Rightarrow> False)"

lemma flush_begin_counters [simp]:
  "attempts (flush_begin b) = attempts b" "closed_flag (flush_begin b) = closed_flag b"
  by (simp_all add: flush_begin_def attempts_def)

lemma attempts_step:
  "attempts (buffer_step cfg a b) = attempts b + (if is_record a \<and> \<not> closed_flag b then 1 else 0)
    \<and> closed_flag (buffer_step cfg a b) = (closed_flag b \<or> a = Close)"
proof (cases a)
  case (Record e random stamp)
  have "attempts (flush_begin b') = attempts b'" "closed_flag (flush_begin b') = closed_flag b'" for b'
    by simp_all
  with Record show ?thesis by (simp add: record_event_def is_record_def Let_def) (simp add: attempts_def)
next
  case (Settle ok)
  then show ?thesis by (auto simp: flush_end_def is_record_def attempts_def split: option.splits)
next
  case Start
  then show ?thesis by (simp add: start_def is_record_def attempts_def)
next
  case Close
  have "attempts (b\<lparr>closed_flag := True, timer := False\<rparr>) = attempts b" by (simp add: attempts_def)
  with Close show ?thesis by (simp add: close_def is_record_def)
qed (simp_all add: is_record_def)

lemma attempts_run:
  "attempts (fold (buffer_step cfg) actions b) = attempts b +
    (if closed_flag b then 0 else length (filter is_record (takeWhile (\<lambda>a. a \<noteq> Close) actions)))"
proof (induction actions arbitrary: b)
  case (Cons a actions)
  have "\<not> is_record Close" by (simp add: is_record_def)
  with Cons.IH [of "buffer_step cfg a b"] attempts_step [of cfg a b] show ?case by auto
qed simp

text \<open>
  C14: the buffer accounts for every exposure: after any actions from a new buffer, each recording
  before the closing was recorded, sampled away or dropped; what was recorded is what was sent, failed,
  is in flight, or is queued; the queue never exceeds its cap, and at most two caps of events are held,
  which is all that a crash can lose.
\<close>

theorem buffer_accounts_for_every_exposure:
  "let b = fold (buffer_step cfg) actions new_buffer in
     recorded b + sampled b + dropped b = length (filter is_record (takeWhile (\<lambda>a. a \<noteq> Close) actions))
     \<and> recorded b = sent b + failed b + length (flying b) + length (queue b)
     \<and> length (queue b) \<le> maxQueueSize cfg
     \<and> recorded b - (sent b + failed b) \<le> 2 * maxQueueSize cfg"
proof -
  have "attempts (fold (buffer_step cfg) actions new_buffer)
      = length (filter is_record (takeWhile (\<lambda>a. a \<noteq> Close) actions))"
    using attempts_run [of cfg actions new_buffer] by (simp add: attempts_def new_buffer_def)
  then have "recorded b + sampled b + dropped b = length (filter is_record (takeWhile (\<lambda>a. a \<noteq> Close) actions))"
    if "b = fold (buffer_step cfg) actions new_buffer" for b
    using that by (simp add: attempts_def)
  moreover have "length (queue (fold (buffer_step cfg) actions new_buffer)) \<le> maxQueueSize cfg"
    using buffer_pipeline.inv_run [OF new_buffer_ok, of cfg actions] by (simp add: buffer_ok_def)
  ultimately show ?thesis
    using buffer_pipeline.balance_run [OF new_buffer_ok, of cfg actions]
      buffer_pipeline.crash_loss [OF new_buffer_ok, of cfg actions] by (simp add: Let_def)
qed

section \<open>What the transport receives\<close>

text \<open>The batch a step hands to the transport, and the events a step accepts.\<close>

definition handed :: "buffer_config \<Rightarrow> buffer_action \<Rightarrow> buffer \<Rightarrow> exposure_event list" where
  "handed cfg a b = (if in_flight b = None then flying (buffer_step cfg a b) else [])"

definition taken :: "buffer_config \<Rightarrow> buffer_action \<Rightarrow> buffer \<Rightarrow> exposure_event list" where
  "taken cfg a b =
     (case a of
        Record e random stamp \<Rightarrow>
          (if fst (record_event cfg random stamp e b) then [make_event e stamp (sequence b + 1)] else [])
      | _ \<Rightarrow> [])"

fun run_trace ::
    "buffer_config \<Rightarrow> buffer_action list \<Rightarrow> buffer \<Rightarrow> exposure_event list list \<times> exposure_event list \<times> buffer"
where
  "run_trace cfg [] b = ([], [], b)"
| "run_trace cfg (a # as) b =
     (let (batches, events, b') = run_trace cfg as (buffer_step cfg a b) in
      ((if handed cfg a b = [] then batches else handed cfg a b # batches), taken cfg a b @ events, b'))"

lemma step_queue:
  "queue b @ taken cfg a b = handed cfg a b @ queue (buffer_step cfg a b)"
  by (cases a) (auto simp: handed_def taken_def buffer_defs split: option.splits)

text \<open>
  The transport receives exactly the accepted exposures, each once and in order: whatever the
  interleaving of recordings, timer ticks, flushes, settlements and closing, the batches handed over,
  followed by what is still queued, are the events that were queued followed by those whose recording
  returned true.
\<close>

lemma transport_receives_accepted_events:
  "case run_trace cfg actions b of
     (batches, events, b') \<Rightarrow> queue b @ events = concat batches @ queue b'"
proof (induction actions arbitrary: b)
  case (Cons a actions)
  obtain batches events b' where run: "run_trace cfg actions (buffer_step cfg a b) = (batches, events, b')"
    by (metis prod_cases3)
  with Cons.IH [of "buffer_step cfg a b"]
  have "queue (buffer_step cfg a b) @ events = concat batches @ queue b'" by simp
  then have "queue b @ taken cfg a b @ events = handed cfg a b @ concat batches @ queue b'"
    using step_queue [of b cfg a] by (metis append.assoc)
  with run show ?case by auto
qed simp

section \<open>Idempotency keys\<close>

text \<open>The number of a generated key is what follows its last colon.\<close>

lemma generated_key_inj: "generated_key e m = generated_key f n \<Longrightarrow> m = n"
proof -
  assume eq: "generated_key e m = generated_key f n"
  have tail: "takeWhile (\<lambda>c. c \<noteq> 0x3A) (rev (generated_key g k)) = rev (show_nat k)" for g k
  proof -
    have "\<forall>c \<in> set (rev (show_nat k)). c \<noteq> 0x3A"
      using show_nat_digits [of k] by (auto simp: is_digit_def)
    then show ?thesis
      by (simp add: generated_key_def lit_def) (subst takeWhile_append2; simp)
  qed
  from eq have "rev (show_nat m) = rev (show_nat n)" using tail [of e m] tail [of f n] by simp
  then show "m = n" by (simp add: show_nat_inj)
qed

definition own_keys :: "buffer_action \<Rightarrow> bool" where
  "own_keys a \<longleftrightarrow> (case a of Record e random stamp \<Rightarrow> in_dedupeKey e = None | _ \<Rightarrow> True)"

lemma taken_key:
  assumes "own_keys a" "x \<in> set (taken cfg a b)"
  shows "(\<exists>e. ev_dedupeKey x = generated_key e (sequence b + 1)) \<and> sequence (buffer_step cfg a b) = sequence b + 1
    \<and> taken cfg a b = [x]"
  using assms
  by (cases a) (auto simp: taken_def own_keys_def make_event_def record_event_def Let_def flush_begin_def
      split: if_splits)

lemma sequence_mono: "sequence b \<le> sequence (buffer_step cfg a b)"
  by (cases a) (auto simp: buffer_defs split: option.splits)

lemma run_keys:
  assumes "\<forall>a \<in> set actions. own_keys a" "run_trace cfg actions b = (batches, events, b')"
  shows "distinct (map ev_dedupeKey events) \<and>
    (\<forall>x \<in> set events. \<exists>e n. sequence b < n \<and> ev_dedupeKey x = generated_key e n)"
  using assms
proof (induction actions arbitrary: b batches events b')
  case (Cons a actions)
  obtain bs es b'' where run: "run_trace cfg actions (buffer_step cfg a b) = (bs, es, b'')"
    by (metis prod_cases3)
  then have events: "events = taken cfg a b @ es" using Cons.prems(2) by (auto split: if_splits)
  have IH: "distinct (map ev_dedupeKey es)"
      "\<forall>x \<in> set es. \<exists>e n. sequence (buffer_step cfg a b) < n \<and> ev_dedupeKey x = generated_key e n"
    using Cons.IH [OF _ run] Cons.prems(1) by auto
  have later: "\<forall>y \<in> set es. \<exists>f n. sequence b < n \<and> ev_dedupeKey y = generated_key f n"
    using IH(2) sequence_mono [of b cfg a] le_less_trans by blast
  show ?case
  proof (cases "taken cfg a b")
    case Nil
    with events IH(1) later show ?thesis by simp
  next
    case (Cons x xs)
    have own: "own_keys a" using Cons.prems(1) by simp
    have "x \<in> set (taken cfg a b)" using Cons by simp
    from taken_key [OF own this] obtain e where x: "ev_dedupeKey x = generated_key e (sequence b + 1)"
        "sequence (buffer_step cfg a b) = sequence b + 1" "taken cfg a b = [x]" by blast
    have "ev_dedupeKey y \<noteq> ev_dedupeKey x" if "y \<in> set es" for y
      using IH(2) that x generated_key_inj by fastforce
    then have "ev_dedupeKey x \<notin> ev_dedupeKey ` set es" by (metis imageE)
    then have "distinct (map ev_dedupeKey events)" using events x(3) IH(1) by simp
    moreover have "\<forall>y \<in> set events. \<exists>f n. sequence b < n \<and> ev_dedupeKey y = generated_key f n"
      using later events x by auto
    ultimately show ?thesis by blast
  qed
qed simp

text \<open>
  The idempotency keys a buffer generates are pairwise distinct over its whole life, although they
  join user-supplied strings with colons: the sequence number after the last colon tells them apart,
  so the server never merges two exposures of one buffer.
\<close>

lemma dedupe_keys_are_distinct:
  assumes "\<forall>a \<in> set actions. own_keys a"
  shows "distinct (map ev_dedupeKey (fst (snd (run_trace cfg actions b))))"
proof -
  obtain batches events b' where run: "run_trace cfg actions b = (batches, events, b')" by (metis prod_cases3)
  with run_keys [OF assms run] show ?thesis by simp
qed

definition example_input :: exposure_input where
  "example_input = \<lparr>in_flagKey = lit ''checkout-redesign'', in_variationKey = lit ''on'', in_contextKey = lit ''u:1'',
     in_rulesetVersion = Fin 3, in_timestamp = None, in_dedupeKey = None\<rparr>"

lemma dedupe_keys_are_distinct_witness:
  "distinct (map ev_dedupeKey (fst (snd (run_trace default_config
     [Start, Record example_input (Fin 0) [], Tick, Record example_input (Fin 0) [], Settle False] new_buffer))))"
  by (rule dedupe_keys_are_distinct) (simp add: own_keys_def example_input_def)

section \<open>Closing\<close>

text \<open>
  Closing an idle buffer flushes it: when no flush is in flight, closing leaves nothing queued,
  hands over everything that was queued, and nothing is recorded afterwards.
\<close>

lemma close_flushes_idle_buffer:
  assumes "in_flight b = None"
  shows "queue (close b) = [] \<and> flying (close b) = queue b \<and> \<not> timer (close b)
    \<and> record_event cfg random stamp e (close b) = (False, close b)"
  using assms by (simp add: close_def flush_begin_def flying_def record_event_def)

lemma close_flushes_idle_buffer_witness:
  "queue (close (fold (buffer_step default_config) [Record example_input (Fin 0) []] new_buffer)) = []"
proof -
  have "in_flight (fold (buffer_step default_config) [Record example_input (Fin 0) []] new_buffer) = None"
    by (simp add: record_event_def new_buffer_def default_config_def Let_def samplingRate_def)
  from close_flushes_idle_buffer [OF this] show ?thesis by blast
qed

text \<open>
  Closing during a flush does not: the events queued meanwhile stay queued, the timer is gone, and no
  settlement or tick sends them; only another call of \<open>flush\<close> or \<open>close\<close> would.
\<close>

lemma close_during_flush_strands_events:
  assumes "in_flight b = Some batch"
  shows "queue (flush_end ok (close b)) = queue b"
    and "buffer_step cfg Tick (flush_end ok (close b)) = flush_end ok (close b)"
    and "buffer_step cfg (Record e random stamp) (flush_end ok (close b)) = flush_end ok (close b)"
  using assms by (simp_all add: close_def flush_begin_def flush_end_def record_event_def)

section \<open>Sampling\<close>

lemma round_double_div_mono:
  "0 < c \<Longrightarrow> a \<le> b \<Longrightarrow> num_le (num_div (Fin a) (Fin c)) (num_div (Fin b) (Fin c))"
  by (simp add: round_double_mono divide_right_mono)

lemma fin_of_bounds: "num_le (Fin a) x \<Longrightarrow> num_le x (Fin b) \<Longrightarrow> \<exists>q. x = Fin q \<and> a \<le> q \<and> q \<le> b"
  by (cases x) auto

text \<open>The occupancy of a buffer within its cap lies in \<open>[0, 1]\<close>.\<close>

lemma occupancy_bounds:
  assumes "n \<le> m" "0 < m" "m < 2 ^ 53"
  shows "\<exists>q. num_div (number_of_nat n) (number_of_nat m) = Fin q \<and> 0 \<le> q \<and> q \<le> 1"
proof (rule fin_of_bounds)
  have d: "num_div (number_of_nat n) (number_of_nat m) = round_double (of_nat n / of_nat m)"
    using assms by simp
  have "num_le (Fin (of_int 0)) (round_double (of_nat n / of_nat m))"
    by (rule round_double_ge_int) simp_all
  then show "num_le (Fin 0) (num_div (number_of_nat n) (number_of_nat m))" by (simp add: d)
  have "num_le (round_double (of_nat n / of_nat m)) (Fin (of_int 1))"
    using assms by (intro round_double_le_int) simp_all
  then show "num_le (num_div (number_of_nat n) (number_of_nat m)) (Fin 1)" by (simp add: d)
qed

text \<open>The rate above the threshold, as a function of the occupancy.\<close>

definition degraded_rate :: "rat \<Rightarrow> rat \<Rightarrow> rat \<Rightarrow> js_number" where
  "degraded_rate t d q =
     math_max (Fin 0) (num_sub (Fin 1) (num_div (num_sub (Fin q) (Fin t)) (Fin d)))"

lemma num_sub_Fin: "num_sub (Fin a) (Fin b) = round_double (a - b)"
  by (simp add: num_sub_def)

lemma num_div_mono: "0 < d \<Longrightarrow> num_le x y \<Longrightarrow> num_le (num_div x (Fin d)) (num_div y (Fin d))"
  by (cases x; cases y) (auto simp: divide_right_mono intro: round_double_mono)

lemma one_minus_antimono: "num_le x y \<Longrightarrow> num_le (num_sub (Fin 1) y) (num_sub (Fin 1) x)"
  by (cases x; cases y) (auto simp: num_sub_def intro: round_double_mono)

lemma math_max_0_mono: "num_le x y \<Longrightarrow> num_le (math_max (Fin 0) x) (math_max (Fin 0) y)"
  by (cases x; cases y) (auto simp: math_max_def)

lemma math_max_0_nonneg: "x \<noteq> NaN \<Longrightarrow> num_le (Fin 0) (math_max (Fin 0) x)"
  by (cases x) (auto simp: math_max_def)

lemma degraded_mono:
  "0 < d \<Longrightarrow> q \<le> q' \<Longrightarrow> num_le (degraded_rate t d q') (degraded_rate t d q)"
  unfolding degraded_rate_def num_sub_Fin
  by (intro math_max_0_mono one_minus_antimono num_div_mono round_double_mono) simp_all

lemma degraded_range:
  assumes "0 < d" "t \<le> q"
  shows "num_le (Fin 0) (degraded_rate t d q)" and "num_le (degraded_rate t d q) (Fin 1)"
proof -
  have "num_le (Fin (of_int 0)) (round_double (q - t))" using assms by (intro round_double_ge_int) simp_all
  then have "num_le (num_div (Fin 0) (Fin d)) (num_div (num_sub (Fin q) (Fin t)) (Fin d))"
    using assms(1) by (intro num_div_mono) (simp_all add: num_sub_Fin)
  then have "num_le (Fin 0) (num_div (num_sub (Fin q) (Fin t)) (Fin d))" using assms(1) by simp
  then have le1: "num_le (num_sub (Fin 1) (num_div (num_sub (Fin q) (Fin t)) (Fin d))) (num_sub (Fin 1) (Fin 0))"
    by (rule one_minus_antimono)
  then have "num_sub (Fin 1) (num_div (num_sub (Fin q) (Fin t)) (Fin d)) \<noteq> NaN" by auto
  then show "num_le (Fin 0) (degraded_rate t d q)" unfolding degraded_rate_def by (rule math_max_0_nonneg)
  have "num_sub (Fin 1) (Fin 0) = Fin 1" using round_double_of_int [of 1] by (simp add: num_sub_Fin)
  with math_max_0_mono [OF le1] show "num_le (degraded_rate t d q) (Fin 1)"
    by (simp add: degraded_rate_def) (simp add: math_max_def)
qed

lemma samplingRate_cases:
  assumes "length (queue b) \<le> maxQueueSize cfg" "0 < maxQueueSize cfg" "maxQueueSize cfg < 2 ^ 53"
    and "samplingThreshold cfg = Fin t" "num_sub (Fin 1) (Fin t) = Fin d"
  obtains q where "num_div (number_of_nat (length (queue b))) (number_of_nat (maxQueueSize cfg)) = Fin q"
    "samplingRate cfg b = (if q \<le> t then Fin 1 else degraded_rate t d q)"
proof -
  obtain q where q: "num_div (number_of_nat (length (queue b))) (number_of_nat (maxQueueSize cfg)) = Fin q"
    using occupancy_bounds [OF assms(1-3)] by blast
  then have "samplingRate cfg b = (if q \<le> t then Fin 1 else degraded_rate t d q)"
    by (simp add: samplingRate_def assms(4,5) degraded_rate_def)
  with q that show thesis by blast
qed

text \<open>
  C15: sampling degrades gracefully: for a threshold below 1 the rate always lies between 0 and 1, and
  a fuller queue never has a higher rate.
\<close>

theorem sampling_degrades_gracefully:
  assumes "length (queue b) \<le> length (queue b')" "length (queue b') \<le> maxQueueSize cfg"
    and "0 < maxQueueSize cfg" "maxQueueSize cfg < 2 ^ 53"
    and "samplingThreshold cfg = Fin t" "num_sub (Fin 1) (Fin t) = Fin d" "0 < d"
  shows "num_le (Fin 0) (samplingRate cfg b') \<and> num_le (samplingRate cfg b') (samplingRate cfg b)
    \<and> num_le (samplingRate cfg b) (Fin 1)"
proof -
  obtain q where q: "num_div (number_of_nat (length (queue b))) (number_of_nat (maxQueueSize cfg)) = Fin q"
      "samplingRate cfg b = (if q \<le> t then Fin 1 else degraded_rate t d q)"
    using samplingRate_cases [of b cfg t d] assms by auto
  obtain q' where q': "num_div (number_of_nat (length (queue b'))) (number_of_nat (maxQueueSize cfg)) = Fin q'"
      "samplingRate cfg b' = (if q' \<le> t then Fin 1 else degraded_rate t d q')"
    using samplingRate_cases [of b' cfg t d] assms by auto
  have "num_le (Fin q) (Fin q')"
    unfolding q(1) [symmetric] q'(1) [symmetric] using assms(1-4)
    by (simp add: round_double_mono divide_right_mono)
  then have le: "q \<le> q'" by simp
  show ?thesis
    using degraded_range [OF assms(7)] degraded_mono [OF assms(7) le] le by (simp add: q(2) q'(2))
qed

theorem sampling_degrades_gracefully_witness:
  "num_le (samplingRate \<lparr>batchSize = 100, maxQueueSize = 2, samplingThreshold = Fin 0\<rparr>
      (new_buffer\<lparr>queue := [make_event example_input [] 1]\<rparr>)) (Fin 1)"
proof -
  have "num_sub (Fin 1) (Fin 0) = Fin 1" using round_double_of_int [of 1] by (simp add: num_sub_Fin)
  then show ?thesis
    using sampling_degrades_gracefully [of "new_buffer\<lparr>queue := [make_event example_input [] 1]\<rparr>"
      "new_buffer\<lparr>queue := [make_event example_input [] 1]\<rparr>"
      "\<lparr>batchSize = 100, maxQueueSize = 2, samplingThreshold = Fin 0\<rparr>" 0 1] by simp
qed

end
