(* ===== verification/Visibility.thy ===== *)
theory Visibility
  imports Evaluate
begin

text \<open>
  \<open>packages/core/src/visibility.ts\<close>: the payload a client key receives. A \<open>Set\<close> of segment keys
  is the list of its keys in insertion order.
\<close>

datatype KeyKind = KindClient | KindServer

fun containsServerOnly :: "rule_node \<Rightarrow> bool" where
  "containsServerOnly (Condition a op vs vis) = (vis = ServerOnly)"
| "containsServerOnly (AndNode cs) = list_ex containsServerOnly cs"
| "containsServerOnly (OrNode cs) = list_ex containsServerOnly cs"
| "containsServerOnly (NotNode cs) = list_ex containsServerOnly cs"
| "containsServerOnly (SegmentRef k negated) = False"
| "containsServerOnly (UnknownNode kind) = True"

fun referencedSegments :: "rule_node \<Rightarrow> js_string list \<Rightarrow> js_string list" where
  "referencedSegments (SegmentRef k negated) acc = set_add k acc"
| "referencedSegments (AndNode cs) acc = fold referencedSegments cs acc"
| "referencedSegments (OrNode cs) acc = fold referencedSegments cs acc"
| "referencedSegments (NotNode cs) acc = fold referencedSegments cs acc"
| "referencedSegments (Condition a op vs vis) acc = acc"
| "referencedSegments (UnknownNode kind) acc = acc"

text \<open>One pass of the loop of \<open>clientSafeSegments\<close>: the new set and whether it changed.\<close>

fun safe_pass :: "segment list \<Rightarrow> js_string list \<Rightarrow> bool \<Rightarrow> js_string list \<times> bool" where
  "safe_pass [] safe changed = (safe, changed)"
| "safe_pass (s # ss) safe changed =
     (if skey s \<in> set safe then safe_pass ss safe changed
      else if containsServerOnly (seg_when s) then safe_pass ss safe changed
      else if list_all (\<lambda>d. d \<in> set safe) (referencedSegments (seg_when s) [])
      then safe_pass ss (set_add (skey s) safe) True
      else safe_pass ss safe changed)"

text \<open>A pass that changes something adds a key of the snapshot, so the loop ends.\<close>

lemma safe_pass_grows:
  "safe_pass ss safe changed = (safe', changed') \<Longrightarrow>
    set safe \<subseteq> set safe' \<and> set safe' \<subseteq> set safe \<union> skey ` set ss
    \<and> (changed' \<longrightarrow> changed \<or> set safe \<subset> set safe') \<and> (changed \<longrightarrow> changed')
    \<and> (\<not> changed' \<longrightarrow> safe' = safe)"
proof (induction ss arbitrary: safe changed)
  case (Cons s ss)
  show ?case
  proof (cases "skey s \<in> set safe \<or> containsServerOnly (seg_when s)
      \<or> \<not> list_all (\<lambda>d. d \<in> set safe) (referencedSegments (seg_when s) [])")
    case True
    with Cons.prems have "safe_pass ss safe changed = (safe', changed')" by (auto split: if_splits)
    from Cons.IH [OF this] show ?thesis by auto
  next
    case False
    with Cons.prems have "safe_pass ss (set_add (skey s) safe) True = (safe', changed')" by auto
    from Cons.IH [OF this] False show ?thesis by auto
  qed
qed auto

function safe_loop :: "segment list \<Rightarrow> js_string list \<Rightarrow> js_string list" where
  "safe_loop ss safe =
     (case safe_pass ss safe False of (safe', changed) \<Rightarrow>
        if changed then safe_loop ss safe' else safe')"
  by pat_completeness auto

termination safe_loop
proof (relation "measure (\<lambda>(ss, safe). card (skey ` set ss - set safe))")
  fix ss safe safe' changed
  assume "(safe', changed) = safe_pass ss safe False" "changed"
  then have "safe_pass ss safe False = (safe', True)" by simp
  from safe_pass_grows [OF this]
  have "set safe \<subset> set safe'" "set safe' \<subseteq> set safe \<union> skey ` set ss" by auto
  then have "skey ` set ss - set safe' \<subset> skey ` set ss - set safe" by auto
  then show "((ss, safe'), ss, safe) \<in> measure (\<lambda>(ss, safe). card (skey ` set ss - set safe))"
    by (simp add: psubset_card_mono)
qed simp

declare safe_loop.simps [simp del]

definition clientSafeSegments :: "segment list \<Rightarrow> js_string list" where
  "clientSafeSegments ss = safe_loop ss []"

definition isRuleClientSafe :: "js_string list \<Rightarrow> targeting_rule \<Rightarrow> bool" where
  "isRuleClientSafe safe rule =
     (if containsServerOnly (rule_when rule) then False
      else list_all (\<lambda>k. k \<in> set safe) (referencedSegments (rule_when rule) []))"

definition filterFlag :: "js_string list \<Rightarrow> flag \<Rightarrow> flag" where
  "filterFlag safe f = f\<lparr>rules := filter (isRuleClientSafe safe) (rules f)\<rparr>"

definition filterSnapshotForKey :: "ruleset_snapshot \<Rightarrow> KeyKind \<Rightarrow> ruleset_snapshot" where
  "filterSnapshotForKey snapshot kind =
     (if kind = KindServer then snapshot
      else let safe = clientSafeSegments (segments snapshot) in
        snapshot\<lparr>flags := map (filterFlag safe) (flags snapshot),
          segments := filter (\<lambda>s. skey s \<in> set safe) (segments snapshot)\<rparr>)"

definition rule_leaks :: "js_string list \<Rightarrow> flag \<Rightarrow> targeting_rule \<Rightarrow> js_string list" where
  "rule_leaks segmentKeys f rule =
     (let place = lit ''flag '' @ quoted (fkey f) @ lit '' rule '' @ quoted (rule_id rule) in
      (if containsServerOnly (rule_when rule) then [place] else []) @
      map (\<lambda>k. place @ lit '' references missing segment '' @ quoted k)
        (filter (\<lambda>k. k \<notin> set segmentKeys) (referencedSegments (rule_when rule) [])))"

definition findServerOnlyLeaks :: "ruleset_snapshot \<Rightarrow> js_string list" where
  "findServerOnlyLeaks snapshot =
     (let segmentKeys = set_of_list (map skey (segments snapshot)) in
      map (\<lambda>s. lit ''segment '' @ quoted (skey s))
        (filter (\<lambda>s. containsServerOnly (seg_when s)) (segments snapshot)) @
      concat (map (\<lambda>f. concat (map (rule_leaks segmentKeys f) (rules f))) (flags snapshot)))"

section \<open>The safe segments\<close>

lemma set_fold_refs:
  "(\<And>c acc. c \<in> set cs \<Longrightarrow> set (referencedSegments c acc) = set acc \<union> segment_refs c) \<Longrightarrow>
    set (fold referencedSegments cs acc) = set acc \<union> (\<Union>c \<in> set cs. segment_refs c)"
  by (induction cs arbitrary: acc) auto

lemma set_referencedSegments [simp]: "set (referencedSegments n acc) = set acc \<union> segment_refs n"
proof (induction n arbitrary: acc)
  case (AndNode cs)
  then show ?case by (simp add: set_fold_refs)
next
  case (OrNode cs)
  then show ?case by (simp add: set_fold_refs)
next
  case (NotNode cs)
  then show ?case by (simp add: set_fold_refs)
qed auto

text \<open>
  The specification of the loop: a key is safe when some segment of that key has no server-only
  node and references safe keys only, and nothing else is.
\<close>

inductive safe_key :: "segment list \<Rightarrow> js_string \<Rightarrow> bool" for ss where
  safe_key: "s \<in> set ss \<Longrightarrow> \<not> containsServerOnly (seg_when s) \<Longrightarrow>
    (\<And>r. r \<in> segment_refs (seg_when s) \<Longrightarrow> safe_key ss r) \<Longrightarrow> safe_key ss (skey s)"

lemma safe_pass_sound:
  "\<forall>k \<in> set safe. safe_key all_segments k \<Longrightarrow> set ss \<subseteq> set all_segments \<Longrightarrow>
    \<forall>k \<in> set (fst (safe_pass ss safe changed)). safe_key all_segments k"
proof (induction ss arbitrary: safe changed)
  case (Cons s ss)
  have sub: "set ss \<subseteq> set all_segments" using Cons.prems(2) by simp
  show ?case
  proof (cases "skey s \<in> set safe \<or> containsServerOnly (seg_when s)
      \<or> \<not> list_all (\<lambda>d. d \<in> set safe) (referencedSegments (seg_when s) [])")
    case True
    then have "safe_pass (s # ss) safe changed = safe_pass ss safe changed" by auto
    with Cons.IH [OF Cons.prems(1) sub] show ?thesis by simp
  next
    case False
    then have "\<forall>k \<in> set (set_add (skey s) safe). safe_key all_segments k"
      using Cons.prems by (auto simp: list_all_iff intro: safe_key)
    from Cons.IH [OF this sub] False show ?thesis by simp
  qed
qed simp

lemma safe_pass_stable:
  "safe_pass ss safe False = (safe', False) \<Longrightarrow> s \<in> set ss \<Longrightarrow> \<not> containsServerOnly (seg_when s) \<Longrightarrow>
    segment_refs (seg_when s) \<subseteq> set safe' \<Longrightarrow> skey s \<in> set safe'"
proof (induction ss)
  case (Cons t ss)
  have same: "safe' = safe" using safe_pass_grows [OF Cons.prems(1)] by blast
  have "snd (safe_pass ss (set_add (skey t) safe) True)"
    using safe_pass_grows [of ss "set_add (skey t) safe" True] by (cases "safe_pass ss (set_add (skey t) safe) True") auto
  then show ?case using Cons same by (auto simp: list_all_iff subset_iff split: if_splits)
qed simp

lemma safe_loop_sound:
  "\<forall>k \<in> set safe. safe_key ss k \<Longrightarrow> \<forall>k \<in> set (safe_loop ss safe). safe_key ss k"
proof (induction ss safe rule: safe_loop.induct)
  case (1 ss safe)
  obtain safe' changed where p: "safe_pass ss safe False = (safe', changed)" by fastforce
  have ok: "\<forall>k \<in> set safe'. safe_key ss k"
    using safe_pass_sound [OF 1(2) order_refl, of False] p by simp
  show ?case
  proof (cases changed)
    case True
    with 1(1) [OF p [symmetric] True ok] p show ?thesis by (subst safe_loop.simps) simp
  next
    case False
    with ok p show ?thesis by (subst safe_loop.simps) simp
  qed
qed

lemma safe_loop_closed:
  "s \<in> set ss \<Longrightarrow> \<not> containsServerOnly (seg_when s) \<Longrightarrow>
    segment_refs (seg_when s) \<subseteq> set (safe_loop ss safe) \<Longrightarrow> skey s \<in> set (safe_loop ss safe)"
proof (induction ss safe rule: safe_loop.induct)
  case (1 ss safe)
  obtain safe' changed where p: "safe_pass ss safe False = (safe', changed)" by fastforce
  show ?case
  proof (cases changed)
    case True
    then have "safe_loop ss safe = safe_loop ss safe'" using p by (subst safe_loop.simps) simp
    with 1(1) [OF p [symmetric] True 1(2,3)] 1(4) show ?thesis by simp
  next
    case False
    then have "safe_loop ss safe = safe'" using p by (subst safe_loop.simps) simp
    with safe_pass_stable [of ss safe safe' s] 1(2-4) p False show ?thesis by simp
  qed
qed

lemma clientSafeSegments_iff: "k \<in> set (clientSafeSegments ss) \<longleftrightarrow> safe_key ss k"
proof
  assume "k \<in> set (clientSafeSegments ss)"
  then show "safe_key ss k" using safe_loop_sound [of "[]" ss] by (auto simp: clientSafeSegments_def)
next
  assume "safe_key ss k"
  then show "k \<in> set (clientSafeSegments ss)"
    by induction (auto simp: clientSafeSegments_def intro: safe_loop_closed)
qed

section \<open>Filtered payloads\<close>

definition segment_dependency :: "segment list \<Rightarrow> (js_string \<times> js_string) set" where
  "segment_dependency ss = {(skey s, r) | s r. s \<in> set ss \<and> r \<in> segment_refs (seg_when s)}"

lemma same_key:
  "distinct (map skey ss) \<Longrightarrow> s \<in> set ss \<Longrightarrow> t \<in> set ss \<Longrightarrow> skey s = skey t \<Longrightarrow> s = t"
  by (simp add: distinct_map inj_on_def)

lemma safe_key_segment:
  assumes "safe_key ss (skey s)" "distinct (map skey ss)" "s \<in> set ss"
  shows "\<not> containsServerOnly (seg_when s) \<and> (\<forall>r \<in> segment_refs (seg_when s). safe_key ss r)"
  using assms by (cases rule: safe_key.cases) (use same_key in blast)+

lemma safe_key_acyclic:
  assumes "safe_key ss k" "distinct (map skey ss)"
  shows "(k, k) \<notin> (segment_dependency ss)\<^sup>+"
  using assms(1)
proof induction
  case (safe_key s)
  show ?case
  proof
    assume "(skey s, skey s) \<in> (segment_dependency ss)\<^sup>+"
    then obtain r where r: "(skey s, r) \<in> segment_dependency ss"
        "(r, skey s) \<in> (segment_dependency ss)\<^sup>*"
      by (meson tranclD)
    then obtain t where "t \<in> set ss" "skey t = skey s" "r \<in> segment_refs (seg_when t)"
      by (auto simp: segment_dependency_def)
    with same_key [OF assms(2)] safe_key(1) have "r \<in> segment_refs (seg_when s)" by metis
    moreover have "(r, r) \<in> (segment_dependency ss)\<^sup>+" using r by (meson rtrancl_into_trancl1)
    ultimately show False using safe_key.IH by blast
  qed
qed

lemma isRuleClientSafe_iff:
  "isRuleClientSafe (clientSafeSegments ss) r \<longleftrightarrow>
    \<not> containsServerOnly (rule_when r) \<and> (\<forall>k \<in> segment_refs (rule_when r). safe_key ss k)"
  by (auto simp: isRuleClientSafe_def list_all_iff clientSafeSegments_iff)

lemma filterSnapshot_simps:
  "segments (filterSnapshotForKey s KindClient)
    = filter (\<lambda>g. safe_key (segments s) (skey g)) (segments s)"
  "flags (filterSnapshotForKey s KindClient)
    = map (filterFlag (clientSafeSegments (segments s))) (flags s)"
  by (simp_all add: filterSnapshotForKey_def Let_def clientSafeSegments_iff)

lemma filterFlag_simps [simp]:
  "fkey (filterFlag safe f) = fkey f" "enabled (filterFlag safe f) = enabled f"
  "salt (filterFlag safe f) = salt f" "variations (filterFlag safe f) = variations f"
  "prerequisites (filterFlag safe f) = prerequisites f" "bucketBy (filterFlag safe f) = bucketBy f"
  "defaultVariationKey (filterFlag safe f) = defaultVariationKey f"
  "offVariationKey (filterFlag safe f) = offVariationKey f"
  "rules (filterFlag safe f) = filter (isRuleClientSafe safe) (rules f)"
  by (simp_all add: filterFlag_def)

lemma safe_key_in: "safe_key ss k \<Longrightarrow> k \<in> skey ` set ss"
  by (induction rule: safe_key.induct) auto

lemma rule_leaks_Nil_iff:
  "rule_leaks ks f r = [] \<longleftrightarrow> \<not> containsServerOnly (rule_when r) \<and> segment_refs (rule_when r) \<subseteq> set ks"
  by (auto simp: rule_leaks_def Let_def filter_empty_conv)

lemma findServerOnlyLeaks_Nil_iff:
  "findServerOnlyLeaks s = [] \<longleftrightarrow>
    (\<forall>g \<in> set (segments s). \<not> containsServerOnly (seg_when g)) \<and>
    (\<forall>f \<in> set (flags s). \<forall>r \<in> set (rules f).
       \<not> containsServerOnly (rule_when r) \<and> segment_refs (rule_when r) \<subseteq> skey ` set (segments s))"
  by (simp add: findServerOnlyLeaks_def filter_empty_conv rule_leaks_Nil_iff)

section \<open>Properties of filtering\<close>

text \<open>
  C6: the iteration of \<open>clientSafeSegments\<close> computes the least fixed point: its keys are exactly the
  inductively safe ones. With one segment per key, a safe segment has no server-only node and is on
  no reference cycle.
\<close>

theorem client_safe_segments_fixpoint:
  assumes "distinct (map skey ss)"
  shows "set (clientSafeSegments ss) = {k. safe_key ss k} \<and>
    (\<forall>s \<in> set ss. skey s \<in> set (clientSafeSegments ss) \<longrightarrow>
      \<not> containsServerOnly (seg_when s) \<and> (skey s, skey s) \<notin> (segment_dependency ss)\<^sup>+)"
  using safe_key_segment [OF _ assms] safe_key_acyclic [OF _ assms] clientSafeSegments_iff by auto

definition public_segment :: segment where
  "public_segment =
     \<lparr>skey = lit ''beta'', seg_when = Condition (lit ''plan'') Eq [AString (lit ''beta'')] ClientVisible\<rparr>"

definition mixed_segments :: "segment list" where
  "mixed_segments =
     [\<lparr>skey = lit ''both'', seg_when = AndNode [SegmentRef (lit ''staff'') False, SegmentRef (lit ''beta'') False]\<rparr>,
      \<lparr>skey = lit ''outer'', seg_when = SegmentRef (lit ''beta'') True\<rparr>, example_segment, public_segment]"

lemma mixed_segments_distinct: "distinct (map skey mixed_segments)"
  by (simp add: mixed_segments_def example_segment_def public_segment_def)

theorem client_safe_segments_fixpoint_witness:
  "set (clientSafeSegments mixed_segments) = {k. safe_key mixed_segments k}"
  by (rule client_safe_segments_fixpoint [OF mixed_segments_distinct, THEN conjunct1])

lemma mixed_segments_safe: "clientSafeSegments mixed_segments = [lit ''beta'', lit ''outer'']"
  by (simp add: clientSafeSegments_def safe_loop.simps mixed_segments_def example_segment_def
      public_segment_def set_add_def)

lemma findServerOnlyLeaks_client:
  assumes "distinct (map skey (segments s))"
  shows "findServerOnlyLeaks (filterSnapshotForKey s KindClient) = []"
  using safe_key_segment [OF _ assms] safe_key_in [of "segments s"]
  by (fastforce simp: findServerOnlyLeaks_Nil_iff filterSnapshot_simps isRuleClientSafe_iff)

text \<open>
  C4: with one segment per key, the payload of a client key has no server-only node and no dangling
  reference: the defence-in-depth check finds nothing to report.
\<close>

theorem client_payload_has_no_leaks:
  assumes "distinct (map skey (segments s))"
  shows "findServerOnlyLeaks (filterSnapshotForKey s KindClient) = []"
  using assms by (rule findServerOnlyLeaks_client)

theorem client_payload_has_no_leaks_witness:
  "findServerOnlyLeaks (filterSnapshotForKey (example_snapshot\<lparr>segments := mixed_segments\<rparr>) KindClient) = []"
  by (rule client_payload_has_no_leaks) (simp add: mixed_segments_distinct)

text \<open>
  With two segments of one key, one of them safe, the filter keeps both: the safe set holds keys.
\<close>

lemma duplicate_segment_key_leaks:
  "findServerOnlyLeaks (filterSnapshotForKey
     (example_snapshot\<lparr>flags := [], segments := [example_segment, public_segment\<lparr>skey := skey example_segment\<rparr>]\<rparr>)
     KindClient) \<noteq> []"
  by (simp add: findServerOnlyLeaks_Nil_iff filterSnapshotForKey_def Let_def clientSafeSegments_def
      safe_loop.simps example_segment_def public_segment_def set_add_def example_snapshot_def)

lemma client_segment_lookup:
  "safe_key (segments s) k \<Longrightarrow>
    map_get (env_segments (indexSnapshot (filterSnapshotForKey s KindClient))) k
      = map_get (env_segments (indexSnapshot s)) k"
proof -
  assume k: "safe_key (segments s) k"
  have "find (\<lambda>g. skey g = k) (rev (filter (\<lambda>g. safe_key (segments s) (skey g)) xs))
      = find (\<lambda>g. skey g = k) (rev xs)" for xs
    using k by (induction xs) (auto simp: find_snoc split: option.splits)
  from this [of "segments s"] show ?thesis
    by (simp only: indexSnapshot_def map_of_index_by filterSnapshot_simps evaluation_environment.simps)
qed

lemma segment_lookup_in:
  "map_get (env_segments (indexSnapshot s)) k = Some g \<Longrightarrow> g \<in> set (segments s) \<and> skey g = k"
  by (auto simp: indexSnapshot_def dest: index_by_SomeD)

lemma matchNode_client:
  assumes "distinct (map skey (segments s))"
    and "\<forall>k \<in> segment_refs node. safe_key (segments s) k"
  shows "matchNode regex c (indexSnapshot (filterSnapshotForKey s KindClient)) seen node
    = matchNode regex c (indexSnapshot s) seen node"
  using assms(2)
proof (induction regex c "indexSnapshot s" seen node rule: matchNode.induct)
  case (5 regex c seen k negated)
  have "matchNode regex c (indexSnapshot (filterSnapshotForKey s KindClient)) (k # seen) (seg_when g)
      = matchNode regex c (indexSnapshot s) (k # seen) (seg_when g)"
    if "k \<notin> set seen" "map_get (env_segments (indexSnapshot s)) k = Some g" for g
  proof (rule 5(1) [OF that])
    from segment_lookup_in [OF that(2)] have "g \<in> set (segments s)" "skey g = k" by auto
    with safe_key_segment [of "segments s" g] assms(1) 5(2)
    show "\<forall>r \<in> segment_refs (seg_when g). safe_key (segments s) r" by auto
  qed
  with 5(2) client_segment_lookup [of s k] show ?case by (simp split: option.splits)
qed (auto simp: list_all_iff list_ex_iff)

text \<open>
  C5: what a client keeps, it evaluates as the server does: a rule of a client payload matches a
  context on the client exactly when it matches on the server, whatever segments it uses.
\<close>

theorem client_rules_match_as_on_server:
  assumes "distinct (map skey (segments s))"
    and "f \<in> set (flags (filterSnapshotForKey s KindClient))" "r \<in> set (rules f)"
  shows "matchNode regex c (indexSnapshot (filterSnapshotForKey s KindClient)) [] (rule_when r)
    = matchNode regex c (indexSnapshot s) [] (rule_when r)"
  using assms(2,3) by (intro matchNode_client [OF assms(1)])
    (auto simp: filterSnapshot_simps isRuleClientSafe_iff)

definition mixed_snapshot :: ruleset_snapshot where
  "mixed_snapshot =
     example_snapshot\<lparr>flags := [example_flag\<lparr>rules :=
        rules example_flag @ [\<lparr>rule_id = lit ''beta'', description = [],
          rule_when = SegmentRef (lit ''outer'') False, rule_serve = ServeVariation (lit ''on'')\<rparr>]\<rparr>],
      segments := mixed_segments\<rparr>"

theorem client_rules_match_as_on_server_witness:
  "matchNode no_regex example_context (indexSnapshot (filterSnapshotForKey mixed_snapshot KindClient)) []
     (rule_when (rules (hd (flags mixed_snapshot)) ! 2))
    = matchNode no_regex example_context (indexSnapshot mixed_snapshot) []
        (rule_when (rules (hd (flags mixed_snapshot)) ! 2))"
proof (rule client_rules_match_as_on_server)
  show "distinct (map skey (segments mixed_snapshot))"
    using mixed_segments_distinct by (simp add: mixed_snapshot_def)
  let ?f = "filterFlag [lit ''beta'', lit ''outer''] (hd (flags mixed_snapshot))"
  show "?f \<in> set (flags (filterSnapshotForKey mixed_snapshot KindClient))"
    by (simp add: filterSnapshotForKey_def Let_def mixed_snapshot_def mixed_segments_safe)
  show "rules (hd (flags mixed_snapshot)) ! 2 \<in> set (rules ?f)"
    by (simp add: mixed_snapshot_def example_flag_def isRuleClientSafe_def set_add_def)
qed

lemma find_map_filterFlag:
  "find (\<lambda>f. fkey f = k) (rev (map (filterFlag safe) fs))
    = map_option (filterFlag safe) (find (\<lambda>f. fkey f = k) (rev fs))"
  by (induction fs) (auto simp: find_snoc split: option.splits)

lemma client_flag_lookup:
  "map_get (env_flags (indexSnapshot s)) k = Some (compile_flag f) \<Longrightarrow>
    map_get (env_flags (indexSnapshot (filterSnapshotForKey s KindClient))) k
      = Some (compile_flag (filterFlag (clientSafeSegments (segments s)) f))"
  by (auto simp: indexSnapshot_def map_of_index_by filterSnapshot_simps find_map_filterFlag
      compile_flag_def)

lemma serve_rule_filterFlag:
  "serve_rule c (compile_flag (filterFlag safe f)) fallback r = serve_rule c (compile_flag f) fallback r"
  by (simp add: serve_rule_def resultFor_def compile_flag_def resolveBucketKey_def Let_def
      split: serve.split option.split)

text \<open>
  On the client a flag without prerequisites is decided by the first client-safe rule that
  matches on the server, and by the default when there is none.
\<close>

lemma client_evaluation_uses_kept_rules:
  assumes "distinct (map skey (segments s))"
    and "map_get (env_flags (indexSnapshot s)) k = Some (compile_flag f)"
    and "enabled f" "prerequisites f = []"
  shows "evaluateFlag regex k c (indexSnapshot (filterSnapshotForKey s KindClient)) fallback =
    (case first_match regex c (indexSnapshot s)
            (filter (isRuleClientSafe (clientSafeSegments (segments s))) (rules f)) of
       None \<Rightarrow> resultFor (compile_flag f) (defaultVariationKey f) RDefault fallback None
     | Some r \<Rightarrow> serve_rule c (compile_flag f) fallback r)"
proof -
  let ?safe = "clientSafeSegments (segments s)"
  let ?kept = "filter (isRuleClientSafe ?safe) (rules f)"
  have "first_match regex c (indexSnapshot (filterSnapshotForKey s KindClient)) ?kept
      = first_match regex c (indexSnapshot s) ?kept"
    unfolding first_match_def
    by (rule find_cong [OF refl]) (simp_all add: isRuleClientSafe_iff matchNode_client [OF assms(1)])
  moreover have "resultFor (compile_flag (filterFlag ?safe f)) (defaultVariationKey f) RDefault fallback None
      = resultFor (compile_flag f) (defaultVariationKey f) RDefault fallback None"
    by (simp add: resultFor_def compile_flag_def)
  ultimately show ?thesis
    using client_flag_lookup [OF assms(2)] assms(3,4)
    by (simp add: evaluateFlag_def evaluateInternal.simps evaluate_rules_first_match
        serve_rule_filterFlag split: option.split)
qed

lemma client_evaluation_uses_kept_rules_witness:
  "evaluateFlag no_regex (fkey example_flag) example_context
      (indexSnapshot (filterSnapshotForKey example_snapshot KindClient)) JNull =
    (case first_match no_regex example_context (indexSnapshot example_snapshot)
            (filter (isRuleClientSafe (clientSafeSegments (segments example_snapshot))) (rules example_flag)) of
       None \<Rightarrow> resultFor (compile_flag example_flag) (defaultVariationKey example_flag) RDefault JNull None
     | Some r \<Rightarrow> serve_rule example_context (compile_flag example_flag) JNull r)"
proof (rule client_evaluation_uses_kept_rules [OF _ example_flag_indexed])
  show "distinct (map skey (segments example_snapshot))" by (simp add: example_snapshot_def)
qed (simp_all add: example_flag_def)

text \<open>
  Dropping a rule that excludes people includes them: with a server-only rule that serves \<open>off\<close> and
  the default \<open>on\<close>, the client serves \<open>on\<close> where the server serves \<open>off\<close>.
\<close>

definition deny_snapshot :: ruleset_snapshot where
  "deny_snapshot =
     example_snapshot\<lparr>flags := [example_flag\<lparr>defaultVariationKey := lit ''on'',
       rules := [\<lparr>rule_id = lit ''deny'', description = [],
         rule_when = Condition (lit ''key'') Eq [AString (lit ''abcde'')] ServerOnly,
         rule_serve = ServeVariation (lit ''off'')\<rparr>]\<rparr>], segments := []\<rparr>"

lemma client_can_be_more_included:
  "rvariationKey (evaluateFlag no_regex (fkey example_flag) example_context
      (indexSnapshot deny_snapshot) JNull) = lit ''off''
    \<and> rvariationKey (evaluateFlag no_regex (fkey example_flag) example_context
      (indexSnapshot (filterSnapshotForKey deny_snapshot KindClient)) JNull) = lit ''on''"
  by (simp add: evaluateFlag_def evaluateInternal.simps indexSnapshot_def deny_snapshot_def
      example_snapshot_def index_by_def compile_flag_def example_flag_def resultFor_def
      applyOperator_def resolveAttribute_def example_context_def filterSnapshotForKey_def Let_def
      clientSafeSegments_def safe_loop.simps filterFlag_def isRuleClientSafe_def)

lemma safe_key_filter:
  "safe_key (filter (\<lambda>g. safe_key ss (skey g)) ss) k \<longleftrightarrow> safe_key ss k"
proof
  assume "safe_key (filter (\<lambda>g. safe_key ss (skey g)) ss) k"
  from safe_key_in [OF this] show "safe_key ss k" by auto
next
  assume "safe_key ss k"
  then show "safe_key (filter (\<lambda>g. safe_key ss (skey g)) ss) k"
  proof induction
    case (safe_key s)
    have "safe_key ss (skey s)" using safe_key(1,2,3) by (rule safe_key.safe_key)
    with safe_key show ?case by (intro safe_key.safe_key) auto
  qed
qed

text \<open>
  Filtering is idempotent: filtering a payload a second time, for either kind of key, changes
  nothing unless the first time was for a server key, so no order of filters reveals more.
\<close>

lemma filtering_twice:
  "filterSnapshotForKey (filterSnapshotForKey s kind) kind' =
    filterSnapshotForKey s (if kind = KindServer then kind' else KindClient)"
proof (cases "kind = KindServer \<or> kind' = KindServer")
  case True
  then show ?thesis by (cases kind) (auto simp: filterSnapshotForKey_def)
next
  case False
  then have kinds: "kind = KindClient" "kind' = KindClient"
    using KeyKind.exhaust by blast+
  let ?c = "filterSnapshotForKey s KindClient"
  have safe: "safe_key (segments ?c) k \<longleftrightarrow> safe_key (segments s) k" for k
    by (simp add: filterSnapshot_simps safe_key_filter)
  have "isRuleClientSafe (clientSafeSegments (segments ?c)) = isRuleClientSafe (clientSafeSegments (segments s))"
    by (intro ext) (simp add: isRuleClientSafe_iff safe)
  then have "filterFlag (clientSafeSegments (segments ?c)) (filterFlag (clientSafeSegments (segments s)) f)
      = filterFlag (clientSafeSegments (segments s)) f" for f
    by (simp add: filterFlag_def)
  then have "flags (filterSnapshotForKey ?c KindClient) = flags ?c"
    by (simp add: filterSnapshot_simps(2))
  moreover have "segments (filterSnapshotForKey ?c KindClient) = segments ?c"
    unfolding filterSnapshot_simps(1) [of ?c] by (simp only: safe) (simp add: filterSnapshot_simps)
  moreover have "environmentKey (filterSnapshotForKey ?c KindClient) = environmentKey ?c"
    "version (filterSnapshotForKey ?c KindClient) = version ?c"
    "servedAt (filterSnapshotForKey ?c KindClient) = servedAt ?c"
    by (simp_all add: filterSnapshotForKey_def Let_def)
  ultimately have "filterSnapshotForKey ?c KindClient = ?c" by simp
  then show ?thesis by (simp add: kinds)
qed

end
