(* ===== verification/Keys.thy ===== *)
theory Keys
  imports Visibility
begin

text \<open>
  \<open>apps/control-plane/src/keys.ts\<close>: SDK keys. SHA-256 and the random bytes of \<open>node:crypto\<close> are
  parameters; the hex and base64url codecs and the way \<open>Buffer.from(s, 'hex')\<close> stops at the first
  invalid pair are modelled. The constant time of the comparison is not.
\<close>

definition PREFIX_LENGTH :: nat where "PREFIX_LENGTH = 12"
definition SECRET_BYTES :: nat where "SECRET_BYTES = 32"

record generated_api_key =
  plaintext :: js_string
  key_prefix :: js_string
  key_hash :: js_string
  key_kind :: KeyKind

text \<open>The scope of an SDK key, as \<open>repository.ts\<close> resolves it.\<close>

record authenticated_key =
  tenantId :: js_string
  environmentId :: js_string
  scope_environmentKey :: js_string
  scope_kind :: KeyKind
  apiKeyId :: js_string

definition label :: "KeyKind \<Rightarrow> js_string" where
  "label kind = (if kind = KindClient then lit ''fs_client_'' else lit ''fs_server_'')"

section \<open>Codecs\<close>

definition hex_char :: "8 word \<Rightarrow> 16 word" where
  "hex_char n = (if n < 10 then 0x30 + ucast n else 0x57 + ucast n)"

definition hex_encode :: "8 word list \<Rightarrow> js_string" where
  "hex_encode bs = concat (map (\<lambda>b. [hex_char (b div 16), hex_char (b mod 16)]) bs)"

definition hex_value :: "16 word \<Rightarrow> 8 word option" where
  "hex_value c =
     (if 0x30 \<le> c \<and> c \<le> 0x39 then Some (ucast (c - 0x30))
      else if 0x61 \<le> c \<and> c \<le> 0x66 then Some (ucast (c - 0x57))
      else if 0x41 \<le> c \<and> c \<le> 0x46 then Some (ucast (c - 0x37))
      else None)"

text \<open>\<open>Buffer.from(s, 'hex')\<close>: it never throws, and decodes the pairs before the first invalid one.\<close>

fun hex_decode :: "js_string \<Rightarrow> 8 word list" where
  "hex_decode (c # d # cs) =
     (case (hex_value c, hex_value d) of
        (Some h, Some l) \<Rightarrow> (16 * h + l) # hex_decode cs
      | _ \<Rightarrow> [])"
| "hex_decode cs = []"

definition base64url_char :: "nat \<Rightarrow> 16 word" where
  "base64url_char n =
     lit ''ABCDEFGHIJKLMNOPQRSTUVWXYZabcdefghijklmnopqrstuvwxyz0123456789-_'' ! n"

text \<open>\<open>toString('base64url')\<close>: three bytes make four characters, and there is no padding.\<close>

fun base64url :: "8 word list \<Rightarrow> js_string" where
  "base64url [] = []"
| "base64url [a] = [base64url_char (unat a div 4), base64url_char (unat a mod 4 * 16)]"
| "base64url [a, b] =
     [base64url_char (unat a div 4), base64url_char (unat a mod 4 * 16 + unat b div 16),
      base64url_char (unat b mod 16 * 4)]"
| "base64url (a # b # c # bs) =
     base64url_char (unat a div 4) # base64url_char (unat a mod 4 * 16 + unat b div 16) #
     base64url_char (unat b mod 16 * 4 + unat c div 64) # base64url_char (unat c mod 64) # base64url bs"

section \<open>Keys\<close>

definition hashApiKey :: "(8 word list \<Rightarrow> 8 word list) \<Rightarrow> js_string \<Rightarrow> js_string" where
  "hashApiKey sha256 key = hex_encode (sha256 (utf8 key))"

definition keyPrefix :: "js_string \<Rightarrow> js_string" where
  "keyPrefix key = take PREFIX_LENGTH key"

definition generateApiKey :: "(8 word list \<Rightarrow> 8 word list) \<Rightarrow> 8 word list \<Rightarrow> KeyKind \<Rightarrow> generated_api_key" where
  "generateApiKey sha256 randomBytes kind =
     (let secret = base64url randomBytes; text = label kind @ secret in
      \<lparr>plaintext = text, key_prefix = take PREFIX_LENGTH text, key_hash = hashApiKey sha256 text,
       key_kind = kind\<rparr>)"

definition keyKindOf :: "js_string \<Rightarrow> KeyKind option" where
  "keyKindOf key =
     (if starts_with key (lit ''fs_client_'') then Some KindClient
      else if starts_with key (lit ''fs_server_'') then Some KindServer
      else None)"

definition verifyApiKey :: "(8 word list \<Rightarrow> 8 word list) \<Rightarrow> js_string \<Rightarrow> js_string \<Rightarrow> bool" where
  "verifyApiKey sha256 key expectedHash =
     (let actual = hex_decode (hashApiKey sha256 key); expected = hex_decode expectedHash in
      if length actual \<noteq> length expected then False else actual = expected)"

section \<open>Round trips\<close>

lemma hex_value_char: "n < 16 \<Longrightarrow> hex_value (hex_char n) = Some n"
proof -
  have "\<forall>n \<in> set (map of_nat [0..<16]). hex_value (hex_char n) = Some (n :: 8 word)"
    by code_simp
  moreover assume "n < 16"
  then have "n \<in> set (map of_nat [0..<16])"
    by (intro image_eqI [of _ _ "unat n", THEN subsetD [OF eq_refl, OF set_map [symmetric]]])
      (simp_all add: word_less_nat_alt)
  ultimately show ?thesis by blast
qed

lemma hex_roundtrip: "hex_decode (hex_encode bs) = bs"
proof (induction bs)
  case (Cons b bs)
  have "unat b < 256" using unsigned_less [of b] by simp
  then have "b div 16 < 16" "b mod 16 < 16" "16 * (b div 16) + b mod 16 = b"
    by (simp_all add: word_less_nat_alt unat_div unat_mod less_mult_imp_div_less mult_div_mod_eq)
  then show ?case using Cons by (simp add: hex_encode_def hex_value_char)
qed (simp add: hex_encode_def)

lemma verifyApiKey_iff: "verifyApiKey sha256 key h \<longleftrightarrow> hex_decode h = sha256 (utf8 key)"
  by (auto simp: verifyApiKey_def hashApiKey_def hex_roundtrip Let_def)

section \<open>Generated keys\<close>

lemma base64url_char_ascii: "n < 64 \<Longrightarrow> base64url_char n < 0x80"
proof -
  have "\<forall>c \<in> set (lit ''ABCDEFGHIJKLMNOPQRSTUVWXYZabcdefghijklmnopqrstuvwxyz0123456789-_''). c < 0x80"
    by code_simp
  moreover assume "n < 64"
  then have "base64url_char n \<in> set (lit ''ABCDEFGHIJKLMNOPQRSTUVWXYZabcdefghijklmnopqrstuvwxyz0123456789-_'')"
    unfolding base64url_char_def by (intro nth_mem) (simp add: lit_def)
  ultimately show ?thesis by blast
qed

lemma base64url_ascii: "\<forall>c \<in> set (base64url bs). c < 0x80"
proof (induction bs rule: base64url.induct)
  case (2 a)
  have "unat a < 256" using unsigned_less [of a] by simp
  then show ?case by (auto intro!: base64url_char_ascii)
next
  case (3 a b)
  have "unat a < 256" "unat b < 256" using unsigned_less [of a] unsigned_less [of b] by simp_all
  then show ?case by (auto intro!: base64url_char_ascii)
next
  case (4 a b c bs)
  have "unat a < 256" "unat b < 256" "unat c < 256"
    using unsigned_less [of a] unsigned_less [of b] unsigned_less [of c] by simp_all
  then show ?case using 4 by (auto intro!: base64url_char_ascii)
qed simp

lemma base64url_length: "3 * length (base64url bs) = 4 * length bs + (if length bs mod 3 = 0 then 0 else if length bs mod 3 = 1 then 2 else 1)"
  by (induction bs rule: base64url.induct) (auto simp: mod_Suc split: if_splits)

lemma label_ascii: "\<forall>c \<in> set (label kind). c < 0x80"
  by (cases kind) (simp_all add: label_def lit_def)

lemma plaintext_ascii: "\<forall>c \<in> set (plaintext (generateApiKey sha256 rb kind)). c < 0x80"
  using label_ascii base64url_ascii by (auto simp: generateApiKey_def Let_def)

text \<open>The strings whose UTF-8 is ASCII.\<close>

lemma code_point_bounds:
  "is_high u \<Longrightarrow> is_low v \<Longrightarrow> 0x10000 \<le> code_point u v \<and> code_point u v < 0x110000"
  by (auto simp: is_high_def is_low_def code_point_def word_le_def)

lemma code_points_range: "\<forall>c \<in> set (code_points s). 0 \<le> c \<and> c < 0x110000"
proof (induction s rule: code_points.induct)
  case (2 u)
  have "uint u < 65536" using unsigned_less [of u] by simp
  then show ?case by simp
next
  case (3 u v us)
  have "uint u < 65536" using unsigned_less [of u] by simp
  then show ?case using 3 code_point_bounds [of u v] by auto
qed simp

lemma utf8_bytes_high:
  assumes "0x80 \<le> c" "c < 0x110000" shows "\<exists>b \<in> set (utf8_bytes c). 0x80 \<le> b"
proof -
  have high: "(0x80 :: 8 word) \<le> word_of_int i" if "0x80 \<le> i" "i < 256" for i
    using that by (simp add: word_le_def uint_word_of_int)
  consider "c < 0x800" | "0x800 \<le> c" "c < 0x10000" | "0x10000 \<le> c" by linarith
  then show ?thesis
  proof cases
    case 1
    then have "(0x80 :: 8 word) \<le> word_of_int (0xC0 + c div 0x40)" using assms by (intro high) auto
    with 1 assms show ?thesis by (simp add: utf8_bytes_def)
  next
    case 2
    then have "(0x80 :: 8 word) \<le> word_of_int (0xE0 + c div 0x1000)" using assms by (intro high) auto
    with 2 assms show ?thesis by (simp add: utf8_bytes_def)
  next
    case 3
    then have "(0x80 :: 8 word) \<le> word_of_int (0xF0 + c div 0x40000)" using assms by (intro high) auto
    with 3 assms show ?thesis by (simp add: utf8_bytes_def)
  qed
qed

lemma ascii_code_points: "\<forall>c \<in> set (code_points s). c < 0x80 \<Longrightarrow> \<forall>u \<in> set s. u < 0x80"
proof (induction s rule: code_points.induct)
  case (2 u)
  then show ?case by (auto simp: word_less_alt split: if_splits)
next
  case (3 u v us)
  show ?case
  proof (cases "is_high u \<and> is_low v")
    case True
    with 3(3) code_point_bounds [of u v] show ?thesis by auto
  next
    case False
    with 3 show ?thesis by (auto simp: word_less_alt split: if_splits)
  qed
qed simp

lemma utf8_ascii_only: "\<forall>b \<in> set (utf8 s). b < 0x80 \<Longrightarrow> \<forall>u \<in> set s. u < 0x80"
proof (rule ascii_code_points, rule ballI)
  fix c assume all: "\<forall>b \<in> set (utf8 s). b < 0x80" and c: "c \<in> set (code_points s)"
  show "c < 0x80"
  proof (rule ccontr)
    assume "\<not> c < 0x80"
    with code_points_range c utf8_bytes_high [of c] obtain b where "b \<in> set (utf8_bytes c)" "0x80 \<le> b"
      by (meson not_less)
    moreover from this c have "b \<in> set (utf8 s)" by (auto simp: utf8_def)
    ultimately show False using all by (auto simp: not_less [symmetric])
  qed
qed

lemma utf8_eq_ascii:
  assumes "\<forall>u \<in> set t. u < 0x80" "utf8 s = utf8 t" shows "s = t"
proof -
  have "(ucast u :: 8 word) < 0x80" if "u < 0x80" for u :: "16 word"
    using that unat_ucast_ascii [OF that] by (simp add: word_less_nat_alt)
  then have ascii: "\<forall>u \<in> set s. u < 0x80"
    using assms utf8_ascii_only [of s] by (auto simp: utf8_ascii)
  have inj: "inj_on (ucast :: 16 word \<Rightarrow> 8 word) (set s \<union> set t)"
  proof (rule inj_onI)
    fix x y :: "16 word" assume xy: "x \<in> set s \<union> set t" "y \<in> set s \<union> set t" "(ucast x :: 8 word) = ucast y"
    with ascii assms(1) have "x < 0x80" "y < 0x80" by auto
    with unat_ucast_ascii [of x] unat_ucast_ascii [of y] xy(3) show "x = y"
      by (simp add: word_unat_eq_iff)
  qed
  have "map (ucast :: 16 word \<Rightarrow> 8 word) s = map ucast t"
    using assms(2) by (simp only: utf8_ascii [OF ascii] utf8_ascii [OF assms(1)])
  then show ?thesis using inj by (rule map_inj_on)
qed

section \<open>Properties of keys\<close>

text \<open>
  A generated key authenticates: its stored hash verifies it, its stored prefix is the one looked
  up for it, its label says its kind, and with 32 random bytes it has 53 characters.
\<close>

lemma generated_key_verifies:
  "let g = generateApiKey sha256 randomBytes kind in
     verifyApiKey sha256 (plaintext g) (key_hash g) \<and> key_prefix g = keyPrefix (plaintext g)
     \<and> keyKindOf (plaintext g) = Some kind
     \<and> length (plaintext g) = 10 + length (base64url randomBytes)
     \<and> 3 * length (base64url randomBytes) = 4 * length randomBytes +
         (if length randomBytes mod 3 = 0 then 0 else if length randomBytes mod 3 = 1 then 2 else 1)"
proof -
  have "keyKindOf (label kind @ s) = Some kind" "length (label kind) = 10" for s
    by (cases kind; simp add: keyKindOf_def label_def lit_def)+
  then show ?thesis
    by (simp add: Let_def generateApiKey_def verifyApiKey_iff hashApiKey_def hex_roundtrip keyPrefix_def
        base64url_length)
qed

text \<open>
  Only the key itself verifies: when no other byte string has the SHA-256 of a generated key, a
  presented string is accepted for its stored hash exactly when it is that key, also against strings
  with surrogates or any other characters.
\<close>

lemma only_the_key_verifies:
  assumes "\<forall>bytes. sha256 bytes = sha256 (utf8 (plaintext (generateApiKey sha256 randomBytes kind))) \<longrightarrow>
      bytes = utf8 (plaintext (generateApiKey sha256 randomBytes kind))"
  shows "verifyApiKey sha256 key (key_hash (generateApiKey sha256 randomBytes kind)) \<longleftrightarrow>
    key = plaintext (generateApiKey sha256 randomBytes kind)"
proof -
  let ?p = "plaintext (generateApiKey sha256 randomBytes kind)"
  have "verifyApiKey sha256 key (key_hash (generateApiKey sha256 randomBytes kind)) \<longleftrightarrow>
      sha256 (utf8 ?p) = sha256 (utf8 key)"
    by (simp add: verifyApiKey_iff generateApiKey_def Let_def hashApiKey_def hex_roundtrip)
  also have "\<dots> \<longleftrightarrow> utf8 key = utf8 ?p" using assms by metis
  also have "\<dots> \<longleftrightarrow> key = ?p" using utf8_eq_ascii [OF plaintext_ascii] by metis
  finally show ?thesis .
qed

lemma only_the_key_verifies_witness:
  "verifyApiKey id (lit ''guess'') (key_hash (generateApiKey id [1, 2, 3] KindServer)) \<longleftrightarrow>
    lit ''guess'' = plaintext (generateApiKey id [1, 2, 3] KindServer)"
  by (rule only_the_key_verifies) simp

text \<open>
  The stored prefix holds the label and the first two characters of the secret only: all keys of a
  kind share 4096 prefixes.
\<close>

lemma key_prefix_is_short:
  "key_prefix (generateApiKey sha256 randomBytes kind) = label kind @ take 2 (base64url randomBytes)"
  by (cases kind) (simp_all add: generateApiKey_def Let_def PREFIX_LENGTH_def label_def lit_def)

end
