(* ===== verification/Dates.thy ===== *)
theory Dates
  imports Js_Number
begin

text \<open>
  \<open>Date.prototype.toISOString\<close>, by which rows and messages carry an instant: an instant is an
  integer number of milliseconds since the epoch.
\<close>

text \<open>\<open>Date.prototype.toISOString\<close> of a valid time value: the proleptic Gregorian calendar in UTC.\<close>

definition civil_date :: "int \<Rightarrow> int \<times> int \<times> int" where
  "civil_date days =
     (let z = days + 719468; era = z div 146097; doe = z mod 146097;
          yoe = (doe - doe div 1460 + doe div 36524 - doe div 146096) div 365;
          doy = doe - (365 * yoe + yoe div 4 - yoe div 100);
          mp = (5 * doy + 2) div 153;
          month = (if mp < 10 then mp + 3 else mp - 9)
      in (yoe + era * 400 + (if month \<le> 2 then 1 else 0), month, doy - (153 * mp + 2) div 5 + 1))"

definition pad_number :: "nat \<Rightarrow> int \<Rightarrow> js_string" where
  "pad_number width n =
     (let ds = show_nat (nat n) in replicate (width - length ds) (of_char CHR ''0'') @ ds)"

definition year_text :: "int \<Rightarrow> js_string" where
  "year_text y =
     (if 0 \<le> y \<and> y \<le> 9999 then pad_number 4 y
      else if y < 0 then lit ''-'' @ pad_number 6 (- y)
      else lit ''+'' @ pad_number 6 y)"

definition toISOString :: "int \<Rightarrow> js_string" where
  "toISOString t =
     (let (y, m, d) = civil_date (t div 86400000); ms = t mod 86400000 in
      year_text y @ lit ''-'' @ pad_number 2 m @ lit ''-'' @ pad_number 2 d @ lit ''T'' @
      pad_number 2 (ms div 3600000) @ lit '':'' @ pad_number 2 (ms div 60000 mod 60) @ lit '':'' @
      pad_number 2 (ms div 1000 mod 60) @ lit ''.'' @ pad_number 3 (ms mod 1000) @ lit ''Z'')"

end
