(* ===== verification/Js_Math.thy ===== *)
theory Js_Math
  imports Js_Number
begin

text \<open>
  The arithmetic of JavaScript numbers with the operators of the library, for the numerical code of
  the statistics: \<open>+\<close>, \<open>-\<close>, \<open>*\<close>, \<open>/\<close>, \<open><\<close> and \<open>\<le>\<close> are those of the language, with
  the rounding of binary64. ECMAScript leaves \<open>Math.exp\<close>, \<open>log\<close>, \<open>sqrt\<close>, \<open>sin\<close> and
  \<open>pow\<close> to the implementation, so they are parameters of the definitions that call them. As in
  \<open>Js_Number\<close> there is one zero.
\<close>

section \<open>Operators\<close>

fun num_mul :: "js_number \<Rightarrow> js_number \<Rightarrow> js_number" where
  "num_mul (Fin a) (Fin b) = round_double (a * b)"
| "num_mul NaN y = NaN"
| "num_mul x NaN = NaN"
| "num_mul (Fin a) y = (if a = 0 then NaN else if (0 < a) = (y = PosInf) then PosInf else NegInf)"
| "num_mul x (Fin b) = (if b = 0 then NaN else if (0 < b) = (x = PosInf) then PosInf else NegInf)"
| "num_mul x y = (if x = y then PosInf else NegInf)"

instantiation js_number :: "{plus, minus, times, uminus, inverse, zero, one, ord}"
begin

definition "x + y = num_add x y"
definition "x - y = num_sub x y"
definition "x * y = num_mul x y"
definition "- x = num_neg x"
definition "x div y = num_div x y"
definition "inverse x = num_div (Fin 1) x"
definition "(0 :: js_number) = Fin 0"
definition "(1 :: js_number) = Fin 1"
definition "x < y = num_lt x y"
definition "x \<le> y = num_le x y"

instance ..

end

lemmas js_arith = plus_js_number_def minus_js_number_def times_js_number_def uminus_js_number_def
  divide_js_number_def zero_js_number_def one_js_number_def less_js_number_def less_eq_js_number_def

text \<open>A numeral of the source, rounded when it is read.\<close>

abbreviation num :: "rat \<Rightarrow> js_number" where
  "num q \<equiv> round_double q"

record math =
  math_exp :: "js_number \<Rightarrow> js_number"
  math_log :: "js_number \<Rightarrow> js_number"
  math_sqrt :: "js_number \<Rightarrow> js_number"
  math_sin :: "js_number \<Rightarrow> js_number"
  math_pow :: "js_number \<Rightarrow> js_number \<Rightarrow> js_number"

fun math_abs :: "js_number \<Rightarrow> js_number" where
  "math_abs (Fin a) = Fin \<bar>a\<bar>"
| "math_abs NegInf = PosInf"
| "math_abs x = x"

fun math_ceil :: "js_number \<Rightarrow> js_number" where
  "math_ceil (Fin a) = Fin (of_int \<lceil>a\<rceil>)"
| "math_ceil x = x"

fun math_floor :: "js_number \<Rightarrow> js_number" where
  "math_floor (Fin a) = Fin (of_int \<lfloor>a\<rfloor>)"
| "math_floor x = x"

definition math_PI :: js_number where
  "math_PI = num 3.1415926535897932"

definition math_SQRT2 :: js_number where
  "math_SQRT2 = num 1.4142135623730951"

definition number_EPSILON :: js_number where
  "number_EPSILON = Fin (1 / 2 ^ 52)"

section \<open>Signs\<close>

lemma round_double_minus: "round_double (- x) = - round_double x"
proof -
  have "\<not> max_pow \<le> 0" using max_pow_gt by (simp add: not_le)
  then show ?thesis by (auto simp: round_double_def uminus_js_number_def)
qed

lemma js_minus_minus [simp]: "- (- x) = (x :: js_number)"
  by (cases x) (simp_all add: uminus_js_number_def)

lemma js_minus_Fin [simp]: "- Fin a = Fin (- a)"
  by (simp add: uminus_js_number_def)

lemma js_minus_special [simp]: "- NaN = NaN" "- PosInf = NegInf" "- NegInf = PosInf"
  by (simp_all add: uminus_js_number_def)

lemma js_add_commute: "x + y = y + (x :: js_number)"
  by (cases x; cases y) (simp_all add: plus_js_number_def add.commute)

lemma js_mult_commute: "x * y = y * (x :: js_number)"
  by (cases x; cases y) (auto simp: times_js_number_def mult.commute)

lemma js_diff_eq: "x - y = x + - (y :: js_number)"
  by (simp add: js_arith num_sub_def)

lemma js_minus_add: "- (x + y) = - x + - (y :: js_number)"
  by (cases x; cases y) (simp_all add: js_arith round_double_minus [unfolded uminus_js_number_def, symmetric])

lemma js_minus_diff: "- (x - y) = y - (x :: js_number)"
  by (simp add: js_diff_eq js_minus_add js_add_commute)

lemma js_minus_mult: "- x * y = - (x * (y :: js_number))"
  by (cases x; cases y) (auto simp: js_arith round_double_minus [unfolded uminus_js_number_def, symmetric])

lemma js_mult_minus_minus: "- x * - y = x * (y :: js_number)"
  by (metis js_minus_mult js_mult_commute js_minus_minus)

lemma js_minus_divide: "- x / y = - (x / (y :: js_number))"
  by (cases x; cases y) (auto simp: js_arith round_double_minus [unfolded uminus_js_number_def, symmetric])

lemma math_abs_minus [simp]: "math_abs (- x) = math_abs x"
  by (cases x) simp_all

lemma js_minus_eq_0 [simp]: "- x = Fin 0 \<longleftrightarrow> x = Fin 0"
  by (cases x) simp_all

section \<open>Order\<close>

lemma js_le_Fin [simp]: "Fin a \<le> Fin b \<longleftrightarrow> a \<le> b" "Fin a < Fin b \<longleftrightarrow> a < b"
  by (simp_all add: js_arith)

lemma js_less_special [simp]:
  "\<not> NaN < x" "\<not> x < NaN" "\<not> PosInf < x" "Fin a < PosInf" "NegInf < PosInf" "NegInf < Fin a" "\<not> x < NegInf"
  by (cases x; simp add: less_js_number_def)+

lemma js_le_special [simp]:
  "\<not> NaN \<le> x" "\<not> x \<le> NaN" "PosInf \<le> x \<longleftrightarrow> x = PosInf" "x \<le> PosInf \<longleftrightarrow> x \<noteq> NaN"
  "NegInf \<le> x \<longleftrightarrow> x \<noteq> NaN" "x \<le> NegInf \<longleftrightarrow> x = NegInf"
  by (cases x; simp add: less_eq_js_number_def)+

lemma js_le_trans: "x \<le> y \<Longrightarrow> y \<le> z \<Longrightarrow> x \<le> (z :: js_number)"
  unfolding less_eq_js_number_def by (rule num_le_trans)

lemma js_le_less_trans: "x \<le> y \<Longrightarrow> y < z \<Longrightarrow> x < (z :: js_number)"
  unfolding less_eq_js_number_def less_js_number_def by (rule num_le_lt_trans)

lemma js_not_less: "x \<noteq> NaN \<Longrightarrow> y \<noteq> NaN \<Longrightarrow> \<not> x < y \<longleftrightarrow> y \<le> (x :: js_number)"
  by (cases x; cases y) auto

lemma js_le_refl: "x \<le> x \<longleftrightarrow> x \<noteq> (NaN :: js_number)"
  by (cases x) simp_all

lemma js_min_le:
  assumes "x \<noteq> NaN" "y \<noteq> NaN"
  shows "math_min x y \<noteq> NaN" "math_min x y \<le> x" "math_min x y \<le> y" "math_min x y \<in> {x, y}"
  using assms by (cases x; cases y; auto simp: math_min_def)+

section \<open>Representable numbers\<close>

text \<open>A double is rounded to itself: an integer below \<open>2 ^ 53\<close> times a power of two in range.\<close>

lemma round_pos_dyadic:
  assumes "0 \<le> n" "n < 2 ^ 53" "- 1074 \<le> k"
  shows "round_pos (of_int n * 2 powi k) = of_int n * 2 powi k"
proof (cases "n = 0")
  case False
  define x :: rat where "x = of_int n * 2 powi k"
  define e where "e = ulp_exp x"
  from False assms(1) have x: "0 < x" by (simp add: x_def)
  have "(of_int n :: rat) < of_int (2 ^ 53)" using assms(2) by (simp only: of_int_less_iff)
  then have "x < 2 ^ 53 * 2 powi k" unfolding x_def by (intro mult_strict_right_mono) simp_all
  also have "\<dots> = 2 powi (53 + k)" by (subst power_int_add) auto
  finally have "(2::rat) powi ilog2 x < 2 powi (53 + k)" using ilog2_bounds(1) [OF x] by simp
  then have "ilog2 x < 53 + k" by (rule powi2_lessD)
  with assms(3) have "e \<le> k" by (simp add: e_def ulp_exp_def)
  then obtain j where j: "k = e + int j" by (metis zle_iff_zadd)
  have "x = of_int (n * 2 ^ j) * 2 powi e" by (simp add: x_def j power_int_add)
  then have q: "x / 2 powi e = of_int (n * 2 ^ j)" by simp
  have "round_pos x = of_int (round_half_even (x / 2 powi e)) * 2 powi e"
    using x by (simp add: round_pos_def e_def)
  also have "\<dots> = x / 2 powi e * 2 powi e" by (simp only: q round_half_even_of_int)
  also have "\<dots> = x" by simp
  finally show ?thesis by (simp add: x_def)
qed simp

lemma round_double_dyadic:
  assumes "\<bar>n\<bar> < 2 ^ 53" "- 1074 \<le> k" "k \<le> 900"
  shows "round_double (of_int n * 2 powi k) = Fin (of_int n * 2 powi k)"
proof -
  have small: "\<not> max_pow \<le> of_int m * 2 powi k" if "\<bar>m\<bar> < 2 ^ 53" for m
  proof -
    have "(of_int m :: rat) \<le> of_int (2 ^ 53)" using that by (simp only: of_int_le_iff)
    then have "of_int m * 2 powi k \<le> (2 ^ 53 :: rat) * 2 powi 900"
      using assms(3) by (intro mult_mono power_int_increasing) simp_all
    also have "\<dots> = 2 ^ 953" by simp
    also have "\<dots> < max_pow" unfolding max_pow_def by (rule power_strict_increasing) simp_all
    finally show ?thesis by simp
  qed
  show ?thesis
  proof (cases "n < 0")
    case True
    then have "of_int n * 2 powi k < (0 :: rat)" by (simp add: mult_neg_pos)
    moreover have "round_pos (of_int (- n) * 2 powi k) = of_int (- n) * 2 powi k"
      using True assms by (intro round_pos_dyadic) simp_all
    ultimately show ?thesis using small [of "- n"] assms(1) by (simp add: round_double_def)
  next
    case False
    then have "\<not> of_int n * 2 powi k < (0 :: rat)" by (simp add: not_less)
    moreover have "round_pos (of_int n * 2 powi k) = of_int n * 2 powi k"
      using False assms by (intro round_pos_dyadic) simp_all
    ultimately show ?thesis using small [of n] assms(1) by (simp add: round_double_def)
  qed
qed

lemma half_representable [simp]: "round_double (1 / 2) = Fin (1 / 2)"
  using round_double_dyadic [of 1 "- 1"] by (simp add: power_int_minus_divide)

definition representable :: "rat \<Rightarrow> bool" where
  "representable q \<longleftrightarrow> round_double q = Fin q"

lemma round_pos_idem:
  assumes "0 \<le> x"
  shows "round_pos (round_pos x) = round_pos x"
proof (cases "x = 0")
  case False
  with assms have x: "0 < x" by simp
  define e where "e = ulp_exp x"
  define m where "m = round_half_even (x / 2 powi e)"
  have rx: "round_pos x = of_int m * 2 powi e" using x by (simp add: round_pos_def e_def m_def)
  have e: "- 1074 \<le> e" "ilog2 x - 52 \<le> e" by (simp_all add: e_def ulp_exp_def)
  have "x < 2 powi (ilog2 x + 1)" using ilog2_bounds x by simp
  also have "\<dots> \<le> (2::rat) powi (53 + e)" using e by (intro power_int_increasing) auto
  also have "\<dots> = 2 ^ 53 * 2 powi e" by (subst power_int_add) auto
  finally have "x / 2 powi e \<le> 2 ^ 53" by (simp add: pos_divide_le_eq)
  then have "round_half_even (x / 2 powi e) \<le> round_half_even (of_int (2 ^ 53))"
    by (intro round_half_even_mono) simp
  then have hi: "m \<le> 2 ^ 53" unfolding m_def by (simp only: round_half_even_of_int)
  have "round_half_even (of_int 0) \<le> round_half_even (x / 2 powi e)"
    using x by (intro round_half_even_mono) simp
  then have lo: "0 \<le> m" unfolding m_def by (simp only: round_half_even_of_int)
  show ?thesis
  proof (cases "m < 2 ^ 53")
    case True
    with lo e(1) show ?thesis unfolding rx by (intro round_pos_dyadic)
  next
    case False
    with hi have "m = 2 ^ 53" by simp
    then have "round_pos x = of_int (2 ^ 52) * 2 powi (e + 1)"
      unfolding rx by (simp add: power_int_add_1)
    then show ?thesis using e(1) by (simp only:) (rule round_pos_dyadic; simp)
  qed
qed simp

lemma round_double_representable: "round_double x = Fin q \<Longrightarrow> representable q"
proof -
  assume r: "round_double x = Fin q"
  show "representable q"
  proof (cases "x < 0")
    case True
    with r have q: "q = - round_pos (- x)" and m: "\<not> max_pow \<le> round_pos (- x)"
      by (auto simp: round_double_def split: if_splits)
    have i: "round_pos (round_pos (- x)) = round_pos (- x)" using True by (intro round_pos_idem) simp
    have n: "0 \<le> round_pos (- x)" using True by (intro round_pos_nonneg) simp
    show ?thesis
    proof (cases "q = 0")
      case False
      with n q have "q < 0" by simp
      then show ?thesis using m i by (simp add: representable_def round_double_def q)
    qed (simp add: representable_def)
  next
    case False
    with r have q: "q = round_pos x" and m: "\<not> max_pow \<le> round_pos x"
      by (auto simp: round_double_def split: if_splits)
    have i: "round_pos (round_pos x) = round_pos x" using False by (intro round_pos_idem) simp
    have "0 \<le> round_pos x" using False by (intro round_pos_nonneg) simp
    then show ?thesis using m i by (simp add: representable_def round_double_def q)
  qed
qed

lemma representable_minus [simp]: "representable (- q) \<longleftrightarrow> representable q"
  unfolding representable_def round_double_minus
  by (cases "round_double q") (auto simp: uminus_js_number_def)

lemma representable_of_int [simp]: "\<bar>n\<bar> < 2 ^ 53 \<Longrightarrow> representable (of_int n)"
  by (simp add: representable_def)

lemma js_one_mult: "representable q \<Longrightarrow> Fin 1 * Fin q = Fin q"
  and js_add_zero: "representable q \<Longrightarrow> Fin q + Fin 0 = Fin q"
  and js_zero_add: "representable q \<Longrightarrow> Fin 0 + Fin q = Fin q"
  and js_div_one: "representable q \<Longrightarrow> Fin q / Fin 1 = Fin q"
  and js_diff_zero: "representable q \<Longrightarrow> Fin q - Fin 0 = Fin q"
  by (simp_all add: representable_def js_arith num_sub_def)

lemma js_diff_self [simp]: "Fin q - Fin q = Fin 0"
  by (simp add: js_arith num_sub_def)

text \<open>An operation with a representable result is exact.\<close>

lemma js_exact:
  "representable (a + b) \<Longrightarrow> Fin a + Fin b = Fin (a + b)"
  "representable (a - b) \<Longrightarrow> Fin a - Fin b = Fin (a - b)"
  "representable (a * b) \<Longrightarrow> Fin a * Fin b = Fin (a * b)"
  "representable (a / b) \<Longrightarrow> b \<noteq> 0 \<Longrightarrow> Fin a / Fin b = Fin (a / b)"
  by (simp_all add: representable_def js_arith num_sub_def)

lemma js_add_NaN [simp]: "x + NaN = NaN" "NaN + x = NaN"
  by (cases x; simp add: plus_js_number_def)+

lemma js_mult_NaN [simp]: "x * NaN = NaN" "NaN * x = NaN"
  by (cases x; simp add: times_js_number_def)+

lemma round_double_neg_numeral [simp]:
  "round_double (- 1) = Fin (- 1)"
  "(numeral k :: int) < 2 ^ 53 \<Longrightarrow> round_double (- numeral k) = Fin (- numeral k)"
  by (simp_all add: round_double_minus)

lemma round_between:
  assumes "of_int l \<le> x" "x \<le> of_int u" "\<bar>l\<bar> < 2 ^ 53" "\<bar>u\<bar> < 2 ^ 53"
  shows "\<exists>q. round_double x = Fin q \<and> of_int l \<le> q \<and> q \<le> of_int u"
proof -
  have "num_le (Fin (of_int l)) (round_double x)" by (rule round_double_ge_int [OF assms(1,3)])
  moreover have "num_le (round_double x) (Fin (of_int u))" by (rule round_double_le_int [OF assms(2,4)])
  ultimately show ?thesis by (cases "round_double x") simp_all
qed

end
