(* ===== verification/Distributions.thy ===== *)
theory Distributions
  imports Js_Math
begin

text \<open>
  \<open>packages/core/src/stats/distributions.ts\<close>: the distribution functions of the analysis, with the
  constants and the order of the operations of the source. The functions of \<open>Math\<close> are the record
  \<open>math\<close>. Each loop has a bound in the source, which is the number that the recursion counts down.
\<close>

section \<open>The logarithm of the gamma function\<close>

definition LANCZOS :: "js_number list" where
  "LANCZOS =
     [num 0.99999999999980993, num 676.5203681218851, num (- 1259.1392167224028), num 771.32342877765313,
      num (- 176.61502916214059), num 12.507343278686905, num (- 0.13857109526572012),
      num (9.9843695780195716 / 10 ^ 6), num (1.5056327351493116 / 10 ^ 7)]"

text \<open>The loop from \<open>i = 1\<close> adds one quotient for each of the remaining coefficients.\<close>

definition lanczos_sum :: "js_number \<Rightarrow> js_number" where
  "lanczos_sum z =
     fold (\<lambda>i a. a + LANCZOS ! i / (z + number_of_nat i)) [1..<9] (LANCZOS ! 0)"

lemma reflected: "x < Fin (1 / 2) \<Longrightarrow> \<not> Fin 1 - x < Fin (1 / 2)"
proof (cases x)
  case (Fin a)
  assume "x < Fin (1 / 2)"
  then have "num_le (round_double (1 / 2)) (round_double (1 - a))" using Fin by (intro round_double_mono) simp
  then have "Fin (1 / 2) \<le> Fin 1 - x" using Fin by (simp add: js_arith num_sub_def)
  then show ?thesis by (metis js_le_less_trans js_le_Fin(2) less_irrefl)
qed (simp_all add: js_diff_eq plus_js_number_def)

function logGamma :: "math \<Rightarrow> js_number \<Rightarrow> js_number" where
  "logGamma m x =
     (if x < Fin (1 / 2)
      then math_log m (math_PI / math_sin m (math_PI * x)) - logGamma m (Fin 1 - x)
      else let z = x - Fin 1;
               t = z + Fin (15 / 2);
               a = lanczos_sum z in
        Fin (1 / 2) * math_log m (Fin 2 * math_PI) + (z + Fin (1 / 2)) * math_log m t - t + math_log m a)"
  by pat_completeness auto

termination logGamma
  by (relation "measure (\<lambda>(m, x). if x < Fin (1 / 2) then 1 else 0)") (simp_all add: reflected)

declare logGamma.simps [simp del]

section \<open>The incomplete beta function\<close>

definition not_tiny :: "js_number \<Rightarrow> js_number \<Rightarrow> js_number" where
  "not_tiny tiny d = (if math_abs d < tiny then tiny else d)"

definition TINY :: js_number where
  "TINY = num (1 / 10 ^ 300)"

text \<open>
  One iteration on the variables \<open>c\<close>, \<open>d\<close> and \<open>result\<close>, with \<open>delta\<close>, and the iterations
  with \<open>m\<close> from \<open>201 - rest\<close> to 200.
\<close>

definition beta_step ::
    "js_number \<Rightarrow> js_number \<Rightarrow> js_number \<Rightarrow> js_number \<Rightarrow> js_number \<times> js_number \<times> js_number
     \<Rightarrow> js_number \<times> js_number \<times> js_number \<times> js_number" where
  "beta_step x a b m s =
     (let (c, d, result) = s;
          m2 = Fin 2 * m;
          even_numerator = (m * (b - m) * x) / ((a - Fin 1 + m2) * (a + m2));
          d1 = Fin 1 / not_tiny TINY (Fin 1 + even_numerator * d);
          c1 = not_tiny TINY (Fin 1 + even_numerator / c);
          result1 = result * (d1 * c1);
          odd_numerator = (- (a + m) * (a + b + m) * x) / ((a + m2) * (a + Fin 1 + m2));
          d2 = Fin 1 / not_tiny TINY (Fin 1 + odd_numerator * d1);
          c2 = not_tiny TINY (Fin 1 + odd_numerator / c1);
          delta = d2 * c2 in
      (delta, c2, d2, result1 * delta))"

fun beta_loop :: "nat \<Rightarrow> js_number \<Rightarrow> js_number \<Rightarrow> js_number \<Rightarrow> js_number \<times> js_number \<times> js_number \<Rightarrow> js_number"
where
  "beta_loop 0 x a b s = snd (snd s)"
| "beta_loop (Suc rest) x a b s =
     (case beta_step x a b (number_of_nat (200 - rest)) s of
        (delta, s1) \<Rightarrow>
          if math_abs (delta - Fin 1) < num (3 / 10 ^ 14) then snd (snd s1) else beta_loop rest x a b s1)"

definition betaContinuedFraction :: "js_number \<Rightarrow> js_number \<Rightarrow> js_number \<Rightarrow> js_number" where
  "betaContinuedFraction x a b =
     (let qab = a + b;
          qap = a + Fin 1;
          d = Fin 1 / not_tiny TINY (Fin 1 - (qab * x) / qap) in
      beta_loop 200 x a b (Fin 1, d, d))"

definition incompleteBeta :: "math \<Rightarrow> js_number \<Rightarrow> js_number \<Rightarrow> js_number \<Rightarrow> js_number" where
  "incompleteBeta m x a b =
     (if x \<le> Fin 0 then Fin 0
      else if Fin 1 \<le> x then Fin 1
      else let front = math_exp m
             (logGamma m (a + b) - logGamma m a - logGamma m b + a * math_log m x + b * math_log m (Fin 1 - x)) in
        if x < (a + Fin 1) / (a + b + Fin 2)
        then (front * betaContinuedFraction x a b) / a
        else Fin 1 - (front * betaContinuedFraction (Fin 1 - x) b a) / b)"

section \<open>The normal distribution\<close>

definition erf :: "math \<Rightarrow> js_number \<Rightarrow> js_number" where
  "erf m x =
     (let sign = (if x < Fin 0 then Fin (- 1) else Fin 1);
          absX = math_abs x;
          t = Fin 1 / (Fin 1 + num 0.3275911 * absX);
          y = Fin 1 -
            ((((num 1.061405429 * t - num 1.453152027) * t + num 1.421413741) * t - num 0.284496736) * t
               + num 0.254829592) * t * math_exp m (- absX * absX) in
      sign * y)"

definition normalCdf :: "math \<Rightarrow> js_number \<Rightarrow> js_number" where
  "normalCdf m z = Fin (1 / 2) * (Fin 1 + erf m (z / math_SQRT2))"

text \<open>A polynomial in the order of the source: \<open>((c0 * q + c1) * q + ...)\<close>.\<close>

definition horner :: "js_number list \<Rightarrow> js_number \<Rightarrow> js_number" where
  "horner cs q = (case cs of [] \<Rightarrow> Fin 0 | c # cs \<Rightarrow> foldl (\<lambda>acc c. acc * q + c) c cs)"

definition central_numerator :: "js_number list" where
  "central_numerator =
     [num (- 39.69683028665376), num 220.9460984245205, num (- 275.9285104469687), num 138.357751867269,
      num (- 30.66479806614716), num 2.506628277459239]"

definition central_denominator :: "js_number list" where
  "central_denominator =
     [num (- 54.47609879822406), num 161.5858368580409, num (- 155.6989798598866), num 66.80131188771972,
      num (- 13.28068155288572)]"

definition tail_numerator :: "js_number list" where
  "tail_numerator =
     [num (- 0.007784894002430293), num (- 0.3223964580411365), num (- 2.400758277161838),
      num (- 2.549732539343734), num 4.374664141464968, num 2.938163982698783]"

definition tail_denominator :: "js_number list" where
  "tail_denominator =
     [num 0.007784695709041462, num 0.3224671290700398, num 2.445134137142996, num 3.754408661907416]"

definition normalQuantile :: "math \<Rightarrow> js_number \<Rightarrow> js_number" where
  "normalQuantile m p =
     (if p \<le> Fin 0 then NegInf
      else if Fin 1 \<le> p then PosInf
      else let pLow = num 0.02425; pHigh = Fin 1 - pLow in
        if p < pLow then
          (let q = math_sqrt m (Fin (- 2) * math_log m p) in
           horner tail_numerator q / horner (tail_denominator @ [Fin 1]) q)
        else if pHigh < p then
          (let q = math_sqrt m (Fin (- 2) * math_log m (Fin 1 - p)) in
           - horner tail_numerator q / horner (tail_denominator @ [Fin 1]) q)
        else
          (let q = p - Fin (1 / 2); r = q * q in
           (horner central_numerator r * q) / horner (central_denominator @ [Fin 1]) r))"

section \<open>The tests\<close>

definition studentTTwoSidedPValue :: "math \<Rightarrow> js_number \<Rightarrow> js_number \<Rightarrow> js_number" where
  "studentTTwoSidedPValue m t df =
     (if \<not> is_finite_number t \<or> df \<le> Fin 0 then Fin 1
      else let x = df / (df + t * t) in incompleteBeta m x (df / Fin 2) (Fin (1 / 2)))"

text \<open>The iterations of the series with \<open>n\<close> from \<open>500 - rest\<close> to 499.\<close>

fun series_loop :: "nat \<Rightarrow> js_number \<Rightarrow> js_number \<Rightarrow> js_number \<Rightarrow> js_number \<Rightarrow> js_number" where
  "series_loop 0 a x acc term' = acc"
| "series_loop (Suc rest) a x acc term' =
     (let term1 = term' * (x / (a + number_of_nat (499 - rest)));
          acc1 = acc + term1 in
      if math_abs term1 < math_abs acc1 * num (1 / 10 ^ 15) then acc1
      else series_loop rest a x acc1 term1)"

text \<open>One iteration of the continued fraction on \<open>b\<close>, \<open>c\<close>, \<open>d\<close> and \<open>h\<close>, with \<open>delta\<close>.\<close>

definition fraction_step ::
    "js_number \<Rightarrow> js_number \<Rightarrow> js_number \<times> js_number \<times> js_number \<times> js_number
     \<Rightarrow> js_number \<times> js_number \<times> js_number \<times> js_number \<times> js_number" where
  "fraction_step a i s =
     (let (b, c, d, h) = s;
          an = - i * (i - a);
          b1 = b + Fin 2;
          d1 = not_tiny TINY (an * d + b1);
          c1 = not_tiny TINY (b1 + an / c);
          d2 = Fin 1 / d1;
          delta = d2 * c1 in
      (delta, b1, c1, d2, h * delta))"

text \<open>The iterations with \<open>i\<close> from \<open>500 - rest\<close> to 499.\<close>

fun fraction_loop :: "nat \<Rightarrow> js_number \<Rightarrow> js_number \<times> js_number \<times> js_number \<times> js_number \<Rightarrow> js_number" where
  "fraction_loop 0 a s = snd (snd (snd s))"
| "fraction_loop (Suc rest) a s =
     (case fraction_step a (number_of_nat (499 - rest)) s of
        (delta, s1) \<Rightarrow>
          if math_abs (delta - Fin 1) < num (1 / 10 ^ 15) then snd (snd (snd s1)) else fraction_loop rest a s1)"

definition lowerIncompleteGammaRegularized :: "math \<Rightarrow> js_number \<Rightarrow> js_number \<Rightarrow> js_number" where
  "lowerIncompleteGammaRegularized m a x =
     (if x < Fin 0 \<or> a \<le> Fin 0 then Fin 0
      else if x = Fin 0 then Fin 0
      else if x < a + Fin 1 then
        (let first = Fin 1 / a in
         series_loop 499 a x first first * math_exp m (- x + a * math_log m x - logGamma m a))
      else
        (let b = x + Fin 1 - a; c = Fin 1 / TINY; d = Fin 1 / b in
         Fin 1 - math_exp m (- x + a * math_log m x - logGamma m a) * fraction_loop 499 a (b, c, d, d)))"

definition chiSquarePValue :: "math \<Rightarrow> js_number \<Rightarrow> js_number \<Rightarrow> js_number" where
  "chiSquarePValue m chiSquare df =
     (if chiSquare \<le> Fin 0 then Fin 1
      else Fin 1 - lowerIncompleteGammaRegularized m (df / Fin 2) (chiSquare / Fin 2))"

end
