(* ===== verification/Frequentist.thy ===== *)
theory Frequentist
  imports Distributions
begin

text \<open>
  \<open>packages/core/src/stats/frequentist.ts\<close>: the running mean and variance, Welch's t-test, the test of
  two proportions, and the planning functions. An optional argument is an option.
\<close>

section \<open>Samples\<close>

record continuous_sample =
  cont_n :: js_number
  cont_mean :: js_number
  cont_variance :: js_number

record binary_sample =
  sample_n :: js_number
  sample_conversions :: js_number

record test_result =
  tr_effect :: js_number
  tr_relativeEffect :: js_number
  tr_standardError :: js_number
  tr_statistic :: js_number
  tr_pValue :: js_number
  tr_confidenceInterval :: "js_number \<times> js_number"
  tr_significant :: bool

definition default_alpha :: js_number where
  "default_alpha = num 0.05"

definition or_default :: "js_number option \<Rightarrow> js_number \<Rightarrow> js_number" where
  "or_default x d = (case x of None \<Rightarrow> d | Some y \<Rightarrow> y)"

section \<open>Running statistics\<close>

record running_stats =
  rs_count :: js_number
  rs_mean :: js_number
  rs_m2 :: js_number

definition new_stats :: running_stats where
  "new_stats = \<lparr>rs_count = Fin 0, rs_mean = Fin 0, rs_m2 = Fin 0\<rparr>"

definition push_value :: "js_number \<Rightarrow> running_stats \<Rightarrow> running_stats" where
  "push_value v s =
     (let count = rs_count s + Fin 1;
          delta = v - rs_mean s;
          mean = rs_mean s + delta / count in
      \<lparr>rs_count = count, rs_mean = mean, rs_m2 = rs_m2 s + delta * (v - mean)\<rparr>)"

definition stats_sample :: "running_stats \<Rightarrow> continuous_sample" where
  "stats_sample s =
     \<lparr>cont_n = rs_count s, cont_mean = rs_mean s,
      cont_variance = (if Fin 1 < rs_count s then rs_m2 s / (rs_count s - Fin 1) else Fin 0)\<rparr>"

section \<open>The tests\<close>

text \<open>The result when there is no standard error to divide by.\<close>

definition no_test :: "js_number \<Rightarrow> js_number \<Rightarrow> test_result" where
  "no_test effect relative =
     \<lparr>tr_effect = effect, tr_relativeEffect = relative, tr_standardError = Fin 0, tr_statistic = Fin 0,
      tr_pValue = Fin 1, tr_confidenceInterval = (effect, effect), tr_significant = False\<rparr>"

definition welchTTest ::
    "math \<Rightarrow> continuous_sample \<Rightarrow> continuous_sample \<Rightarrow> js_number option \<Rightarrow> test_result" where
  "welchTTest m control treatment alpha' =
     (let alpha = or_default alpha' default_alpha;
          vc = cont_variance control / cont_n control;
          vt = cont_variance treatment / cont_n treatment;
          se = math_sqrt m (vc + vt);
          effect = cont_mean treatment - cont_mean control;
          relative = (if cont_mean control = Fin 0 then NaN else effect / cont_mean control) in
      if se = Fin 0 \<or> \<not> is_finite_number se then no_test effect relative
      else
        let df = math_pow m (vc + vt) (Fin 2) /
              (math_pow m vc (Fin 2) / (cont_n control - Fin 1) + math_pow m vt (Fin 2) / (cont_n treatment - Fin 1));
            statistic = effect / se;
            pValue = studentTTwoSidedPValue m statistic df;
            critical = normalQuantile m (Fin 1 - alpha / Fin 2);
            margin = critical * se in
        \<lparr>tr_effect = effect, tr_relativeEffect = relative, tr_standardError = se, tr_statistic = statistic,
         tr_pValue = pValue, tr_confidenceInterval = (effect - margin, effect + margin),
         tr_significant = pValue < alpha\<rparr>)"

definition twoProportionZTest ::
    "math \<Rightarrow> binary_sample \<Rightarrow> binary_sample \<Rightarrow> js_number option \<Rightarrow> test_result" where
  "twoProportionZTest m control treatment alpha' =
     (let alpha = or_default alpha' default_alpha;
          pc = sample_conversions control / sample_n control;
          pt = sample_conversions treatment / sample_n treatment;
          effect = pt - pc;
          pooled = (sample_conversions control + sample_conversions treatment) / (sample_n control + sample_n treatment);
          pooledSe = math_sqrt m
            (pooled * (Fin 1 - pooled) * (Fin 1 / sample_n control + Fin 1 / sample_n treatment));
          unpooledSe = math_sqrt m
            ((pc * (Fin 1 - pc)) / sample_n control + (pt * (Fin 1 - pt)) / sample_n treatment);
          relative = (if pc = Fin 0 then NaN else effect / pc) in
      if pooledSe = Fin 0 \<or> \<not> is_finite_number pooledSe then no_test effect relative
      else
        let statistic = effect / pooledSe;
            pValue = Fin 2 * (Fin 1 - normalCdf m (math_abs statistic));
            critical = normalQuantile m (Fin 1 - alpha / Fin 2);
            margin = critical * unpooledSe in
        \<lparr>tr_effect = effect, tr_relativeEffect = relative, tr_standardError = unpooledSe,
         tr_statistic = statistic, tr_pValue = pValue,
         tr_confidenceInterval = (effect - margin, effect + margin), tr_significant = pValue < alpha\<rparr>)"

section \<open>Planning\<close>

record mde_options =
  mde_baselineRate :: js_number
  mde_perArm :: js_number
  mde_alpha :: "js_number option"
  mde_power :: "js_number option"

definition minimumDetectableEffect :: "math \<Rightarrow> mde_options \<Rightarrow> js_number \<times> js_number" where
  "minimumDetectableEffect m opts =
     (let zAlpha = normalQuantile m (Fin 1 - or_default (mde_alpha opts) default_alpha / Fin 2);
          zPower = normalQuantile m (or_default (mde_power opts) (num 0.8));
          variance = mde_baselineRate opts * (Fin 1 - mde_baselineRate opts);
          absolute = (zAlpha + zPower) * math_sqrt m ((Fin 2 * variance) / mde_perArm opts) in
      (absolute, if mde_baselineRate opts = Fin 0 then NaN else absolute / mde_baselineRate opts))"

record size_options =
  sz_baselineRate :: js_number
  sz_relativeEffect :: js_number
  sz_alpha :: "js_number option"
  sz_power :: "js_number option"

definition requiredSampleSize :: "math \<Rightarrow> size_options \<Rightarrow> js_number" where
  "requiredSampleSize m opts =
     (let zAlpha = normalQuantile m (Fin 1 - or_default (sz_alpha opts) default_alpha / Fin 2);
          zPower = normalQuantile m (or_default (sz_power opts) (num 0.8));
          absolute = sz_baselineRate opts * sz_relativeEffect opts in
      if absolute = Fin 0 then PosInf
      else let variance = sz_baselineRate opts * (Fin 1 - sz_baselineRate opts) in
        math_ceil ((Fin 2 * variance * math_pow m (zAlpha + zPower) (Fin 2)) / math_pow m absolute (Fin 2)))"

section \<open>The running statistics are those of the textbook\<close>

text \<open>The same recurrence over the rationals, and the mean and the squared deviations of a list.\<close>

definition exact_push :: "rat \<Rightarrow> nat \<times> rat \<times> rat \<Rightarrow> nat \<times> rat \<times> rat" where
  "exact_push v s =
     (let (n, mean, m2) = s; delta = v - mean; mean' = mean + delta / of_nat (n + 1) in
      (n + 1, mean', m2 + delta * (v - mean')))"

definition mean_of :: "rat list \<Rightarrow> rat" where
  "mean_of xs = sum_list xs / of_nat (length xs)"

definition squared_deviations :: "rat list \<Rightarrow> rat" where
  "squared_deviations xs = (\<Sum>x\<leftarrow>xs. (x - mean_of xs) ^ 2)"

lemma sum_squares_about:
  "(\<Sum>x\<leftarrow>xs. (x - c) ^ 2) = (\<Sum>x\<leftarrow>xs. x ^ 2) - 2 * c * sum_list xs + of_nat (length xs) * c ^ 2" for c :: rat
  by (induction xs) (auto simp: algebra_simps power2_eq_square)

lemma squared_deviations_eq:
  "squared_deviations xs = (\<Sum>x\<leftarrow>xs. x ^ 2) - sum_list xs ^ 2 / of_nat (length xs)"
proof (cases "xs = []")
  case False
  then have "(of_nat (length xs) :: rat) \<noteq> 0" by simp
  then show ?thesis
    unfolding squared_deviations_def sum_squares_about mean_of_def by (simp add: field_simps power2_eq_square)
qed (simp add: squared_deviations_def)

text \<open>Welford's recurrence computes the mean and the squared deviations.\<close>

lemma exact_push_textbook:
  "exact_push v (length xs, mean_of xs, squared_deviations xs)
    = (length (xs @ [v]), mean_of (xs @ [v]), squared_deviations (xs @ [v]))"
proof -
  define n s q :: rat where "n = of_nat (length xs)" and "s = sum_list xs" and "q = (\<Sum>x\<leftarrow>xs. x ^ 2)"
  have n: "0 \<le> n" "n = 0 \<Longrightarrow> s = 0 \<and> q = 0" by (auto simp: n_def s_def q_def)
  then have n1: "n + 1 \<noteq> 0" by linarith
  define a where "a = s / n"
  have s: "s = a * n" using n(2) by (auto simp: a_def)
  have mean: "s / n + (v - s / n) / (n + 1) = (s + v) / (n + 1)"
    using n1 unfolding a_def [symmetric] unfolding s by (simp add: field_simps)
  have "q - s ^ 2 / n + (v - s / n) * (v - (s + v) / (n + 1)) = q + v ^ 2 - (s + v) ^ 2 / (n + 1)"
  proof (cases "n = 0")
    case True
    then show ?thesis using n(2) by (simp add: power2_eq_square)
  next
    case False
    then have sq: "s ^ 2 / n = a ^ 2 * n" by (simp add: s power2_eq_square)
    show ?thesis using n1 unfolding sq unfolding a_def [symmetric] unfolding s
      by (simp add: field_simps power2_eq_square)
  qed
  then show ?thesis
    using mean unfolding exact_push_def mean_of_def squared_deviations_eq Let_def
    by (simp only: prod.case length_append sum_list_append map_append of_nat_add n_def [symmetric] s_def [symmetric]
      q_def [symmetric]) (simp add: add.commute)
qed

lemma exact_push_all: "fold exact_push xs (0, 0, 0) = (length xs, mean_of xs, squared_deviations xs)"
proof (induction xs rule: rev_induct)
  case (snoc v xs)
  then show ?case using exact_push_textbook [of v xs] by simp
qed (simp add: mean_of_def squared_deviations_def)

text \<open>A push that does not round: every intermediate value is a double.\<close>

definition push_is_exact :: "rat \<Rightarrow> nat \<times> rat \<times> rat \<Rightarrow> bool" where
  "push_is_exact v s \<longleftrightarrow>
     (let (n, mean, m2) = s; delta = v - mean; mean' = mean + delta / of_nat (n + 1) in
      n + 1 < 2 ^ 53 \<and> representable delta \<and> representable (delta / of_nat (n + 1)) \<and> representable mean'
      \<and> representable (v - mean') \<and> representable (delta * (v - mean')) \<and> representable (m2 + delta * (v - mean')))"

fun exact_run :: "rat list \<Rightarrow> nat \<times> rat \<times> rat \<Rightarrow> bool" where
  "exact_run [] s = True"
| "exact_run (v # vs) s = (push_is_exact v s \<and> exact_run vs (exact_push v s))"

definition stats_of :: "nat \<times> rat \<times> rat \<Rightarrow> running_stats" where
  "stats_of s = (let (n, mean, m2) = s in \<lparr>rs_count = Fin (of_nat n), rs_mean = Fin mean, rs_m2 = Fin m2\<rparr>)"

lemma push_exact: "push_is_exact v s \<Longrightarrow> push_value (Fin v) (stats_of s) = stats_of (exact_push v s)"
proof -
  assume "push_is_exact v s"
  obtain n mean m2 where s: "s = (n, mean, m2)" by (rule prod_cases3)
  have "Fin (of_nat n) + Fin 1 = Fin (of_nat (n + 1))" if "n + 1 < 2 ^ 53"
    using round_double_of_nat [OF that] by (simp add: plus_js_number_def add.commute)
  then show ?thesis using \<open>push_is_exact v s\<close>
    by (simp add: s push_is_exact_def push_value_def stats_of_def exact_push_def Let_def js_exact del: of_nat_add)
qed

lemma exact_run_stats: "exact_run vs s \<Longrightarrow> fold push_value (map Fin vs) (stats_of s) = stats_of (fold exact_push vs s)"
  by (induction vs arbitrary: s) (simp_all add: push_exact)

lemma exact_run_length: "exact_run vs (n, mean, m2) \<Longrightarrow> vs \<noteq> [] \<Longrightarrow> n + length vs < 2 ^ 53"
proof (induction vs arbitrary: n mean m2)
  case (Cons v vs)
  show ?case
  proof (cases "vs = []")
    case True
    with Cons.prems show ?thesis by (simp add: push_is_exact_def Let_def)
  next
    case False
    with Cons.IH Cons.prems(1) show ?thesis by (fastforce simp: exact_push_def Let_def)
  qed
qed simp

text \<open>
  C27: the running statistics are those of the textbook: when no operation rounds, the sample after any
  values has their number, their mean, and the sum of their squared deviations over one less than
  their number as the variance (and no variance for fewer than two values).
\<close>

theorem running_stats_is_textbook:
  assumes "exact_run vs (0, 0, 0)"
  shows "stats_sample (fold push_value (map Fin vs) new_stats) =
    \<lparr>cont_n = Fin (of_nat (length vs)), cont_mean = Fin (mean_of vs),
     cont_variance = (if 1 < length vs then Fin (squared_deviations vs) / Fin (of_nat (length vs - 1)) else Fin 0)\<rparr>"
proof -
  have "new_stats = stats_of (0, 0, 0)" by (simp add: new_stats_def stats_of_def)
  then have run: "fold push_value (map Fin vs) new_stats
      = \<lparr>rs_count = Fin (of_nat (length vs)), rs_mean = Fin (mean_of vs), rs_m2 = Fin (squared_deviations vs)\<rparr>"
    using exact_run_stats [OF assms] by (simp add: exact_push_all stats_of_def)
  have pred: "Fin (of_nat (Suc k)) - Fin 1 = Fin (of_nat k)" if "k < 2 ^ 53" for k
    using round_double_of_nat [OF that] by (simp add: js_arith num_sub_def)
  have one_less: "Fin (of_nat (length vs)) - Fin 1 = Fin (of_nat (length vs - 1))" if many: "1 < length vs"
  proof -
    obtain k where k: "length vs = Suc k" using many by (cases "length vs") auto
    from many have "vs \<noteq> []" by auto
    with exact_run_length [OF assms] k have "k < 2 ^ 53" by (metis add_0 Suc_lessD)
    from pred [OF this] show ?thesis by (simp only: k diff_Suc_1)
  qed
  have many: "Fin 1 < Fin (of_nat (length vs)) \<longleftrightarrow> 1 < length vs" by simp
  show ?thesis unfolding run stats_sample_def by (simp only: running_stats.simps many one_less cong: if_cong)
qed

theorem running_stats_is_textbook_witness:
  "stats_sample (fold push_value (map Fin [1, 3]) new_stats) =
    \<lparr>cont_n = Fin 2, cont_mean = Fin 2, cont_variance = Fin 2\<rparr>"
proof -
  have "representable 1" "representable 2" "representable 3" "representable 0"
    using representable_of_int [of 1] representable_of_int [of 2] representable_of_int [of 3]
      representable_of_int [of 0] by simp_all
  then have "exact_run [1, 3] (0, 0, 0)" by (simp add: push_is_exact_def exact_push_def)
  from running_stats_is_textbook [OF this] show ?thesis
    using js_div_one [of 2] \<open>representable 2\<close> by (simp add: mean_of_def squared_deviations_def)
qed

section \<open>The arms are treated alike\<close>

text \<open>The result seen from the other arm.\<close>

definition mirrored :: "test_result \<Rightarrow> test_result \<Rightarrow> bool" where
  "mirrored r r' \<longleftrightarrow>
     tr_effect r' = - tr_effect r \<and> tr_statistic r' = - tr_statistic r
     \<and> tr_standardError r' = tr_standardError r \<and> tr_pValue r' = tr_pValue r
     \<and> tr_confidenceInterval r' = (- snd (tr_confidenceInterval r), - fst (tr_confidenceInterval r))
     \<and> (tr_significant r' \<longleftrightarrow> tr_significant r)"

lemma mirrored_interval: "- e - k = - (e + k)" "- e + k = - (e - k)" for e k :: js_number
  by (simp_all add: js_diff_eq js_minus_add)

lemma no_test_mirrored: "mirrored (no_test e r) (no_test (- e) r')"
  by (simp add: mirrored_def no_test_def)

lemma mirrored_result:
  "mirrored
     \<lparr>tr_effect = e, tr_relativeEffect = r, tr_standardError = s, tr_statistic = t, tr_pValue = p,
      tr_confidenceInterval = (e - k, e + k), tr_significant = g\<rparr>
     \<lparr>tr_effect = - e, tr_relativeEffect = r', tr_standardError = s, tr_statistic = - t, tr_pValue = p,
      tr_confidenceInterval = (- e - k, - e + k), tr_significant = g\<rparr>"
  by (simp add: mirrored_def mirrored_interval)

lemma welch_mirrored: "mirrored (welchTTest m control treatment alpha) (welchTTest m treatment control alpha)"
proof -
  have e: "cont_mean control - cont_mean treatment = - (cont_mean treatment - cont_mean control)"
    by (simp add: js_minus_diff)
  have "is_finite_number (- t) = is_finite_number t" for t by (cases t) simp_all
  then have p: "studentTTwoSidedPValue m (- t) df = studentTTwoSidedPValue m t df" for t df
    by (simp add: studentTTwoSidedPValue_def js_mult_minus_minus)
  show ?thesis
    unfolding welchTTest_def Let_def e js_add_commute [of "cont_variance treatment / _"]
      js_add_commute [of "math_pow m (cont_variance treatment / _) _ / _"]
    by (simp add: no_test_mirrored mirrored_result js_minus_divide p)
qed

lemma proportions_mirrored:
  "mirrored (twoProportionZTest m control treatment alpha) (twoProportionZTest m treatment control alpha)"
proof -
  have e: "sample_conversions control / sample_n control - sample_conversions treatment / sample_n treatment
      = - (sample_conversions treatment / sample_n treatment - sample_conversions control / sample_n control)"
    by (simp add: js_minus_diff)
  show ?thesis
    unfolding twoProportionZTest_def Let_def e js_add_commute [of "sample_conversions treatment"]
      js_add_commute [of "sample_n treatment"] js_add_commute [of "Fin 1 / sample_n treatment"]
      js_add_commute [of "sample_conversions treatment / sample_n treatment * _ / _"]
    by (simp add: no_test_mirrored mirrored_result js_minus_divide)
qed

end
