(* ===== verification/Ingest.thy ===== *)
theory Ingest
  imports Exposure_Buffer Keys Dates Frequentist
begin

text \<open>
  \<open>apps/control-plane/src/exposures.ts\<close> and the exposure route of \<open>server.ts\<close>: validating and
  stamping a batch, the writer with its back-pressure, and the aggregation. A time value is an integer
  number of milliseconds; parsing a date text is the parameter \<open>date_of\<close>, \<open>None\<close> for an invalid
  date. An insert settles in two steps, as its promise handlers run: the counters first, the release
  of the rows in flight after.
\<close>

definition MAX_BATCH_SIZE :: nat where "MAX_BATCH_SIZE = 1000"
definition MAX_FIELD_LENGTH :: nat where "MAX_FIELD_LENGTH = 512"
definition MAX_CLOCK_SKEW_MILLIS :: int where "MAX_CLOCK_SKEW_MILLIS = 24 * 60 * 60 * 1000"
definition MAX_BACKDATE_MILLIS :: int where "MAX_BACKDATE_MILLIS = 30 * 24 * 60 * 60 * 1000"

record exposure_row =
  tenant_id :: js_string
  environment_key :: js_string
  flag_key :: js_string
  variation_key :: js_string
  context_key :: js_string
  ruleset_version :: js_number
  timestamp :: js_string
  dedupe_key :: js_string

section \<open>Dates\<close>

text \<open>\<open>s.replace(c, text)\<close> for a pattern of one character.\<close>

fun replace_first :: "16 word \<Rightarrow> js_string \<Rightarrow> js_string \<Rightarrow> js_string" where
  "replace_first c by_text [] = []"
| "replace_first c by_text (x # xs) = (if x = c then by_text @ xs else x # replace_first c by_text xs)"

definition toClickHouseDateTime :: "int \<Rightarrow> js_string" where
  "toClickHouseDateTime instant =
     replace_first (of_char CHR ''Z'') [] (replace_first (of_char CHR ''T'') (lit '' '') (toISOString instant))"

section \<open>Validation\<close>

fun isUsableString :: "js_value \<Rightarrow> bool" where
  "isUsableString (JStr s) = (0 < length s \<and> length s \<le> MAX_FIELD_LENGTH)"
| "isUsableString v = False"

definition required_fields :: "js_string list" where
  "required_fields = [lit ''flagKey'', lit ''variationKey'', lit ''contextKey'', lit ''dedupeKey'']"

fun string_of :: "js_value \<Rightarrow> js_string" where
  "string_of (JStr s) = s"
| "string_of v = []"

text \<open>One event: the reason of its rejection, or its row.\<close>

definition validate_event ::
    "(js_string \<Rightarrow> int option) \<Rightarrow> int \<Rightarrow> authenticated_key \<Rightarrow> js_value \<Rightarrow> js_string + exposure_row"
where
  "validate_event date_of now scope event =
     (if \<not> is_object event then Inl (lit ''not an object'')
      else case find (\<lambda>f. \<not> isUsableString (get_prop event f)) required_fields of
        Some f \<Rightarrow> Inl (f @ lit '' must be a string of 1..512'')
      | None \<Rightarrow>
      (case get_prop event (lit ''rulesetVersion'') of
         JNum n \<Rightarrow>
           (if \<not> is_integer_number n \<or> num_lt n (Fin 0)
            then Inl (lit ''rulesetVersion must be a non-negative integer'')
            else case date_of (value_to_string (get_prop event (lit ''timestamp''))) of
              None \<Rightarrow> Inl (lit ''timestamp is not a valid date'')
            | Some instant \<Rightarrow>
                (let skew = instant - now in
                 if MAX_CLOCK_SKEW_MILLIS < skew then Inl (lit ''timestamp too far in the future'')
                 else if MAX_BACKDATE_MILLIS < - skew then Inl (lit ''timestamp too far in the past'')
                 else Inr \<lparr>tenant_id = tenantId scope, environment_key = scope_environmentKey scope,
                           flag_key = string_of (get_prop event (lit ''flagKey'')),
                           variation_key = string_of (get_prop event (lit ''variationKey'')),
                           context_key = string_of (get_prop event (lit ''contextKey'')),
                           ruleset_version = n, timestamp = toClickHouseDateTime instant,
                           dedupe_key = string_of (get_prop event (lit ''dedupeKey''))\<rparr>))
       | _ \<Rightarrow> Inl (lit ''rulesetVersion must be a non-negative integer'')))"

text \<open>
  \<open>String(event.timestamp)\<close> raises when it reaches an object with a property \<open>toString\<close> of its own, which
  no text of JSON makes a function: the \<open>valueOf\<close> that is tried next gives no primitive value. The
  exception leaves \<open>validateBatch\<close>, which has changed nothing by then, so that its place in the batch does
  not matter. \<open>validate_event\<close> and what follows are about batches without such an event.
\<close>

fun stringifiable :: "js_value \<Rightarrow> bool" where
  "stringifiable (JObj ps) = (map_of ps (lit ''toString'') = None)"
| "stringifiable (JArr vs) = list_all stringifiable vs"
| "stringifiable v = True"

definition integer_version :: "js_value \<Rightarrow> bool" where
  "integer_version v = (case v of JNum n \<Rightarrow> is_integer_number n \<and> \<not> num_lt n (Fin 0) | _ \<Rightarrow> False)"

definition timestamp_raises :: "js_value \<Rightarrow> bool" where
  "timestamp_raises event \<longleftrightarrow>
     is_object event \<and> list_all (\<lambda>f. isUsableString (get_prop event f)) required_fields
     \<and> integer_version (get_prop event (lit ''rulesetVersion'')) \<and> \<not> stringifiable (get_prop event (lit ''timestamp''))"

text \<open>\<open>events.forEach\<close>, from the event at \<open>index\<close> on, with what was pushed so far.\<close>

fun validate_loop ::
    "(js_string \<Rightarrow> int option) \<Rightarrow> int \<Rightarrow> authenticated_key \<Rightarrow> nat \<Rightarrow> js_value list \<Rightarrow>
     exposure_row list \<times> (nat \<times> js_string) list \<Rightarrow> exposure_row list \<times> (nat \<times> js_string) list" where
  "validate_loop date_of now scope index [] (rows, rejected) = (rows, rejected)"
| "validate_loop date_of now scope index (e # es) (rows, rejected) =
     validate_loop date_of now scope (index + 1) es
       (case validate_event date_of now scope e of
          Inl why \<Rightarrow> (rows, rejected @ [(index, why)])
        | Inr row \<Rightarrow> (rows @ [row], rejected))"

definition validateBatch ::
    "(js_string \<Rightarrow> int option) \<Rightarrow> int \<Rightarrow> authenticated_key \<Rightarrow> js_value list
     \<Rightarrow> exposure_row list \<times> (nat \<times> js_string) list" where
  "validateBatch date_of now scope events = validate_loop date_of now scope 0 events ([], [])"

section \<open>The writer\<close>

record writer =
  unsettled :: "exposure_row list list"
  unreleased :: "exposure_row list list"
  inFlightRows :: nat
  accepted_rows :: nat
  refused_rows :: nat
  written_rows :: nat
  failed_rows :: nat

definition new_writer :: writer where
  "new_writer = \<lparr>unsettled = [], unreleased = [], inFlightRows = 0, accepted_rows = 0, refused_rows = 0,
     written_rows = 0, failed_rows = 0\<rparr>"

definition enqueue :: "nat \<Rightarrow> exposure_row list \<Rightarrow> writer \<Rightarrow> bool \<times> writer" where
  "enqueue maxInFlightRows rows w =
     (if rows = [] then (True, w)
      else if maxInFlightRows < inFlightRows w + length rows
      then (False, w\<lparr>refused_rows := refused_rows w + length rows\<rparr>)
      else (True, w\<lparr>inFlightRows := inFlightRows w + length rows,
                    accepted_rows := accepted_rows w + length rows, unsettled := unsettled w @ [rows]\<rparr>))"

text \<open>The \<open>i\<close>-th pending insert succeeds or fails.\<close>

definition settle_insert :: "nat \<Rightarrow> bool \<Rightarrow> writer \<Rightarrow> writer" where
  "settle_insert i ok w =
     (if i < length (unsettled w)
      then let rows = unsettled w ! i;
               w' = w\<lparr>unsettled := take i (unsettled w) @ drop (Suc i) (unsettled w),
                      unreleased := unreleased w @ [rows]\<rparr>
           in if ok then w'\<lparr>written_rows := written_rows w + length rows\<rparr>
              else w'\<lparr>failed_rows := failed_rows w + length rows\<rparr>
      else w)"

text \<open>The \<open>finally\<close> of the oldest settled insert.\<close>

definition release_insert :: "writer \<Rightarrow> writer" where
  "release_insert w =
     (case unreleased w of
        [] \<Rightarrow> w
      | rows # rest \<Rightarrow> w\<lparr>inFlightRows := inFlightRows w - length rows, unreleased := rest\<rparr>)"

datatype writer_action = Enqueue "exposure_row list" | SettleInsert nat bool | ReleaseInsert

fun writer_step :: "nat \<Rightarrow> writer_action \<Rightarrow> writer \<Rightarrow> writer" where
  "writer_step cap (Enqueue rows) w = snd (enqueue cap rows w)"
| "writer_step cap (SettleInsert i ok) w = settle_insert i ok w"
| "writer_step cap ReleaseInsert w = release_insert w"

definition rows_in :: "exposure_row list list \<Rightarrow> nat" where
  "rows_in bs = sum_list (map length bs)"

definition writer_ok :: "nat \<Rightarrow> writer \<Rightarrow> bool" where
  "writer_ok cap w \<longleftrightarrow>
     accepted_rows w = written_rows w + failed_rows w + rows_in (unsettled w)
     \<and> inFlightRows w = rows_in (unsettled w) + rows_in (unreleased w) \<and> inFlightRows w \<le> cap"

lemma rows_in_simps [simp]:
  "rows_in [] = 0" "rows_in (b # bs) = length b + rows_in bs" "rows_in (as @ bs) = rows_in as + rows_in bs"
  by (simp_all add: rows_in_def)

lemma rows_in_remove:
  "i < length bs \<Longrightarrow> rows_in bs = length (bs ! i) + rows_in (take i bs @ drop (Suc i) bs)"
  by (subst (1) id_take_nth_drop [of i bs]) auto

lemma settle_insert_ok:
  assumes "writer_ok cap w" shows "writer_ok cap (settle_insert i ok w)"
proof (cases "i < length (unsettled w)")
  case True
  then show ?thesis using assms rows_in_remove [OF True]
    by (auto simp: settle_insert_def writer_ok_def Let_def)
qed (use assms in \<open>simp add: settle_insert_def\<close>)

lemma writer_step_ok: "writer_ok cap w \<Longrightarrow> writer_ok cap (writer_step cap a w)"
proof (cases a)
  case (Enqueue rows)
  assume "writer_ok cap w"
  with Enqueue show ?thesis by (auto simp: enqueue_def writer_ok_def)
next
  case (SettleInsert i ok)
  assume "writer_ok cap w"
  with SettleInsert settle_insert_ok show ?thesis by simp
next
  case ReleaseInsert
  assume "writer_ok cap w"
  with ReleaseInsert show ?thesis by (auto simp: release_insert_def writer_ok_def split: list.splits)
qed

lemma writer_counters:
  "accepted_rows w \<le> accepted_rows (writer_step cap a w)"
  "written_rows w + failed_rows w \<le> written_rows (writer_step cap a w) + failed_rows (writer_step cap a w)"
  by (cases a; auto simp: enqueue_def settle_insert_def release_insert_def Let_def split: list.splits)+

interpretation writer_pipeline: bounded_pipeline "writer_step cap" "writer_ok cap" accepted_rows
    "\<lambda>w. written_rows w + failed_rows w" "\<lambda>w. rows_in (unsettled w)" cap for cap
  by unfold_locales (erule writer_step_ok | rule writer_counters | simp add: writer_ok_def)+

lemma new_writer_ok [simp]: "writer_ok cap new_writer"
  by (simp add: writer_ok_def new_writer_def)

text \<open>
  C16: the writer accounts for every accepted row and bounds its backlog: after any interleaving of
  batches, settlements and releases, accepted = written + failed + pending, and the rows in flight
  never exceed the cap, so that a crash loses at most that many acknowledged rows.
\<close>

theorem writer_accounts_for_every_row:
  "let w = fold (writer_step cap) actions new_writer in
     accepted_rows w = written_rows w + failed_rows w + rows_in (unsettled w)
     \<and> inFlightRows w \<le> cap \<and> accepted_rows w - (written_rows w + failed_rows w) \<le> cap"
proof -
  have "inFlightRows (fold (writer_step cap) actions new_writer) \<le> cap"
    using writer_pipeline.inv_run [OF new_writer_ok, of cap actions] by (simp add: writer_ok_def)
  then show ?thesis
    using writer_pipeline.balance_run [OF new_writer_ok, of cap actions]
      writer_pipeline.crash_loss [OF new_writer_ok, of cap actions] by (simp add: Let_def)
qed

section \<open>The validation of a batch\<close>

lemma validate_loop_eq:
  "validate_loop date_of now scope index es (rows, rejected) =
    (rows @ concat (map (\<lambda>e. case validate_event date_of now scope e of Inl why \<Rightarrow> [] | Inr row \<Rightarrow> [row]) es),
     rejected @ concat (map (\<lambda>(i, e). case validate_event date_of now scope e of Inl why \<Rightarrow> [(i, why)]
        | Inr row \<Rightarrow> []) (enumerate index es)))"
  by (induction es arbitrary: index rows rejected) (auto split: sum.splits)

lemma validate_event_row:
  assumes "validate_event date_of now scope event = Inr row"
  shows "tenant_id row = tenantId scope \<and> environment_key row = scope_environmentKey scope
    \<and> (\<exists>instant. date_of (value_to_string (get_prop event (lit ''timestamp''))) = Some instant
        \<and> timestamp row = toClickHouseDateTime instant
        \<and> - MAX_BACKDATE_MILLIS \<le> instant - now \<and> instant - now \<le> MAX_CLOCK_SKEW_MILLIS)
    \<and> (\<forall>s \<in> {flag_key row, variation_key row, context_key row, dedupe_key row}.
        0 < length s \<and> length s \<le> MAX_FIELD_LENGTH)
    \<and> is_integer_number (ruleset_version row) \<and> num_le (Fin 0) (ruleset_version row)"
proof -
  have fields: "find (\<lambda>f. \<not> isUsableString (get_prop event f)) required_fields = None"
    using assms by (auto simp: validate_event_def split: if_splits option.splits)
  then have usable: "isUsableString (get_prop event (lit ''flagKey''))"
      "isUsableString (get_prop event (lit ''variationKey''))"
      "isUsableString (get_prop event (lit ''contextKey''))" "isUsableString (get_prop event (lit ''dedupeKey''))"
    by (auto simp: required_fields_def split: if_splits)
  have len: "0 < length (string_of v) \<and> length (string_of v) \<le> MAX_FIELD_LENGTH" if "isUsableString v" for v
    using that by (cases v) auto
  obtain n instant where n: "get_prop event (lit ''rulesetVersion'') = JNum n" "is_integer_number n"
      "\<not> num_lt n (Fin 0)" "date_of (value_to_string (get_prop event (lit ''timestamp''))) = Some instant"
      "\<not> MAX_CLOCK_SKEW_MILLIS < instant - now" "\<not> MAX_BACKDATE_MILLIS < - (instant - now)"
    using assms fields
    by (auto simp: validate_event_def Let_def split: if_splits option.splits js_value.splits)
  have "num_le (Fin 0) n" using n(2,3) by (cases n) auto
  then show ?thesis using assms fields n len [OF usable(1)] len [OF usable(2)] len [OF usable(3)] len [OF usable(4)]
    by (auto simp: validate_event_def Let_def split: if_splits)
qed

lemma batch_length:
  "length (fst (validateBatch date_of now scope events)) + length (snd (validateBatch date_of now scope events))
    = length events"
proof -
  have "length (concat (map (\<lambda>e. case validate_event date_of now scope e of Inl why \<Rightarrow> [] | Inr row \<Rightarrow> [row]) es))
      + length (concat (map (\<lambda>(i, e). case validate_event date_of now scope e of Inl why \<Rightarrow> [(i, why)]
        | Inr row \<Rightarrow> []) (enumerate n es))) = length es" for n es
    by (induction es arbitrary: n) (auto split: sum.splits)
  then show ?thesis by (simp add: validateBatch_def validate_loop_eq)
qed

text \<open>
  A batch is validated event by event: each event gives a row or a rejection with its own index,
  in order and independently of the others, and none of both, so that the rows and the rejections
  together are as many as the events; every row carries the tenant and the environment of the key,
  usable fields, and an instant within the window around the server clock.
\<close>

lemma batch_is_stamped_and_partitioned:
  "case validateBatch date_of now scope events of (rows, rejected) \<Rightarrow>
     rows = concat (map (\<lambda>e. case validate_event date_of now scope e of Inl why \<Rightarrow> [] | Inr row \<Rightarrow> [row]) events)
     \<and> map fst rejected = filter (\<lambda>i. \<exists>why. validate_event date_of now scope (events ! i) = Inl why) [0..<length events]
     \<and> length rows + length rejected = length events
     \<and> list_all (\<lambda>row. tenant_id row = tenantId scope \<and> environment_key row = scope_environmentKey scope
         \<and> (\<exists>instant. timestamp row = toClickHouseDateTime instant
              \<and> - MAX_BACKDATE_MILLIS \<le> instant - now \<and> instant - now \<le> MAX_CLOCK_SKEW_MILLIS)) rows"
proof -
  let ?v = "validate_event date_of now scope"
  let ?row = "\<lambda>e. case ?v e of Inl why \<Rightarrow> [] | Inr row \<Rightarrow> [row]"
  let ?rej = "\<lambda>(i, e). case ?v e of Inl why \<Rightarrow> [(i, why)] | Inr row \<Rightarrow> []"
  have "map fst (concat (map ?rej (enumerate n es)))
      = map ((+) n) (filter (\<lambda>i. \<exists>why. ?v (es ! i) = Inl why) [0..<length es])" for n es
  proof (induction es rule: rev_induct)
    case (snoc e es)
    have "filter (\<lambda>i. \<exists>why. ?v ((es @ [e]) ! i) = Inl why) [0..<length es]
        = filter (\<lambda>i. \<exists>why. ?v (es ! i) = Inl why) [0..<length es]"
      by (rule filter_cong) (simp_all add: nth_append)
    with snoc show ?case by (auto simp: enumerate_append_eq split: sum.splits)
  qed simp
  from this [of 0 events] have "map fst (concat (map ?rej (enumerate 0 events)))
      = filter (\<lambda>i. \<exists>why. ?v (events ! i) = Inl why) [0..<length events]" by (simp add: map_idI)
  moreover have "list_all (\<lambda>row. tenant_id row = tenantId scope \<and> environment_key row = scope_environmentKey scope
         \<and> (\<exists>instant. timestamp row = toClickHouseDateTime instant
              \<and> - MAX_BACKDATE_MILLIS \<le> instant - now \<and> instant - now \<le> MAX_CLOCK_SKEW_MILLIS))
      (concat (map ?row events))"
    unfolding list_all_iff
  proof
    fix row assume "row \<in> set (concat (map ?row events))"
    then obtain e where "?v e = Inr row" by (auto split: sum.splits)
    from validate_event_row [OF this] show "tenant_id row = tenantId scope
        \<and> environment_key row = scope_environmentKey scope \<and> (\<exists>instant. timestamp row = toClickHouseDateTime instant
          \<and> - MAX_BACKDATE_MILLIS \<le> instant - now \<and> instant - now \<le> MAX_CLOCK_SKEW_MILLIS)" by blast
  qed
  moreover have "length (fst (validateBatch date_of now scope events)) +
      length (snd (validateBatch date_of now scope events)) = length events"
    by (rule batch_length)
  ultimately show ?thesis by (simp add: validateBatch_def validate_loop_eq)
qed

section \<open>The ingest route\<close>

record ingest_reply =
  status :: nat
  reply_accepted :: "nat option"
  reply_rejected :: "nat option"

text \<open>
  The handler of \<open>POST /sdk/v1/exposures\<close>, from the scope of the key (\<open>None\<close> when it does not
  authenticate), the writer (\<open>None\<close> when there is none), and the body. An exception is answered with 500.
\<close>

definition ingest_route ::
    "(js_string \<Rightarrow> int option) \<Rightarrow> int \<Rightarrow> nat \<Rightarrow> authenticated_key option \<Rightarrow> js_value \<Rightarrow> writer option
     \<Rightarrow> ingest_reply \<times> writer option" where
  "ingest_route date_of now cap scope body wopt =
     (case scope of
        None \<Rightarrow> (\<lparr>status = 401, reply_accepted = None, reply_rejected = None\<rparr>, wopt)
      | Some key \<Rightarrow>
          (case wopt of
             None \<Rightarrow> (\<lparr>status = 503, reply_accepted = None, reply_rejected = None\<rparr>, wopt)
           | Some w \<Rightarrow>
               (case get_prop body (lit ''events'') of
                  JArr events \<Rightarrow>
                    (if MAX_BATCH_SIZE < length events
                     then (\<lparr>status = 413, reply_accepted = None, reply_rejected = None\<rparr>, wopt)
                     else if list_ex timestamp_raises events
                     then (\<lparr>status = 500, reply_accepted = None, reply_rejected = None\<rparr>, wopt)
                     else
                       let (rows, rejected) = validateBatch date_of now key events;
                           (ok, w') = enqueue cap rows w in
                       if \<not> ok then (\<lparr>status = 429, reply_accepted = Some 0, reply_rejected = None\<rparr>, Some w')
                       else (\<lparr>status = 202, reply_accepted = Some (length rows),
                              reply_rejected = Some (length rejected)\<rparr>, Some w'))
                | _ \<Rightarrow> (\<lparr>status = 400, reply_accepted = None, reply_rejected = None\<rparr>, wopt))))"

text \<open>
  C17: the ingest route takes in exactly what it acknowledges: with status 202 the writer accepts the
  valid rows of the batch, all stamped with the scope of the key, and the reply counts every event as
  accepted or rejected; with any other status the writer accepts nothing.
\<close>

theorem ingest_route_accounts:
  "case ingest_route date_of now cap scope body (Some w) of (reply, wopt) \<Rightarrow>
     \<exists>w'. wopt = Some w' \<and>
       (if status reply = 202
        then \<exists>key events rows. scope = Some key \<and> get_prop body (lit ''events'') = JArr events
          \<and> rows = fst (validateBatch date_of now key events)
          \<and> reply_accepted reply = Some (length rows)
          \<and> reply_rejected reply = Some (length events - length rows)
          \<and> accepted_rows w' = accepted_rows w + length rows
          \<and> unsettled w' = unsettled w @ (if rows = [] then [] else [rows])
          \<and> length events \<le> MAX_BATCH_SIZE
        else accepted_rows w' = accepted_rows w \<and> unsettled w' = unsettled w)"
proof -
  have refuse: "accepted_rows w' = accepted_rows w \<and> unsettled w' = unsettled w"
    if "enqueue cap rows w = (False, w')" for rows w'
    using that by (auto simp: enqueue_def split: if_splits)
  have take: "accepted_rows w' = accepted_rows w + length rows
      \<and> unsettled w' = unsettled w @ (if rows = [] then [] else [rows])"
    if "enqueue cap rows w = (True, w')" for rows w'
    using that by (auto simp: enqueue_def split: if_splits)
  show ?thesis
  proof (cases "\<exists>key events. scope = Some key \<and> get_prop body (lit ''events'') = JArr events
      \<and> length events \<le> MAX_BATCH_SIZE \<and> \<not> list_ex timestamp_raises events")
    case False
    then show ?thesis by (auto simp: ingest_route_def split: option.splits js_value.splits)
  next
    case True
    then obtain key events where ev: "scope = Some key" "get_prop body (lit ''events'') = JArr events"
        "length events \<le> MAX_BATCH_SIZE" "\<not> list_ex timestamp_raises events" by blast
    obtain rows rejected where b: "validateBatch date_of now key events = (rows, rejected)" by fastforce
    obtain ok w' where e: "enqueue cap rows w = (ok, w')" by fastforce
    have "length rejected = length events - length rows"
      using batch_length [of date_of now key events] b by simp
    with ev b e refuse [of rows w'] take [of rows w'] show ?thesis
      by (cases ok) (simp_all add: ingest_route_def Let_def)
  qed
qed

text \<open>
  The comment at \<open>validateBatch\<close> promises that a bad event is dropped alone. One whose timestamp cannot be
  made a text takes its whole batch with it.
\<close>

lemma one_event_fails_the_batch:
  assumes "get_prop body (lit ''events'') = JArr events" "length events \<le> MAX_BATCH_SIZE" "e \<in> set events" "timestamp_raises e"
  shows "ingest_route date_of now cap (Some key) body (Some w)
    = (\<lparr>status = 500, reply_accepted = None, reply_rejected = None\<rparr>, Some w)"
proof -
  have "list_ex timestamp_raises events" using assms(3,4) by (auto simp: list_ex_iff)
  with assms(1,2) show ?thesis by (simp add: ingest_route_def)
qed

lemma one_event_fails_the_batch_witness:
  "timestamp_raises (JObj [(lit ''flagKey'', JStr (lit ''f'')), (lit ''variationKey'', JStr (lit ''on'')),
     (lit ''contextKey'', JStr (lit ''u'')), (lit ''dedupeKey'', JStr (lit ''d'')), (lit ''rulesetVersion'', JNum (Fin 1)),
     (lit ''timestamp'', JObj [(lit ''toString'', JNull)])])"
  by (simp add: timestamp_raises_def required_fields_def integer_version_def MAX_FIELD_LENGTH_def lit_def)

section \<open>Aggregation\<close>

text \<open>
  The queries, over the table as the list of its rows (with the duplicates that a merge has not yet
  collapsed). How the store reads a timestamp is the parameter \<open>instant_of\<close>. Text columns order by
  their UTF-8 bytes.
\<close>

record exposure_query =
  q_tenantId :: js_string
  q_environmentKey :: js_string
  q_flagKey :: js_string
  q_from :: int
  q_to :: int
  q_rulesetVersion :: "js_number option"

record variation_exposures =
  ve_variationKey :: js_string
  ve_exposures :: nat
  ve_distinctContexts :: nat

fun bytes_less :: "8 word list \<Rightarrow> 8 word list \<Rightarrow> bool" where
  "bytes_less [] [] = False"
| "bytes_less [] (y # ys) = True"
| "bytes_less (x # xs) [] = False"
| "bytes_less (x # xs) (y # ys) = (x < y \<or> (x = y \<and> bytes_less xs ys))"

fun insert_key :: "js_string \<Rightarrow> js_string list \<Rightarrow> js_string list" where
  "insert_key k [] = [k]"
| "insert_key k (x # xs) =
     (if k = x then x # xs else if bytes_less (utf8 k) (utf8 x) then k # x # xs else x # insert_key k xs)"

definition uniqExact :: "('a \<Rightarrow> js_string) \<Rightarrow> 'a list \<Rightarrow> nat" where
  "uniqExact column rows = length (remdups (map column rows))"

definition matches_query :: "(js_string \<Rightarrow> int) \<Rightarrow> exposure_query \<Rightarrow> exposure_row \<Rightarrow> bool" where
  "matches_query instant_of q row \<longleftrightarrow>
     tenant_id row = q_tenantId q \<and> environment_key row = q_environmentKey q \<and> flag_key row = q_flagKey q
     \<and> q_from q \<le> instant_of (timestamp row) \<and> instant_of (timestamp row) < q_to q
     \<and> (case q_rulesetVersion q of None \<Rightarrow> True | Some v \<Rightarrow> num_eq (ruleset_version row) v)"

definition exposuresByVariation ::
    "(js_string \<Rightarrow> int) \<Rightarrow> exposure_row list \<Rightarrow> exposure_query \<Rightarrow> variation_exposures list" where
  "exposuresByVariation instant_of table q =
     (let rows = filter (matches_query instant_of q) table in
      map (\<lambda>k. let group = filter (\<lambda>r. variation_key r = k) rows in
            \<lparr>ve_variationKey = k, ve_exposures = uniqExact dedupe_key group,
             ve_distinctContexts = uniqExact context_key group\<rparr>)
        (fold insert_key (map variation_key rows) []))"

definition exposureDenominators ::
    "(js_string \<Rightarrow> int) \<Rightarrow> exposure_row list \<Rightarrow> exposure_query \<Rightarrow> (js_string, nat) js_map" where
  "exposureDenominators instant_of table q =
     index_by ve_variationKey ve_distinctContexts (exposuresByVariation instant_of table q)"

text \<open>The loop of \<open>toBinarySamples\<close>; the error is the message of the \<open>Error\<close> it throws.\<close>

fun samples_loop ::
    "(js_string, js_number) js_map \<Rightarrow> (js_string \<times> js_number) list \<Rightarrow> (js_string, binary_sample) js_map
     \<Rightarrow> js_string + (js_string, binary_sample) js_map" where
  "samples_loop conversions [] samples = Inr samples"
| "samples_loop conversions ((k, n) # ds) samples =
     (let converted = (case map_get conversions k of None \<Rightarrow> Fin 0 | Some c \<Rightarrow> c) in
      if num_lt n converted
      then Inl (lit ''variation '' @ quoted k @ lit '' has '' @ number_to_string converted @
             lit '' conversions against '' @ number_to_string n @ lit '' exposed contexts'')
      else samples_loop conversions ds
             (map_set k \<lparr>sample_n = n, sample_conversions = converted\<rparr> samples))"

definition toBinarySamples ::
    "(js_string, js_number) js_map \<Rightarrow> (js_string, js_number) js_map
     \<Rightarrow> js_string + (js_string, binary_sample) js_map" where
  "toBinarySamples denominators conversions = samples_loop conversions denominators []"

lemma uniqExact_card: "uniqExact column rows = card (column ` set rows)"
  by (simp add: uniqExact_def length_remdups_card_conv)

lemma set_insert_key: "set (insert_key k xs) = insert k (set xs)"
  by (induction xs) auto

lemma set_fold_insert_key: "set (fold insert_key ks xs) = set ks \<union> set xs"
  by (induction ks arbitrary: xs) (auto simp: set_insert_key)

definition variation_counts :: "exposure_row set \<Rightarrow> js_string \<Rightarrow> variation_exposures" where
  "variation_counts rows k =
     \<lparr>ve_variationKey = k, ve_exposures = card (dedupe_key ` {r \<in> rows. variation_key r = k}),
      ve_distinctContexts = card (context_key ` {r \<in> rows. variation_key r = k})\<rparr>"

lemma exposuresByVariation_set:
  "set (exposuresByVariation instant_of table q) =
    variation_counts (set (filter (matches_query instant_of q) table))
      ` variation_key ` set (filter (matches_query instant_of q) table)"
proof -
  have "uniqExact col (filter (\<lambda>r. variation_key r = k) rs) = card (col ` {r \<in> set rs. variation_key r = k})"
    for col k and rs :: "exposure_row list"
    by (simp add: uniqExact_card)
  then show ?thesis
    unfolding exposuresByVariation_def Let_def set_map set_fold_insert_key
    by (simp only: variation_counts_def [abs_def] set_map set_simps(1) Un_empty_right)
qed

text \<open>
  Counting is immune to duplicates and to other tenants: inserting rows again, as a retried batch
  does, and adding rows of another tenant or environment change no count of any variation.
\<close>

lemma counts_ignore_duplicates:
  assumes "set again \<subseteq> set table"
    and "\<forall>r \<in> set foreign. tenant_id r \<noteq> q_tenantId q \<or> environment_key r \<noteq> q_environmentKey q"
  shows "set (exposuresByVariation instant_of (table @ again @ foreign) q)
    = set (exposuresByVariation instant_of table q)"
proof -
  have "set (filter (matches_query instant_of q) (table @ again @ foreign))
      = set (filter (matches_query instant_of q) table)"
    using assms by (auto simp: matches_query_def)
  then show ?thesis by (simp only: exposuresByVariation_set)
qed

definition example_stored :: exposure_row where
  "example_stored = \<lparr>tenant_id = lit ''t1'', environment_key = lit ''prod'', flag_key = lit ''f'',
     variation_key = lit ''on'', context_key = lit ''u'', ruleset_version = Fin 1, timestamp = [],
     dedupe_key = lit ''d1''\<rparr>"

lemma counts_ignore_duplicates_witness:
  "set (exposuresByVariation (\<lambda>s. 5) ([example_stored] @ [example_stored] @ [example_stored\<lparr>tenant_id := lit ''t2''\<rparr>])
      \<lparr>q_tenantId = lit ''t1'', q_environmentKey = lit ''prod'', q_flagKey = lit ''f'', q_from = 0, q_to = 9,
       q_rulesetVersion = None\<rparr>)
   = set (exposuresByVariation (\<lambda>s. 5) [example_stored]
      \<lparr>q_tenantId = lit ''t1'', q_environmentKey = lit ''prod'', q_flagKey = lit ''f'', q_from = 0, q_to = 9,
       q_rulesetVersion = None\<rparr>)"
  by (rule counts_ignore_duplicates) simp_all

lemma samples_loop_ok:
  assumes "samples_loop conversions ds samples = Inr out" "distinct (map fst ds)"
  shows "map_get out = (\<lambda>k. case map_get ds k of
      Some n \<Rightarrow> Some \<lparr>sample_n = n, sample_conversions = (case map_get conversions k of None \<Rightarrow> Fin 0 | Some c \<Rightarrow> c)\<rparr>
    | None \<Rightarrow> map_get samples k)
    \<and> (\<forall>(k, n) \<in> set ds. \<not> num_lt n (case map_get conversions k of None \<Rightarrow> Fin 0 | Some c \<Rightarrow> c))"
  using assms
proof (induction conversions ds samples rule: samples_loop.induct)
  case (2 conversions k n ds samples)
  let ?c = "case map_get conversions k of None \<Rightarrow> Fin 0 | Some c \<Rightarrow> c"
  have ok: "\<not> num_lt n ?c"
      "samples_loop conversions ds (map_set k \<lparr>sample_n = n, sample_conversions = ?c\<rparr> samples) = Inr out"
    using 2(2) by (auto simp: Let_def split: if_splits)
  have "k \<notin> fst ` set ds" "distinct (map fst ds)" using 2(3) by auto
  then have "map_get ds k = None" by (simp add: map_of_eq_None_iff)
  with 2(1) [OF refl ok(1) ok(2) \<open>distinct (map fst ds)\<close>] ok(1) show ?case
    by (auto simp: update_conv' fun_eq_iff split: option.splits)
qed simp

text \<open>
  Joining denominators and conversions either raises, exactly when some variation converted more
  than it was exposed, or gives one sample per variation with exposures, with its denominator and its
  conversions, zero where none were measured.
\<close>

lemma samples_join:
  assumes "distinct (map fst denominators)"
  shows "case toBinarySamples denominators conversions of
      Inl message \<Rightarrow> \<exists>(k, n) \<in> set denominators.
        num_lt n (case map_get conversions k of None \<Rightarrow> Fin 0 | Some c \<Rightarrow> c)
    | Inr samples \<Rightarrow>
        (\<forall>k. map_get samples k = map_option
           (\<lambda>n. \<lparr>sample_n = n, sample_conversions = (case map_get conversions k of None \<Rightarrow> Fin 0 | Some c \<Rightarrow> c)\<rparr>)
           (map_get denominators k))
        \<and> (\<forall>(k, n) \<in> set denominators.
            \<not> num_lt n (case map_get conversions k of None \<Rightarrow> Fin 0 | Some c \<Rightarrow> c))"
proof -
  have raise: "\<exists>(k, n) \<in> set ds. num_lt n (case map_get conversions k of None \<Rightarrow> Fin 0 | Some c \<Rightarrow> c)"
    if "samples_loop conversions ds samples = Inl m" for ds samples m
    using that by (induction conversions ds samples rule: samples_loop.induct)
      (auto simp: Let_def split: if_splits)
  show ?thesis
  proof (cases "toBinarySamples denominators conversions")
    case (Inl m)
    with raise show ?thesis by (auto simp: toBinarySamples_def)
  next
    case (Inr out)
    with samples_loop_ok [of conversions denominators "[]" out] assms show ?thesis
      by (auto simp: toBinarySamples_def split: option.splits)
  qed
qed

lemma samples_join_witness:
  "\<exists>samples. toBinarySamples [(lit ''on'', Fin 10), (lit ''off'', Fin 7)] [(lit ''on'', Fin 3)] = Inr samples
    \<and> map_get samples (lit ''off'') = Some \<lparr>sample_n = Fin 7, sample_conversions = Fin 0\<rparr>"
proof -
  have "distinct (map fst [(lit ''on'', Fin 10), (lit ''off'', Fin (7::rat))])" by simp
  from samples_join [of "[(lit ''on'', Fin 10), (lit ''off'', Fin 7)]" "[(lit ''on'', Fin 3)]"] this
  show ?thesis by (simp add: toBinarySamples_def)
qed

section \<open>The SDK buffer against the batch limit\<close>

lemma half_exact: "round_double (1 / 2) = Fin (1 / 2)"
proof -
  have "ilog2 (1 / 2) = -1" by (simp add: ilog2_def floorlog_def)
  then have e: "ulp_exp (1 / 2) = -53" by (simp add: ulp_exp_def)
  have p: "(2 :: rat) powi (-53) = 1 / 2 ^ 53" by (simp add: power_int_def field_simps)
  have q: "(1 / 2 :: rat) / 2 powi (-53) = of_int (2 ^ 52)" by (simp add: p)
  have "round_pos (1 / 2) = of_int (round_half_even ((1 / 2) / 2 powi (-53))) * 2 powi (-53)"
    by (simp add: round_pos_def e)
  also have "\<dots> = of_int (2 ^ 52) * 2 powi (-53)" by (simp only: q round_half_even_of_int)
  also have "\<dots> = 1 / 2" by (simp add: p)
  finally have r: "round_pos (1 / 2) = 1 / 2" .
  have "(1 / 2 :: rat) < 2 ^ 53" by simp
  with max_pow_gt have "\<not> max_pow \<le> (1 / 2 :: rat)" by linarith
  with r show ?thesis by (simp add: round_double_def)
qed

lemma half_full_records_all:
  assumes "length (queue b) \<le> 5000"
  shows "samplingRate default_config b = Fin 1"
proof -
  have n: "number_of_nat (length (queue b)) = Fin (of_nat (length (queue b)))" "number_of_nat 10000 = Fin 10000"
    using assms by simp_all
  have "num_le (round_double (of_nat (length (queue b)) / 10000)) (round_double (1 / 2))"
    using assms by (intro round_double_mono) simp
  then show ?thesis by (simp add: samplingRate_def default_config_def n half_exact)
qed

text \<open>While a flush is in flight the queue grows past the batch size.\<close>

lemma records_during_flush:
  assumes "in_flight b = Some batch" "\<not> closed_flag b" "length (queue b) + n \<le> 5000"
  shows "let b' = fold (buffer_step default_config) (replicate n (Record e r stamp)) b in
    in_flight b' = Some batch \<and> \<not> closed_flag b' \<and> length (queue b') = length (queue b) + n"
  using assms
proof (induction n arbitrary: b)
  case (Suc n)
  have "maxQueueSize default_config = 10000" by (simp add: default_config_def)
  then have step: "in_flight (buffer_step default_config (Record e r stamp) b) = Some batch"
      "\<not> closed_flag (buffer_step default_config (Record e r stamp) b)"
      "length (queue (buffer_step default_config (Record e r stamp) b)) = length (queue b) + 1"
    using Suc.prems half_full_records_all [of b]
    by (simp_all add: record_event_def Let_def flush_begin_def)
  show ?case using Suc.IH [OF step(1,2)] Suc.prems(3) step(3) by (simp add: Let_def)
qed simp

text \<open>
  A slow flush makes the next batch too large for the server: with the default configuration a
  reachable buffer hands the transport a batch above the limit, which the ingest route rejects whole.
\<close>

lemma sdk_batch_can_exceed_limit:
  "\<exists>actions. let b = fold (buffer_step default_config) actions new_buffer in
     MAX_BATCH_SIZE < length (handed default_config Flush b)"
proof -
  let ?r = "Record example_input (Fin 0) []"
  let ?b1 = "fold (buffer_step default_config) [?r, Flush] new_buffer"
  have "samplingRate default_config new_buffer = Fin 1"
    by (rule half_full_records_all) (simp add: new_buffer_def)
  then have b1: "in_flight ?b1 = Some [make_event example_input [] 1]" "\<not> closed_flag ?b1" "queue ?b1 = []"
    by (simp_all add: record_event_def Let_def flush_begin_def new_buffer_def default_config_def)
  let ?b2 = "fold (buffer_step default_config) (replicate 1001 ?r) ?b1"
  have b2: "in_flight ?b2 = Some [make_event example_input [] 1]" "length (queue ?b2) = 1001"
    using records_during_flush [OF b1(1,2), of 1001] b1(3) by (simp_all add: Let_def)
  let ?b3 = "buffer_step default_config (Settle True) ?b2"
  have b3: "in_flight ?b3 = None" "length (queue ?b3) = 1001"
    using b2 by (simp_all add: flush_end_def)
  then have "queue ?b3 \<noteq> []" by auto
  with b3 have "length (handed default_config Flush ?b3) = 1001"
    by (simp add: handed_def flush_begin_def flying_def)
  then have "MAX_BATCH_SIZE < length (handed default_config Flush
      (fold (buffer_step default_config) ([?r, Flush] @ replicate 1001 ?r @ [Settle True]) new_buffer))"
    by (simp only: fold_append comp_apply fold_simps) (simp only: MAX_BATCH_SIZE_def)
  then show ?thesis unfolding Let_def by blast
qed

end
