(* ===== verification/Json.thy ===== *)
theory Json
  imports Murmur
begin

text \<open>
  \<open>JSON.stringify\<close>, which the code uses for messages and payloads: the well-formed variant of the
  language, which escapes a lone surrogate. \<open>undefined\<close> has no JSON text.
\<close>

definition hex_digit :: "nat \<Rightarrow> 16 word" where
  "hex_digit d = (if d < 10 then of_nat (48 + d) else of_nat (87 + d))"

definition unicode_escape :: "16 word \<Rightarrow> js_string" where
  "unicode_escape c =
     lit [CHR 0x5C, CHR ''u''] @
     [hex_digit (unat c div 4096), hex_digit (unat c div 256 mod 16),
      hex_digit (unat c div 16 mod 16), hex_digit (unat c mod 16)]"

definition json_char :: "16 word \<Rightarrow> js_string" where
  "json_char c =
     (if c = 0x22 then lit [CHR 0x5C, CHR 0x22]
      else if c = 0x5C then lit [CHR 0x5C, CHR 0x5C]
      else if c = 8 then lit [CHR 0x5C, CHR ''b'']
      else if c = 9 then lit [CHR 0x5C, CHR ''t'']
      else if c = 10 then lit [CHR 0x5C, CHR ''n'']
      else if c = 12 then lit [CHR 0x5C, CHR ''f'']
      else if c = 13 then lit [CHR 0x5C, CHR ''r'']
      else if c < 0x20 then unicode_escape c
      else if is_high c \<or> is_low c then unicode_escape c
      else [c])"

fun json_chars :: "js_string \<Rightarrow> js_string" where
  "json_chars [] = []"
| "json_chars [c] = json_char c"
| "json_chars (c # d # cs) =
     (if is_high c \<and> is_low d then c # d # json_chars cs else json_char c @ json_chars (d # cs))"

definition json_string :: "js_string \<Rightarrow> js_string" where
  "json_string s = quoted (json_chars s)"

definition number_text :: "js_number \<Rightarrow> js_string" where
  "number_text n = (if is_finite_number n then number_to_string n else lit ''null'')"

fun json_stringify :: "js_value \<Rightarrow> js_string option" where
  "json_stringify JUndefined = None"
| "json_stringify JNull = Some (lit ''null'')"
| "json_stringify (JBool b) = Some (bool_to_string b)"
| "json_stringify (JNum n) = Some (number_text n)"
| "json_stringify (JStr s) = Some (json_string s)"
| "json_stringify (JArr vs) =
     Some (lit ''['' @
       join (lit '','') (map (\<lambda>v. case json_stringify v of None \<Rightarrow> lit ''null'' | Some t \<Rightarrow> t) vs) @
       lit '']'')"
| "json_stringify (JObj ps) =
     Some (lit ''{'' @
       join (lit '','') (concat (map (\<lambda>(k, v). case json_stringify v of None \<Rightarrow> []
                                       | Some t \<Rightarrow> [json_string k @ lit '':'' @ t]) ps)) @
       lit ''}'')"

lemma json_stringify_example:
  "json_stringify (JObj [(lit ''a'', JArr [JBool True, JUndefined, JStr (lit ''x'')]), (lit ''b'', JUndefined)])
    = Some (lit ''{'' @ quoted (lit ''a'') @ lit '':[true,null,'' @ quoted (lit ''x'') @ lit '']}'')"
  by (simp add: json_string_def json_char_def is_high_def is_low_def lit_def quoted_def
      bool_to_string_def)

end
