(* ===== verification/Ruleset.thy ===== *)
theory Ruleset
  imports Visibility Json
begin

text \<open>
  \<open>apps/control-plane/src/ruleset.ts\<close>: compiling database rows into the two payloads. The rule
  trees of the rows are JSON values, since their validation is what the file is about; the other
  JSONB columns have the type that the code casts them to, or are \<open>None\<close> when the JSON is not an
  array. Reading a property of \<open>null\<close> or \<open>undefined\<close> and iterating what is not iterable raise a
  \<open>TypeError\<close>, the error \<open>TypeErr\<close>.
\<close>

record rule_row =
  row_rule_id :: js_string
  row_description :: js_string
  row_when :: js_value
  row_serve :: serve

record flag_row =
  row_key :: js_string
  row_salt :: js_string
  row_bucket_by :: js_string
  row_variations :: "variation list option"
  row_enabled :: bool
  row_default_variation_key :: js_string
  row_off_variation_key :: js_string
  row_rules :: "rule_row list option"
  row_prerequisites :: "prerequisite list option"

record segment_row =
  row_skey :: js_string
  row_rule_tree :: js_value

record compiled_ruleset =
  cr_server :: ruleset_snapshot
  cr_client :: ruleset_snapshot

datatype compile_error =
    RulesetValidationError "js_string list"
  | TypeErr

fun asArray :: "'a list option \<Rightarrow> 'a list" where
  "asArray (Some xs) = xs"
| "asArray None = []"

lemma in_set_enumerateD: "(i, x) \<in> set (enumerate n xs) \<Longrightarrow> x \<in> set xs"
  by (simp add: enumerate_eq_zip set_zip_rightD)

section \<open>Rule trees as JSON\<close>

definition kind_of :: "js_value \<Rightarrow> js_value" where
  "kind_of node = get_prop node (lit ''kind'')"

definition is_boolean_kind :: "js_value \<Rightarrow> bool" where
  "is_boolean_kind k = (k = JStr (lit ''and'') \<or> k = JStr (lit ''or'') \<or> k = JStr (lit ''not''))"

lemma get_prop_size:
  "get_prop v name = JArr cs \<Longrightarrow> c \<in> set cs \<Longrightarrow> size c < size v"
proof (cases v)
  case (JObj ps)
  assume "get_prop v name = JArr cs" and c: "c \<in> set cs"
  with JObj have "(name, JArr cs) \<in> set ps" by (auto split: option.splits dest: map_of_SomeD)
  then have "size (JArr cs) < size v"
    using JObj size_list_estimation [of "(name, JArr cs)" ps "size (JArr cs)" "size_prod (\<lambda>_. 0) size"]
    by (induction ps arbitrary: v) (auto simp: size_prod_simp)
  moreover have "size c < size (JArr cs)" using c by (induction cs) auto
  ultimately show ?thesis by simp
qed simp_all

text \<open>\<open>validateRuleNode\<close>, as the list of problems it pushes.\<close>

definition condition_problems :: "js_value \<Rightarrow> js_string \<Rightarrow> js_string list" where
  "condition_problems node path =
     (case get_prop node (lit ''attribute'') of JStr s \<Rightarrow>
          (if s = [] then [path @ lit '': condition needs a non-empty attribute''] else [])
        | _ \<Rightarrow> [path @ lit '': condition needs a non-empty attribute'']) @
     (case get_prop node (lit ''operator'') of JStr s \<Rightarrow> []
        | _ \<Rightarrow> [path @ lit '': condition needs an operator'']) @
     (case get_prop node (lit ''values'') of JArr vs \<Rightarrow>
          (if vs = [] then [path @ lit '': condition needs at least one value''] else [])
        | _ \<Rightarrow> [path @ lit '': condition needs at least one value'']) @
     (if get_prop node (lit ''visibility'') \<noteq> JStr (lit ''client'')
         \<and> get_prop node (lit ''visibility'') \<noteq> JStr (lit ''server'')
      then [path @ lit '': condition needs visibility of '' @ quoted (lit ''client'') @ lit '' or '' @
              quoted (lit ''server'')]
      else [])"

definition segment_problems :: "js_value \<Rightarrow> js_string \<Rightarrow> js_string list" where
  "segment_problems node path =
     (case get_prop node (lit ''segmentKey'') of JStr s \<Rightarrow>
          (if s = [] then [path @ lit '': segment reference needs a segmentKey''] else [])
        | _ \<Rightarrow> [path @ lit '': segment reference needs a segmentKey'']) @
     (case get_prop node (lit ''negate'') of JBool b \<Rightarrow> []
        | _ \<Rightarrow> [path @ lit '': segment reference needs a boolean negate''])"

definition json_text :: "js_value \<Rightarrow> js_string" where
  "json_text v = (case json_stringify v of None \<Rightarrow> lit ''undefined'' | Some t \<Rightarrow> t)"

function validateRuleNode :: "js_value \<Rightarrow> js_string \<Rightarrow> nat \<Rightarrow> js_string list" where
  "validateRuleNode node path depth =
     (if depth > 32 then [path @ lit '': rule tree nested deeper than 32 levels'']
      else if \<not> is_object node then [path @ lit '': expected an object'']
      else if kind_of node = JStr (lit ''condition'') then condition_problems node path
      else if is_boolean_kind (kind_of node) then
        (case get_prop node (lit ''children'') of
           JArr cs \<Rightarrow>
             concat (map (\<lambda>(i, child). validateRuleNode child
                 (path @ lit ''.children['' @ show_nat i @ lit '']'') (depth + 1))
               (enumerate 0 cs))
         | _ \<Rightarrow> [path @ lit '': '' @ value_to_string (kind_of node) @ lit '' needs a children array''])
      else if kind_of node = JStr (lit ''segment'') then segment_problems node path
      else [path @ lit '': unknown node kind '' @ json_text (kind_of node)])"
  by pat_completeness auto

termination validateRuleNode
  by (relation "measure (\<lambda>(node, _, _). size node)")
    (auto intro: get_prop_size dest: in_set_enumerateD)

declare validateRuleNode.simps [simp del]

text \<open>\<open>collectSegmentKeys\<close>: \<open>None\<close> is a \<open>TypeError\<close>. A set of JavaScript values tells objects apart.\<close>

definition value_set_add :: "js_value \<Rightarrow> js_value list \<Rightarrow> js_value list" where
  "value_set_add v acc = (if \<not> is_object v \<and> v \<in> set acc then acc else acc @ [v])"

function collectSegmentKeys :: "js_value \<Rightarrow> js_value list \<Rightarrow> js_value list option" where
  "collectSegmentKeys node acc =
     (if node = JNull \<or> node = JUndefined then None
      else if kind_of node = JStr (lit ''segment'')
      then Some (value_set_add (get_prop node (lit ''segmentKey'')) acc)
      else if is_boolean_kind (kind_of node) then
        (case get_prop node (lit ''children'') of
           JArr cs \<Rightarrow> fold (\<lambda>child r. Option.bind r (collectSegmentKeys child)) cs (Some acc)
         | JStr s \<Rightarrow> Some acc
         | _ \<Rightarrow> None)
      else Some acc)"
  by pat_completeness auto

termination collectSegmentKeys
  by (relation "measure (\<lambda>(node, _). size node)") (auto intro: get_prop_size)

declare collectSegmentKeys.simps [simp del]

text \<open>
  The cast of a JSON value to a rule node, for trees that the validation accepts: what the evaluator
  and the filter read from the object. An operator they do not know is \<open>UnknownOperator\<close>, and an
  array or an object among the values is identical to no attribute.
\<close>

fun operator_of :: "js_value \<Rightarrow> operator" where
  "operator_of (JStr s) =
     (case map_of
        [(lit ''eq'', Eq), (lit ''neq'', Neq), (lit ''in'', In), (lit ''notIn'', NotIn),
         (lit ''contains'', Contains), (lit ''startsWith'', StartsWith), (lit ''endsWith'', EndsWith),
         (lit ''matches'', Matches), (lit ''gt'', Gt), (lit ''gte'', Gte), (lit ''lt'', Lt),
         (lit ''lte'', Lte), (lit ''semverGt'', SemverGt), (lit ''semverLt'', SemverLt)] s of
        Some op \<Rightarrow> op | None \<Rightarrow> UnknownOperator s)"
| "operator_of v = UnknownOperator (value_to_string v)"

fun attribute_of :: "js_value \<Rightarrow> attribute_value" where
  "attribute_of (JStr s) = AString s"
| "attribute_of (JNum n) = ANumber n"
| "attribute_of (JBool b) = ABoolean b"
| "attribute_of JNull = ANull"
| "attribute_of v = AObject (value_to_string v)"

function rule_node_of :: "js_value \<Rightarrow> rule_node" where
  "rule_node_of v =
     (let nodes = (case get_prop v (lit ''children'') of JArr cs \<Rightarrow> map rule_node_of cs | _ \<Rightarrow> []) in
      if kind_of v = JStr (lit ''condition'') then
        Condition (value_to_string (get_prop v (lit ''attribute''))) (operator_of (get_prop v (lit ''operator'')))
          (case get_prop v (lit ''values'') of JArr vs \<Rightarrow> map attribute_of vs | _ \<Rightarrow> [])
          (if get_prop v (lit ''visibility'') = JStr (lit ''server'') then ServerOnly else ClientVisible)
      else if kind_of v = JStr (lit ''and'') then AndNode nodes
      else if kind_of v = JStr (lit ''or'') then OrNode nodes
      else if kind_of v = JStr (lit ''not'') then NotNode nodes
      else if kind_of v = JStr (lit ''segment'') then
        SegmentRef (value_to_string (get_prop v (lit ''segmentKey'')))
          (get_prop v (lit ''negate'') = JBool True)
      else UnknownNode (value_to_string (kind_of v)))"
  by pat_completeness auto

termination rule_node_of
  by (relation "measure size") (auto intro: get_prop_size)

declare rule_node_of.simps [simp del]

section \<open>Flags\<close>

definition serve_problems :: "js_string \<Rightarrow> js_string list \<Rightarrow> serve \<Rightarrow> js_string list" where
  "serve_problems path variationKeys served =
     (case served of
        ServeVariation k \<Rightarrow>
          (if k \<notin> set variationKeys
           then [path @ lit '': serves undeclared variation '' @ quoted k] else [])
      | ServeRollout ds \<Rightarrow>
          (if \<not> isValidDistribution ds
           then [path @ lit '': rollout weights must be non-negative integers summing to 100000'']
           else []) @
          map (\<lambda>d. path @ lit '': rollout references undeclared variation '' @ quoted (variationKey d))
            (filter (\<lambda>d. variationKey d \<notin> set variationKeys) ds))"

definition rule_problems ::
    "flag_row \<Rightarrow> js_string list \<Rightarrow> js_string list \<Rightarrow> nat \<Rightarrow> rule_row \<Rightarrow> js_string list option" where
  "rule_problems f segmentKeys variationKeys index rule =
     (let path = lit ''flag '' @ quoted (row_key f) @ lit '' rule['' @ show_nat index @ lit '']'' in
      map_option (\<lambda>keys.
        validateRuleNode (row_when rule) path 0 @
        map (\<lambda>k. path @ lit '': references unknown segment '' @ quoted (value_to_string k))
          (filter (\<lambda>k. k \<notin> JStr ` set segmentKeys) keys) @
        serve_problems path variationKeys (row_serve rule))
      (collectSegmentKeys (row_when rule) []))"

definition validateFlag :: "flag_row \<Rightarrow> js_string list \<Rightarrow> js_string list option" where
  "validateFlag f segmentKeys =
     (let variations' = asArray (row_variations f);
          variationKeys = set_of_list (map vkey variations');
          place = lit ''flag '' @ quoted (row_key f) in
      if length variationKeys = 0 then Some [place @ lit '': needs at least one variation'']
      else map_option (\<lambda>ps.
        (if length variationKeys \<noteq> length variations'
         then [place @ lit '': duplicate variation keys''] else []) @
        (if row_default_variation_key f \<notin> set variationKeys
         then [place @ lit '': defaultVariationKey is not a declared variation''] else []) @
        (if row_off_variation_key f \<notin> set variationKeys
         then [place @ lit '': offVariationKey is not a declared variation''] else []) @
        concat ps)
      (those (map (\<lambda>(i, r). rule_problems f segmentKeys variationKeys i r)
        (enumerate 0 (asArray (row_rules f))))))"

section \<open>Prerequisite cycles\<close>

text \<open>
  The depth-first search of \<open>findPrerequisiteCycle\<close>. Its state is the map of marks and the path;
  the recursion is bounded by fuel, and \<open>visit_enough\<close> shows that one unit per flag, and one more,
  is enough.
\<close>

datatype mark = Visiting | Finished

type_synonym search_state = "(js_string, mark) js_map \<times> js_string list"
type_synonym search_result = "(js_string list option \<times> search_state) option"

fun visit_all :: "(js_string \<Rightarrow> search_state \<Rightarrow> search_result) \<Rightarrow> js_string list \<Rightarrow> search_state \<Rightarrow> search_result"
where
  "visit_all visitor [] st = Some (None, st)"
| "visit_all visitor (k # ks) st =
     (case visitor k st of
        None \<Rightarrow> None
      | Some (Some found, st') \<Rightarrow> Some (Some found, st')
      | Some (None, st') \<Rightarrow> visit_all visitor ks st')"

fun visit :: "nat \<Rightarrow> (js_string, flag_row) js_map \<Rightarrow> js_string \<Rightarrow> search_state \<Rightarrow> search_result" where
  "visit 0 byKey key st = None"
| "visit (Suc fuel) byKey key (state, path) =
     (case map_get state key of
        Some Finished \<Rightarrow> Some (None, (state, path))
      | Some Visiting \<Rightarrow> Some (Some (dropWhile (\<lambda>x. x \<noteq> key) path @ [key]), (state, path))
      | None \<Rightarrow>
          (case map_get byKey key of
             None \<Rightarrow> Some (None, (state, path))
           | Some f \<Rightarrow>
               (case visit_all (visit fuel byKey) (map pre_flagKey (asArray (row_prerequisites f)))
                       (map_set key Visiting state, path @ [key]) of
                  None \<Rightarrow> None
                | Some (Some found, st') \<Rightarrow> Some (Some found, st')
                | Some (None, (state', path')) \<Rightarrow>
                    Some (None, (map_set key Finished state', butlast path')))))"

definition cycle_search :: "flag_row list \<Rightarrow> search_result" where
  "cycle_search fs =
     visit_all (visit (length fs + 2) (index_by row_key id fs)) (map row_key fs) ([], [])"

definition findPrerequisiteCycle :: "flag_row list \<Rightarrow> js_string list option" where
  "findPrerequisiteCycle fs = (case cycle_search fs of Some (found, st) \<Rightarrow> found | None \<Rightarrow> None)"

section \<open>Compiling\<close>

definition flag_of_row :: "flag_row \<Rightarrow> flag" where
  "flag_of_row row =
     \<lparr>fkey = row_key row, enabled = row_enabled row, salt = row_salt row,
      variations = asArray (row_variations row),
      defaultVariationKey = row_default_variation_key row,
      offVariationKey = row_off_variation_key row,
      prerequisites = asArray (row_prerequisites row),
      rules = map (\<lambda>r. \<lparr>rule_id = row_rule_id r, description = row_description r,
                        rule_when = rule_node_of (row_when r), rule_serve = row_serve r\<rparr>)
                (asArray (row_rules row)),
      bucketBy = row_bucket_by row\<rparr>"

definition segment_of_row :: "segment_row \<Rightarrow> segment" where
  "segment_of_row row = \<lparr>skey = row_skey row, seg_when = rule_node_of (row_rule_tree row)\<rparr>"

definition prerequisite_problems :: "js_string list \<Rightarrow> flag_row \<Rightarrow> js_string list" where
  "prerequisite_problems flagKeys f =
     map (\<lambda>p. lit ''flag '' @ quoted (row_key f) @ lit '': prerequisite '' @ quoted (pre_flagKey p) @
            lit '' does not exist'')
       (filter (\<lambda>p. pre_flagKey p \<notin> set flagKeys) (asArray (row_prerequisites f)))"

text \<open>Everything that is pushed to \<open>problems\<close>, in order.\<close>

definition ruleset_problems :: "flag_row list \<Rightarrow> segment_row list \<Rightarrow> js_string list option" where
  "ruleset_problems frows srows =
     (let segmentKeys = set_of_list (map row_skey srows);
          flagKeys = set_of_list (map row_key frows) in
      map_option (\<lambda>ps.
        concat (map (\<lambda>s. validateRuleNode (row_rule_tree s) (lit ''segment '' @ quoted (row_skey s)) 0) srows) @
        concat ps @
        (case findPrerequisiteCycle frows of
           None \<Rightarrow> []
         | Some cycle \<Rightarrow> [lit ''prerequisite cycle: '' @ join (lit '' -> '') cycle]))
      (those (map (\<lambda>f. map_option (\<lambda>ps. ps @ prerequisite_problems flagKeys f)
                         (validateFlag f segmentKeys)) frows)))"

text \<open>\<open>now\<close> is the clock, for a call without \<open>servedAt\<close>.\<close>

definition compileRuleset ::
    "js_string \<Rightarrow> js_string \<Rightarrow> js_number \<Rightarrow> flag_row list \<Rightarrow> segment_row list \<Rightarrow> js_string option
     \<Rightarrow> compile_error + compiled_ruleset" where
  "compileRuleset now envKey ver frows srows served =
     (case ruleset_problems frows srows of
        None \<Rightarrow> Inl TypeErr
      | Some problems \<Rightarrow>
          (if problems \<noteq> [] then Inl (RulesetValidationError problems)
           else
             let server = \<lparr>environmentKey = envKey, version = ver, flags = map flag_of_row frows,
                           segments = map segment_of_row srows,
                           servedAt = (case served of None \<Rightarrow> now | Some t \<Rightarrow> t)\<rparr>;
                 client = filterSnapshotForKey server KindClient;
                 leaks = findServerOnlyLeaks client in
             if leaks \<noteq> []
             then Inl (RulesetValidationError
                    [lit ''client payload would leak server-only material: '' @ join (lit '', '') leaks])
             else Inr \<lparr>cr_server = server, cr_client = client\<rparr>))"

section \<open>Accepted rule trees\<close>

text \<open>
  What an accepted tree is, \<open>n\<close> levels being left: known nodes only, conditions with an attribute
  and at least one value, references with a key.
\<close>

fun well_formed_node :: "nat \<Rightarrow> rule_node \<Rightarrow> bool" where
  "well_formed_node n (Condition a op vs vis) \<longleftrightarrow> a \<noteq> [] \<and> vs \<noteq> []"
| "well_formed_node n (AndNode cs) \<longleftrightarrow> (cs = [] \<or> 0 < n) \<and> list_all (well_formed_node (n - 1)) cs"
| "well_formed_node n (OrNode cs) \<longleftrightarrow> (cs = [] \<or> 0 < n) \<and> list_all (well_formed_node (n - 1)) cs"
| "well_formed_node n (NotNode cs) \<longleftrightarrow> (cs = [] \<or> 0 < n) \<and> list_all (well_formed_node (n - 1)) cs"
| "well_formed_node n (SegmentRef k negated) \<longleftrightarrow> k \<noteq> []"
| "well_formed_node n (UnknownNode kind) \<longleftrightarrow> False"

lemma condition_problems_Nil:
  "condition_problems v path = [] \<Longrightarrow>
    \<exists>a op vs. get_prop v (lit ''attribute'') = JStr a \<and> a \<noteq> [] \<and> get_prop v (lit ''operator'') = JStr op
      \<and> get_prop v (lit ''values'') = JArr vs \<and> vs \<noteq> []"
  by (auto simp: condition_problems_def split: js_value.splits if_splits)

lemma segment_problems_Nil:
  "segment_problems v path = [] \<Longrightarrow>
    \<exists>k b. get_prop v (lit ''segmentKey'') = JStr k \<and> k \<noteq> [] \<and> get_prop v (lit ''negate'') = JBool b"
  by (auto simp: segment_problems_def split: js_value.splits if_splits)

lemma enumerate_all: "(\<forall>(i, x) \<in> set (enumerate n xs). P x) \<longleftrightarrow> (\<forall>x \<in> set xs. P x)"
  by (induction xs arbitrary: n) auto

text \<open>The shape of an accepted tree, case by case.\<close>

lemma accepted_cases:
  assumes "validateRuleNode v path d = []"
  obtains
    (condition) a op vs where "d \<le> 32" "kind_of v = JStr (lit ''condition'')"
      "get_prop v (lit ''attribute'') = JStr a" "a \<noteq> []" "get_prop v (lit ''operator'') = JStr op"
      "get_prop v (lit ''values'') = JArr vs" "vs \<noteq> []"
  | (boolean) cs where "d \<le> 32" "is_boolean_kind (kind_of v)" "get_prop v (lit ''children'') = JArr cs"
      "\<forall>c \<in> set cs. \<exists>path'. validateRuleNode c path' (d + 1) = []"
  | (segment) k b where "d \<le> 32" "kind_of v = JStr (lit ''segment'')"
      "get_prop v (lit ''segmentKey'') = JStr k" "k \<noteq> []" "get_prop v (lit ''negate'') = JBool b"
proof -
  note eq = assms [unfolded validateRuleNode.simps [of v path d]]
  have d: "d \<le> 32" using eq by (auto split: if_splits)
  have obj: "is_object v" using eq by (auto split: if_splits)
  consider "kind_of v = JStr (lit ''condition'')" | "is_boolean_kind (kind_of v)"
    | "kind_of v = JStr (lit ''segment'')"
    using eq by (auto split: if_splits)
  then show thesis
  proof cases
    case 1
    with eq d obj have "condition_problems v path = []" by simp
    from condition_problems_Nil [OF this] 1 d show thesis by (blast intro: condition)
  next
    case 2
    then have nocond: "kind_of v \<noteq> JStr (lit ''condition'')" by (auto simp: is_boolean_kind_def)
    obtain cs where cs: "get_prop v (lit ''children'') = JArr cs"
      using eq d obj nocond 2 by (auto split: js_value.splits)
    have "\<forall>(i, c) \<in> set (enumerate 0 cs). \<exists>path'. validateRuleNode c path' (d + 1) = []"
      using eq d obj nocond 2 cs by fastforce
    then have "\<forall>c \<in> set cs. \<exists>path'. validateRuleNode c path' (d + 1) = []"
      by (simp only: enumerate_all)
    with d 2 cs show thesis by (rule boolean)
  next
    case 3
    with eq d obj have "segment_problems v path = []" by (simp add: is_boolean_kind_def)
    from segment_problems_Nil [OF this] 3 d show thesis by (blast intro: segment)
  qed
qed

lemma rule_node_of_boolean:
  assumes "is_boolean_kind (kind_of v)" "get_prop v (lit ''children'') = JArr cs"
  shows "rule_node_of v = AndNode (map rule_node_of cs) \<or> rule_node_of v = OrNode (map rule_node_of cs)
    \<or> rule_node_of v = NotNode (map rule_node_of cs)"
  using assms by (subst (1 2 3) rule_node_of.simps) (auto simp: is_boolean_kind_def)

lemma rule_node_of_leaf:
  "kind_of v = JStr (lit ''condition'') \<Longrightarrow> get_prop v (lit ''attribute'') = JStr a \<Longrightarrow>
    get_prop v (lit ''values'') = JArr vs \<Longrightarrow>
    rule_node_of v = Condition a (operator_of (get_prop v (lit ''operator''))) (map attribute_of vs)
      (if get_prop v (lit ''visibility'') = JStr (lit ''server'') then ServerOnly else ClientVisible)"
  "kind_of v = JStr (lit ''segment'') \<Longrightarrow> get_prop v (lit ''segmentKey'') = JStr k \<Longrightarrow>
    get_prop v (lit ''negate'') = JBool b \<Longrightarrow> rule_node_of v = SegmentRef k b"
  by (subst rule_node_of.simps, simp)+

lemma accepted_well_formed:
  "validateRuleNode v path d = [] \<Longrightarrow> well_formed_node (32 - d) (rule_node_of v)"
proof (induction v arbitrary: path d rule: measure_induct_rule [where f = size])
  case (less v)
  from less.prems show ?case
  proof (cases rule: accepted_cases)
    case condition
    then show ?thesis by (simp add: rule_node_of_leaf)
  next
    case segment
    then show ?thesis by (simp add: rule_node_of_leaf)
  next
    case (boolean cs)
    have kids: "\<forall>c \<in> set cs. well_formed_node (32 - (d + 1)) (rule_node_of c)"
      using boolean(4) less.IH get_prop_size [OF boolean(3)] by blast
    have "cs = [] \<or> d + 1 \<le> 32"
    proof (cases cs)
      case (Cons c cs')
      with boolean(4) obtain path' where "validateRuleNode c path' (d + 1) = []" by auto
      then show ?thesis by (cases rule: accepted_cases) auto
    qed simp
    then show ?thesis using kids rule_node_of_boolean [OF boolean(2,3)]
      by (auto simp: list_all_iff)
  qed
qed

lemma set_value_set_add [simp]: "set (value_set_add v acc) = insert v (set acc)"
  by (auto simp: value_set_add_def)

lemma fold_collect:
  assumes "\<And>c acc. c \<in> set cs \<Longrightarrow> \<exists>ks. collectSegmentKeys c acc = Some ks
      \<and> set ks = set acc \<union> JStr ` segment_refs (rule_node_of c)"
  shows "\<exists>ks. fold (\<lambda>c r. Option.bind r (collectSegmentKeys c)) cs (Some acc) = Some ks
      \<and> set ks = set acc \<union> JStr ` (\<Union>c \<in> set cs. segment_refs (rule_node_of c))"
  using assms
proof (induction cs arbitrary: acc)
  case (Cons c cs)
  obtain ks where ks: "collectSegmentKeys c acc = Some ks"
      "set ks = set acc \<union> JStr ` segment_refs (rule_node_of c)"
    using Cons.prems [of c acc] by auto
  obtain ks' where "fold (\<lambda>c r. Option.bind r (collectSegmentKeys c)) cs (Some ks) = Some ks'"
      "set ks' = set ks \<union> JStr ` (\<Union>c \<in> set cs. segment_refs (rule_node_of c))"
    using Cons.IH [of ks] Cons.prems by auto
  with ks show ?case by (simp add: image_Un Un_assoc)
qed simp

text \<open>On an accepted tree, collecting never raises and finds the keys the tree references.\<close>

lemma collect_accepted:
  "validateRuleNode v path d = [] \<Longrightarrow>
    \<exists>ks. collectSegmentKeys v acc = Some ks \<and> set ks = set acc \<union> JStr ` segment_refs (rule_node_of v)"
proof (induction v arbitrary: path d acc rule: measure_induct_rule [where f = size])
  case (less v)
  have obj: "v \<noteq> JNull" "v \<noteq> JUndefined"
    using less.prems by (auto simp: validateRuleNode.simps split: if_splits)
  from less.prems show ?case
  proof (cases rule: accepted_cases)
    case condition
    then show ?thesis using obj
      by (simp add: rule_node_of_leaf collectSegmentKeys.simps is_boolean_kind_def)
  next
    case segment
    then show ?thesis using obj by (simp add: rule_node_of_leaf collectSegmentKeys.simps)
  next
    case (boolean cs)
    have kids: "\<exists>ks. collectSegmentKeys c acc = Some ks
        \<and> set ks = set acc \<union> JStr ` segment_refs (rule_node_of c)" if "c \<in> set cs" for c acc
      using boolean(4) less.IH get_prop_size [OF boolean(3)] that by blast
    have "collectSegmentKeys v acc = fold (\<lambda>c r. Option.bind r (collectSegmentKeys c)) cs (Some acc)"
      using boolean obj by (subst collectSegmentKeys.simps) (auto simp: is_boolean_kind_def)
    then show ?thesis using fold_collect [OF kids] rule_node_of_boolean [OF boolean(2,3)] by auto
  qed
qed

section \<open>The search for a prerequisite cycle\<close>

definition succs :: "(js_string, flag_row) js_map \<Rightarrow> js_string \<Rightarrow> js_string list" where
  "succs m k = (case map_get m k of None \<Rightarrow> [] | Some f \<Rightarrow> map pre_flagKey (asArray (row_prerequisites f)))"

lemma in_succs:
  "r \<in> set (succs m k) \<longleftrightarrow>
    (\<exists>f p. map_get m k = Some f \<and> p \<in> set (asArray (row_prerequisites f)) \<and> r = pre_flagKey p)"
  by (cases "map_get m k") (auto simp: succs_def)

definition requires :: "(js_string, flag_row) js_map \<Rightarrow> (js_string \<times> js_string) set" where
  "requires m = {(k, r). r \<in> set (succs m k)}"

text \<open>Every prerequisite chain from the key ends.\<close>

inductive grounded :: "(js_string, flag_row) js_map \<Rightarrow> js_string \<Rightarrow> bool" for m where
  grounded: "(\<And>r. r \<in> set (succs m k) \<Longrightarrow> grounded m r) \<Longrightarrow> grounded m k"

definition is_cycle :: "(js_string, flag_row) js_map \<Rightarrow> js_string list \<Rightarrow> bool" where
  "is_cycle m c \<longleftrightarrow> 2 \<le> length c \<and> hd c = last c \<and> successively (\<lambda>a b. b \<in> set (succs m a)) c"

definition search_inv :: "(js_string, flag_row) js_map \<Rightarrow> search_state \<Rightarrow> bool" where
  "search_inv m st \<longleftrightarrow> (case st of (state, path) \<Rightarrow>
     distinct path \<and> set path \<subseteq> fst ` set m \<and> (\<forall>k. map_get state k = Some Visiting \<longleftrightarrow> k \<in> set path)
     \<and> (\<forall>k. map_get state k = Some Finished \<longrightarrow> grounded m k)
     \<and> successively (\<lambda>a b. b \<in> set (succs m a)) path)"

definition search_ok :: "(js_string, flag_row) js_map \<Rightarrow> js_string list \<Rightarrow> js_string list \<Rightarrow> search_result \<Rightarrow> bool"
where
  "search_ok m path ks res \<longleftrightarrow>
     (\<exists>found state' path'. res = Some (found, (state', path')) \<and>
        (case found of Some c \<Rightarrow> is_cycle m c
         | None \<Rightarrow> path' = path \<and> search_inv m (state', path) \<and> (\<forall>k \<in> set ks. grounded m k)))"

lemma search_ok_Cons: "search_ok m path ks res \<Longrightarrow> grounded m k \<Longrightarrow> search_ok m path (k # ks) res"
  unfolding search_ok_def by (elim exE, rule exI, rule exI, rule exI) (auto split: option.splits)

lemma visit_all_ok:
  assumes "\<And>k state. k \<in> set ks \<Longrightarrow> search_inv m (state, path) \<Longrightarrow>
      search_ok m path [k] (visitor k (state, path))"
    and "search_inv m (state, path)"
  shows "search_ok m path ks (visit_all visitor ks (state, path))"
  using assms
proof (induction ks arbitrary: state)
  case Nil
  then show ?case by (simp add: search_ok_def)
next
  case (Cons k ks)
  obtain found state' path' where v: "visitor k (state, path) = Some (found, (state', path'))"
      "case found of Some c \<Rightarrow> is_cycle m c
         | None \<Rightarrow> path' = path \<and> search_inv m (state', path) \<and> (\<forall>x \<in> set [k]. grounded m x)"
    using Cons.prems(1) [of k state] Cons.prems(2) unfolding search_ok_def by auto
  show ?case
  proof (cases found)
    case None
    with v have inv: "path' = path" "search_inv m (state', path)" "grounded m k" by auto
    have "search_ok m path ks (visit_all visitor ks (state', path))"
      by (rule Cons.IH [OF _ inv(2)]) (use Cons.prems(1) in auto)
    moreover have "visit_all visitor (k # ks) (state, path) = visit_all visitor ks (state', path)"
      using v None inv by simp
    ultimately show ?thesis using search_ok_Cons inv(3) by simp
  next
    case (Some c)
    with v show ?thesis by (auto simp: search_ok_def)
  qed
qed

lemma closing_edge_cycle:
  assumes "successively (\<lambda>a b. b \<in> set (succs m a)) path" "key \<in> set path"
    "key \<in> set (succs m (last path))"
  shows "is_cycle m (dropWhile (\<lambda>x. x \<noteq> key) path @ [key])"
proof -
  let ?tail = "dropWhile (\<lambda>x. x \<noteq> key) path"
  have ne: "?tail \<noteq> []" using assms(2) by (simp add: dropWhile_eq_Nil_conv)
  have path: "path = takeWhile (\<lambda>x. x \<noteq> key) path @ ?tail" by simp
  have "successively (\<lambda>a b. b \<in> set (succs m a)) ?tail"
    using assms(1) path by (metis successively_append_iff)
  moreover have "last ?tail = last path" using ne path by (metis last_appendR)
  moreover have "hd ?tail = key" using ne hd_dropWhile [of "\<lambda>x. x \<noteq> key" path] by simp
  ultimately show ?thesis using ne assms(3)
    by (simp add: is_cycle_def successively_append_iff Suc_le_eq)
qed

lemma search_inv_enter:
  assumes "search_inv m (state, path)" "map_get state key = None" "map_get m key = Some f"
    and "path = [] \<or> key \<in> set (succs m (last path))"
  shows "search_inv m (map_set key Visiting state, path @ [key])"
proof -
  have "map_get state key = Some Visiting \<longleftrightarrow> key \<in> set path"
    using assms(1) by (simp add: search_inv_def)
  then have "key \<notin> set path" using assms(2) by simp
  moreover have "key \<in> fst ` set m" using assms(3) by (auto dest: map_of_SomeD intro: rev_image_eqI)
  ultimately show ?thesis using assms(1,4)
    by (auto simp: search_inv_def update_conv' successively_append_iff)
qed

lemma search_inv_leave:
  assumes "search_inv m (state, path @ [key])" "grounded m key"
  shows "search_inv m (map_set key Finished state, path)"
  using assms by (auto simp: search_inv_def update_conv' successively_append_iff)

lemma visit_enough:
  assumes "search_inv m (state, path)" "path = [] \<or> key \<in> set (succs m (last path))"
    and "card (fst ` set m - set path) < fuel"
  shows "search_ok m path [key] (visit fuel m key (state, path))"
  using assms
proof (induction fuel arbitrary: key state path)
  case (Suc fuel)
  show ?case
  proof (cases "map_get state key")
    case (Some mk)
    show ?thesis
    proof (cases mk)
      case Finished
      with Some Suc.prems(1) show ?thesis by (auto simp: search_ok_def search_inv_def)
    next
      case Visiting
      with Some Suc.prems(1) have "key \<in> set path" "successively (\<lambda>a b. b \<in> set (succs m a)) path"
        by (auto simp: search_inv_def)
      moreover from this(1) Suc.prems(2) have "key \<in> set (succs m (last path))" by auto
      ultimately have "is_cycle m (dropWhile (\<lambda>x. x \<noteq> key) path @ [key])"
        by (intro closing_edge_cycle)
      with Some Visiting show ?thesis by (simp add: search_ok_def)
    qed
  next
    case unmarked: None
    show ?thesis
    proof (cases "map_get m key")
      case None
      have "grounded m key" by (rule grounded) (simp add: succs_def None)
      with unmarked None Suc.prems(1) show ?thesis by (simp add: search_ok_def)
    next
      case (Some f)
      let ?ks = "map pre_flagKey (asArray (row_prerequisites f))"
      let ?run = "visit_all (visit fuel m) ?ks (map_set key Visiting state, path @ [key])"
      have ks: "succs m key = ?ks" by (simp add: succs_def Some)
      have inv: "search_inv m (map_set key Visiting state, path @ [key])"
        by (rule search_inv_enter [OF Suc.prems(1) unmarked Some Suc.prems(2)])
      have "map_get state key = Some Visiting \<longleftrightarrow> key \<in> set path"
        using Suc.prems(1) by (simp add: search_inv_def)
      then have "key \<notin> set path" using unmarked by simp
      then have "card (fst ` set m - set (path @ [key])) < fuel"
        using unseen_decreases [OF Some, of path] Suc.prems(3) by simp
      then have "search_ok m (path @ [key]) ?ks ?run"
        by (intro visit_all_ok [OF _ inv] Suc.IH) (simp_all add: ks [symmetric])
      then obtain found state' path' where run: "?run = Some (found, (state', path'))"
          "case found of Some c \<Rightarrow> is_cycle m c
            | None \<Rightarrow> path' = path @ [key] \<and> search_inv m (state', path @ [key]) \<and> (\<forall>k \<in> set ?ks. grounded m k)"
        unfolding search_ok_def by blast
      show ?thesis
      proof (cases found)
        case None
        with run have "path' = path @ [key]" "search_inv m (state', path @ [key])" "grounded m key"
          using grounded [of m key] by (auto simp: ks)
        with run None unmarked Some search_inv_leave show ?thesis by (simp add: search_ok_def)
      next
        case (Some c)
        with run unmarked \<open>map_get m key = Some f\<close> show ?thesis by (simp add: search_ok_def)
      qed
    qed
  qed
qed simp

lemma grounded_no_cycle: "grounded m k \<Longrightarrow> (k, k) \<notin> (requires m)\<^sup>+"
proof (induction rule: grounded.induct)
  case (grounded k)
  show ?case
  proof
    assume "(k, k) \<in> (requires m)\<^sup>+"
    then obtain r where r: "(k, r) \<in> requires m" "(r, k) \<in> (requires m)\<^sup>*" by (meson tranclD)
    then have "(r, r) \<in> (requires m)\<^sup>+" by (meson rtrancl_into_trancl1)
    with r(1) grounded.IH show False by (auto simp: requires_def)
  qed
qed

lemma successively_rtrancl:
  "successively (\<lambda>a b. b \<in> set (succs m a)) (a # c) \<Longrightarrow> (a, last (a # c)) \<in> (requires m)\<^sup>*"
proof (induction c arbitrary: a)
  case (Cons b c)
  then have "(a, b) \<in> requires m" "(b, last (b # c)) \<in> (requires m)\<^sup>*"
    by (auto simp: requires_def)
  then show ?case by (simp add: converse_rtrancl_into_rtrancl)
qed simp

lemma is_cycle_trancl:
  assumes "is_cycle m c" shows "\<exists>k. (k, k) \<in> (requires m)\<^sup>+"
proof -
  obtain a b c' where c: "c = a # b # c'" using assms
    by (cases c; cases "tl c") (auto simp: is_cycle_def)
  with assms have "(a, b) \<in> requires m" "(b, last (b # c')) \<in> (requires m)\<^sup>*" "a = last (b # c')"
    using successively_rtrancl [of m b c'] by (auto simp: is_cycle_def requires_def)
  then show ?thesis by (metis rtrancl_into_trancl2)
qed

section \<open>Accepted rulesets\<close>

lemma cycle_search_correct:
  "cycle_search fs \<noteq> None \<and>
    (case findPrerequisiteCycle fs of
       None \<Rightarrow> acyclic (requires (index_by row_key id fs))
     | Some c \<Rightarrow> is_cycle (index_by row_key id fs) c \<and> \<not> acyclic (requires (index_by row_key id fs)))"
proof -
  let ?m = "index_by row_key id fs"
  have "fst ` set ?m = row_key ` set fs" using set_keys_index_by [of row_key id fs] by simp
  then have dom: "fst ` set ?m = row_key ` set fs" "card (fst ` set ?m) \<le> length fs"
    by (simp_all add: card_length [of "map row_key fs", simplified])
  have "search_ok ?m [] (map row_key fs) (cycle_search fs)"
    unfolding cycle_search_def
    by (intro visit_all_ok visit_enough) (use dom(2) in \<open>auto simp: search_inv_def\<close>)
  then obtain found state' path' where run: "cycle_search fs = Some (found, (state', path'))"
      "case found of Some c \<Rightarrow> is_cycle ?m c | None \<Rightarrow> \<forall>k \<in> set (map row_key fs). grounded ?m k"
    unfolding search_ok_def by (auto split: option.splits)
  show ?thesis
  proof (cases found)
    case None
    have "acyclic (requires ?m)"
    proof (rule acyclicI, intro allI notI)
      fix k assume c: "(k, k) \<in> (requires ?m)\<^sup>+"
      then obtain r where "(k, r) \<in> requires ?m" by (meson tranclD)
      then have "map_get ?m k \<noteq> None"
        by (cases "map_get ?m k") (auto simp: requires_def succs_def)
      then have "k \<in> row_key ` set fs" by (simp add: index_by_None_iff)
      with run None have "grounded ?m k" by auto
      with grounded_no_cycle c show False by blast
    qed
    with run None show ?thesis by (simp add: findPrerequisiteCycle_def)
  next
    case (Some c)
    with run is_cycle_trancl [of ?m c] show ?thesis
      by (auto simp: findPrerequisiteCycle_def acyclic_def)
  qed
qed

text \<open>
  C7: the search for a prerequisite cycle always returns within its fuel, reports a cycle exactly
  when the prerequisites have one, and what it reports is a path of requirements back to its start.
\<close>

theorem prerequisite_cycle_search:
  "cycle_search fs \<noteq> None \<and>
    (case findPrerequisiteCycle fs of
       None \<Rightarrow> acyclic (requires (index_by row_key id fs))
     | Some c \<Rightarrow> is_cycle (index_by row_key id fs) c \<and> \<not> acyclic (requires (index_by row_key id fs)))"
  by (rule cycle_search_correct)

lemma those_map_Nil:
  "those (map g xs) = Some yss \<Longrightarrow> concat yss = [] \<Longrightarrow> \<forall>x \<in> set xs. g x = Some []"
  by (induction xs arbitrary: yss) (auto split: option.splits)

lemma those_map_SomeD: "those (map g xs) = Some yss \<Longrightarrow> x \<in> set xs \<Longrightarrow> \<exists>y \<in> set yss. g x = Some y"
  by (induction xs arbitrary: yss) (auto split: option.splits)

text \<open>What the evaluator relies on: every variation a flag can serve is declared.\<close>

definition serve_ok :: "flag \<Rightarrow> serve \<Rightarrow> bool" where
  "serve_ok f served \<longleftrightarrow>
     (case served of
        ServeVariation k \<Rightarrow> k \<in> vkey ` set (variations f)
      | ServeRollout ds \<Rightarrow> isValidDistribution ds \<and> variationKey ` set ds \<subseteq> vkey ` set (variations f))"

definition valid_flag :: "flag \<Rightarrow> bool" where
  "valid_flag f \<longleftrightarrow> defaultVariationKey f \<in> vkey ` set (variations f)
     \<and> offVariationKey f \<in> vkey ` set (variations f) \<and> (\<forall>r \<in> set (rules f). serve_ok f (rule_serve r))"

lemma resultFor_declared:
  "k \<in> vkey ` set (variations f) \<Longrightarrow> \<not> is_error why \<Longrightarrow>
    \<not> is_error (reason (resultFor (compile_flag f) k why fallback b))"
proof -
  assume k: "k \<in> vkey ` set (variations f)" and why: "\<not> is_error why"
  obtain v where "map_get (cf_variations (compile_flag f)) k = Some v"
    using k index_by_Some_ex [where key = vkey and val = id and xs = "variations f"]
    by (auto simp: compile_flag_def)
  with why show ?thesis by (simp add: resultFor_def)
qed

lemma serve_rule_ok:
  assumes "valid_flag f" "serve_ok f (rule_serve r)"
  shows "\<not> is_error (reason (serve_rule c (compile_flag f) fallback r))"
proof (cases "rule_serve r")
  case (ServeVariation k)
  with assms show ?thesis by (simp add: serve_rule_def serve_ok_def resultFor_declared)
next
  case (ServeRollout ds)
  show ?thesis
  proof (cases "resolveBucketKey f c")
    case None
    with ServeRollout assms show ?thesis by (simp add: serve_rule_def valid_flag_def resultFor_declared)
  next
    case (Some bk)
    have ds: "isValidDistribution ds" "variationKey ` set ds \<subseteq> vkey ` set (variations f)"
      using assms(2) ServeRollout by (simp_all add: serve_ok_def)
    obtain k where k: "k \<in> variationKey ` set ds"
        "variationForBucket ds (bucketFor (fkey f) (salt f) bk) = Some k"
      using variationForBucket_total [OF ds(1) bucketFor_range] by blast
    from k(1) ds(2) have "k \<in> vkey ` set (variations f)" by blast
    with k(2) ServeRollout Some show ?thesis
      by (simp add: serve_rule_def Let_def resultFor_declared)
  qed
qed

lemma evaluateFlag_valid:
  assumes "map_get (env_flags env) k = Some (compile_flag f)" "valid_flag f"
  shows "\<not> is_error (reason (evaluateFlag regex k c env fallback))"
proof -
  have "\<not> is_error (reason (evaluate_rules regex c env (compile_flag f) fallback (rules f)))"
    using assms(2) serve_rule_ok [OF assms(2)]
    by (auto simp: evaluate_rules_first_match valid_flag_def resultFor_declared
        dest!: first_match_SomeD split: option.splits)
  then show ?thesis using assms
    by (auto simp: evaluateFlag_def evaluateInternal.simps [where seen = "[]"] valid_flag_def
        resultFor_declared split: option.splits)
qed

lemma valid_flag_filter: "valid_flag f \<Longrightarrow> valid_flag (filterFlag safe f)"
  by (simp add: valid_flag_def serve_ok_def cong: serve.case_cong)

lemma serve_problems_Nil:
  "serve_problems path (set_of_list (map vkey (variations f))) served = [] \<Longrightarrow> serve_ok f served"
  by (auto simp: serve_problems_def serve_ok_def filter_empty_conv split: serve.splits if_splits)

lemma rule_problems_Nil:
  assumes "rule_problems f ks vks i r = Some []"
  shows "\<exists>path. validateRuleNode (row_when r) path 0 = []"
    and "segment_refs (rule_node_of (row_when r)) \<subseteq> set ks"
    and "\<exists>path. serve_problems path vks (row_serve r) = []"
proof -
  obtain path keys where p: "collectSegmentKeys (row_when r) [] = Some keys"
      "validateRuleNode (row_when r) path 0 = []"
      "filter (\<lambda>k. k \<notin> JStr ` set ks) keys = []" "serve_problems path vks (row_serve r) = []"
    using assms by (auto simp: rule_problems_def Let_def)
  then show "\<exists>path. validateRuleNode (row_when r) path 0 = []"
    "\<exists>path. serve_problems path vks (row_serve r) = []" by blast+
  from collect_accepted [OF p(2), of "[]"] p(1,3)
  show "segment_refs (rule_node_of (row_when r)) \<subseteq> set ks"
    by (fastforce simp: filter_empty_conv)
qed

lemma validateFlag_Nil:
  assumes "validateFlag row ks = Some []"
  shows "valid_flag (flag_of_row row)"
    and "distinct (map vkey (asArray (row_variations row)))"
    and "\<forall>r \<in> set (asArray (row_rules row)). (\<exists>path. validateRuleNode (row_when r) path 0 = [])
      \<and> segment_refs (rule_node_of (row_when r)) \<subseteq> set ks"
proof -
  let ?f = "flag_of_row row"
  let ?vks = "set_of_list (map vkey (asArray (row_variations row)))"
  have vars: "variations ?f = asArray (row_variations row)"
    "defaultVariationKey ?f = row_default_variation_key row"
    "offVariationKey ?f = row_off_variation_key row" by (simp_all add: flag_of_row_def)
  obtain ps where ps: "those (map (\<lambda>(i, r). rule_problems row ks ?vks i r)
        (enumerate 0 (asArray (row_rules row)))) = Some ps" "concat ps = []"
      "row_default_variation_key row \<in> set ?vks" "row_off_variation_key row \<in> set ?vks"
      "length ?vks = length (asArray (row_variations row))"
    using assms by (auto simp: validateFlag_def Let_def split: if_splits)
  have "\<forall>(i, r) \<in> set (enumerate 0 (asArray (row_rules row))). \<exists>i. rule_problems row ks ?vks i r = Some []"
    using those_map_Nil [OF ps(1,2)] by fastforce
  then have rules: "\<forall>r \<in> set (asArray (row_rules row)). \<exists>i. rule_problems row ks ?vks i r = Some []"
    by (simp only: enumerate_all)
  have "\<forall>r \<in> set (asArray (row_rules row)). serve_ok ?f (row_serve r)"
  proof
    fix r assume "r \<in> set (asArray (row_rules row))"
    with rules obtain i where "rule_problems row ks ?vks i r = Some []" by blast
    from rule_problems_Nil(3) [OF this] show "serve_ok ?f (row_serve r)"
      using serve_problems_Nil [of _ ?f] by (auto simp: vars)
  qed
  with ps(3,4) show "valid_flag ?f" by (auto simp: valid_flag_def vars) (auto simp: flag_of_row_def)
  from ps(5) have "length ?vks = length (map vkey (asArray (row_variations row)))" by simp
  then show "distinct (map vkey (asArray (row_variations row)))" by (simp only: length_set_of_list_eq)
  from rules show "\<forall>r \<in> set (asArray (row_rules row)). (\<exists>path. validateRuleNode (row_when r) path 0 = [])
      \<and> segment_refs (rule_node_of (row_when r)) \<subseteq> set ks"
    using rule_problems_Nil(1,2) by blast
qed

lemma ruleset_problems_Nil:
  assumes "ruleset_problems frows srows = Some []"
  shows "\<forall>s \<in> set srows. \<exists>path. validateRuleNode (row_rule_tree s) path 0 = []"
    and "\<forall>f \<in> set frows. validateFlag f (set_of_list (map row_skey srows)) = Some []"
    and "\<forall>f \<in> set frows. \<forall>p \<in> set (asArray (row_prerequisites f)). pre_flagKey p \<in> row_key ` set frows"
    and "findPrerequisiteCycle frows = None"
proof -
  let ?ks = "set_of_list (map row_skey srows)"
  let ?fk = "set_of_list (map row_key frows)"
  obtain ps where ps: "those (map (\<lambda>f. map_option (\<lambda>ps. ps @ prerequisite_problems ?fk f)
        (validateFlag f ?ks)) frows) = Some ps" "concat ps = []"
      "concat (map (\<lambda>s. validateRuleNode (row_rule_tree s) (lit ''segment '' @ quoted (row_skey s)) 0) srows) = []"
      "findPrerequisiteCycle frows = None"
    using assms by (auto simp: ruleset_problems_def Let_def split: option.splits)
  from those_map_Nil [OF ps(1,2)]
  have f: "\<forall>f \<in> set frows. validateFlag f ?ks = Some [] \<and> prerequisite_problems ?fk f = []" by auto
  then show "\<forall>f \<in> set frows. validateFlag f ?ks = Some []" by blast
  from f show "\<forall>f \<in> set frows. \<forall>p \<in> set (asArray (row_prerequisites f)). pre_flagKey p \<in> row_key ` set frows"
    by (auto simp: prerequisite_problems_def filter_empty_conv)
  from ps(3,4) show "\<forall>s \<in> set srows. \<exists>path. validateRuleNode (row_rule_tree s) path 0 = []"
    "findPrerequisiteCycle frows = None" by auto
qed

lemma compile_accepted:
  assumes "compileRuleset now envKey ver frows srows served = Inr c"
  shows "ruleset_problems frows srows = Some []"
    and "flags (cr_server c) = map flag_of_row frows"
    and "segments (cr_server c) = map segment_of_row srows"
    and "version (cr_server c) = ver" "environmentKey (cr_server c) = envKey"
    and "cr_client c = filterSnapshotForKey (cr_server c) KindClient"
  using assms by (auto simp: compileRuleset_def Let_def split: option.splits if_splits)

lemma flag_of_row_simps [simp]:
  "fkey (flag_of_row row) = row_key row"
  "prerequisites (flag_of_row row) = asArray (row_prerequisites row)"
  by (simp_all add: flag_of_row_def)

lemma server_flag_lookup:
  assumes "flags s = map flag_of_row frows" "k \<in> row_key ` set frows"
  shows "\<exists>row \<in> set frows. row_key row = k
    \<and> map_get (env_flags (indexSnapshot s)) k = Some (compile_flag (flag_of_row row))"
proof -
  have "map_get (env_flags (indexSnapshot s)) k \<noteq> None"
    using assms(2) by (simp add: indexSnapshot_def index_by_None_iff assms(1) image_image del: not_None_eq)
  then obtain c where c: "map_get (env_flags (indexSnapshot s)) k = Some c" by blast
  with env_flags_index [OF c] show ?thesis by (auto simp: assms(1))
qed

lemma accepted_flag:
  assumes "compileRuleset now envKey ver frows srows served = Inr c" "k \<in> row_key ` set frows"
  obtains row where "row \<in> set frows" "row_key row = k" "valid_flag (flag_of_row row)"
    "map_get (env_flags (indexSnapshot (cr_server c))) k = Some (compile_flag (flag_of_row row))"
proof -
  note acc = compile_accepted [OF assms(1)]
  obtain row where "row \<in> set frows" "row_key row = k"
      "map_get (env_flags (indexSnapshot (cr_server c))) k = Some (compile_flag (flag_of_row row))"
    using server_flag_lookup [OF acc(2) assms(2)] by blast
  with ruleset_problems_Nil(2) [OF acc(1)] validateFlag_Nil(1) that show thesis by blast
qed

lemma accepted_evaluates:
  assumes "compileRuleset now envKey ver frows srows served = Inr c" "k \<in> row_key ` set frows"
  shows "\<not> is_error (reason (evaluateFlag regex k context' (indexSnapshot (cr_server c)) fallback))
    \<and> \<not> is_error (reason (evaluateFlag regex k context' (indexSnapshot (cr_client c)) fallback))"
proof -
  obtain row where row: "valid_flag (flag_of_row row)"
      "map_get (env_flags (indexSnapshot (cr_server c))) k = Some (compile_flag (flag_of_row row))"
    using accepted_flag [OF assms] by blast
  from evaluateFlag_valid [OF row(2,1)] evaluateFlag_valid [OF client_flag_lookup [OF row(2)] valid_flag_filter [OF row(1)]]
  show ?thesis by (simp add: compile_accepted(6) [OF assms(1)])
qed

lemma compile_no_leaks:
  "compileRuleset now envKey ver frows srows served = Inr c \<Longrightarrow> findServerOnlyLeaks (cr_client c) = []"
  by (auto simp: compileRuleset_def Let_def split: option.splits if_splits)

text \<open>
  C1: publishing guards evaluation: in both payloads of an accepted ruleset, evaluating any of its
  flags, for any context and fallback, never ends in an error: the served variation is declared, and
  the rollouts leave no bucket out.
\<close>

theorem accepted_ruleset_never_errors:
  assumes "compileRuleset now envKey ver frows srows served = Inr c" "k \<in> row_key ` set frows"
  shows "\<not> is_error (reason (evaluateFlag regex k context' (indexSnapshot (cr_server c)) fallback))
    \<and> \<not> is_error (reason (evaluateFlag regex k context' (indexSnapshot (cr_client c)) fallback))"
  using assms by (rule accepted_evaluates)

text \<open>A finite acyclic requirement relation has a ranking: the number of flags a key depends on.\<close>

lemma finite_requires: "finite (requires m)"
proof -
  have "requires m \<subseteq> (\<Union>(k, f) \<in> set m. (\<lambda>p. (k, pre_flagKey p)) ` set (asArray (row_prerequisites f)))"
  proof (rule subsetI)
    fix e assume "e \<in> requires m"
    then obtain k f p where "e = (k, pre_flagKey p)" "map_of m k = Some f"
        "p \<in> set (asArray (row_prerequisites f))"
      by (auto simp: requires_def in_succs)
    then show "e \<in> (\<Union>(k, f) \<in> set m. (\<lambda>p. (k, pre_flagKey p)) ` set (asArray (row_prerequisites f)))"
      by (auto dest: map_of_SomeD)
  qed
  then show ?thesis by (rule finite_subset) auto
qed

lemma acyclic_ranked:
  assumes "finite r" "acyclic r" "(x, y) \<in> r"
  shows "card {z. (y, z) \<in> r\<^sup>+} < card {z. (x, z) \<in> r\<^sup>+}"
proof (rule psubset_card_mono)
  have "{z. (x, z) \<in> r\<^sup>+} \<subseteq> snd ` (r\<^sup>+)" by (auto intro: rev_image_eqI)
  then show "finite {z. (x, z) \<in> r\<^sup>+}" by (rule finite_subset) (simp add: assms(1))
  have "(y, y) \<notin> r\<^sup>+" using assms(2) by (auto simp: acyclic_def)
  moreover have "(x, y) \<in> r\<^sup>+" using assms(3) by auto
  moreover have "{z. (y, z) \<in> r\<^sup>+} \<subseteq> {z. (x, z) \<in> r\<^sup>+}"
    using assms(3) by (auto intro: trancl_into_trancl2)
  ultimately show "{z. (y, z) \<in> r\<^sup>+} \<subset> {z. (x, z) \<in> r\<^sup>+}" by blast
qed

lemma find_map_flag_of_row:
  "find (\<lambda>f. fkey f = k) (rev (map flag_of_row rows)) = map_option flag_of_row (find (\<lambda>r. row_key r = k) (rev rows))"
  by (induction rows) (auto simp: find_snoc flag_of_row_def split: option.splits)

lemma flag_edges_requires:
  "flags s = map flag_of_row frows \<Longrightarrow> flag_edges (indexSnapshot s) = requires (index_by row_key id frows)"
  by (auto simp: flag_edges_def requires_def in_succs indexSnapshot_def map_of_index_by
      find_map_flag_of_row)

lemma accepted_ranked:
  assumes "compileRuleset now envKey ver frows srows served = Inr c"
  shows "\<exists>rank. flags_ranked (indexSnapshot (cr_server c)) rank"
proof -
  note acc = compile_accepted [OF assms]
  let ?r = "requires (index_by row_key id frows)"
  have "acyclic ?r"
    using cycle_search_correct [of frows] ruleset_problems_Nil(4) [OF acc(1)] by simp
  from acyclic_ranked [OF finite_requires this] have
    "flags_ranked (indexSnapshot (cr_server c)) (\<lambda>k. card {z. (k, z) \<in> ?r\<^sup>+})"
    by (auto simp: flags_ranked_def flag_edges_requires [OF acc(2)])
  then show ?thesis by blast
qed

text \<open>
  C3: in an accepted ruleset every prerequisite is resolved for real: its upstream flag exists, and
  an enabled flag falls back to its off variation exactly for the first prerequisite whose upstream
  flag, evaluated on its own and without an error, serves another variation.
\<close>

theorem accepted_prerequisites_resolve:
  assumes "compileRuleset now envKey ver frows srows served = Inr c"
    and "map_get (env_flags (indexSnapshot (cr_server c))) k = Some cf" "enabled (cf_flag cf)"
  shows "(\<forall>p \<in> set (prerequisites (cf_flag cf)). \<not> is_error (reason
        (evaluateFlag regex (pre_flagKey p) context' (indexSnapshot (cr_server c)) JUndefined)))
    \<and> evaluateFlag regex k context' (indexSnapshot (cr_server c)) fallback =
    (case find (\<lambda>p. rvariationKey (evaluateFlag regex (pre_flagKey p) context' (indexSnapshot (cr_server c)) JUndefined)
                    \<noteq> pre_variationKey p) (prerequisites (cf_flag cf)) of
       Some p \<Rightarrow> resultFor cf (offVariationKey (cf_flag cf)) (RPrerequisiteFailed (pre_flagKey p)) fallback None
     | None \<Rightarrow> evaluate_rules regex context' (indexSnapshot (cr_server c)) cf fallback (rules (cf_flag cf)))"
proof -
  note acc = compile_accepted [OF assms(1)]
  obtain row where row: "row \<in> set frows" "cf = compile_flag (flag_of_row row)"
    using env_flags_index [OF assms(2)] by (auto simp: acc(2))
  have "\<not> is_error (reason (evaluateFlag regex (pre_flagKey p) context' (indexSnapshot (cr_server c)) JUndefined))"
    if "p \<in> set (prerequisites (cf_flag cf))" for p
  proof -
    have "pre_flagKey p \<in> row_key ` set frows"
      using ruleset_problems_Nil(3) [OF acc(1)] row that by auto
    then obtain row' where "valid_flag (flag_of_row row')"
        "map_get (env_flags (indexSnapshot (cr_server c))) (pre_flagKey p) = Some (compile_flag (flag_of_row row'))"
      using accepted_flag [OF assms(1)] by blast
    then show ?thesis by (intro evaluateFlag_valid)
  qed
  with accepted_ranked [OF assms(1)] evaluateFlag_unguarded [OF _ assms(2,3)] show ?thesis by blast
qed

text \<open>
  With one row per segment key the outcome of compiling is decided by the validation alone: the
  defence-in-depth check on the client payload never rejects a ruleset.
\<close>

lemma compile_valid:
  assumes "distinct (map row_skey srows)" "ruleset_problems frows srows = Some []"
  shows "\<exists>c. compileRuleset now envKey ver frows srows served = Inr c"
proof -
  have "distinct (map skey (map segment_of_row srows))"
    using assms(1) by (simp add: segment_of_row_def comp_def)
  then have "findServerOnlyLeaks (filterSnapshotForKey \<lparr>environmentKey = envKey, version = ver,
      flags = map flag_of_row frows, segments = map segment_of_row srows,
      servedAt = (case served of None \<Rightarrow> now | Some t \<Rightarrow> t)\<rparr> KindClient) = []"
    by (intro findServerOnlyLeaks_client) simp
  with assms(2) show ?thesis by (simp add: compileRuleset_def Let_def)
qed

section \<open>Writing rule trees as JSON\<close>

text \<open>The JSON of a rule node, as the console and the API send it.\<close>

fun operator_name :: "operator \<Rightarrow> js_string" where
  "operator_name Eq = lit ''eq''"
| "operator_name Neq = lit ''neq''"
| "operator_name In = lit ''in''"
| "operator_name NotIn = lit ''notIn''"
| "operator_name Contains = lit ''contains''"
| "operator_name StartsWith = lit ''startsWith''"
| "operator_name EndsWith = lit ''endsWith''"
| "operator_name Matches = lit ''matches''"
| "operator_name Gt = lit ''gt''"
| "operator_name Gte = lit ''gte''"
| "operator_name Lt = lit ''lt''"
| "operator_name Lte = lit ''lte''"
| "operator_name SemverGt = lit ''semverGt''"
| "operator_name SemverLt = lit ''semverLt''"
| "operator_name (UnknownOperator s) = s"

fun attribute_json :: "attribute_value \<Rightarrow> js_value" where
  "attribute_json (AString s) = JStr s"
| "attribute_json (ANumber n) = JNum n"
| "attribute_json (ABoolean b) = JBool b"
| "attribute_json ANull = JNull"
| "attribute_json (AObject s) = JObj []"

definition visibility_json :: "visibility \<Rightarrow> js_value" where
  "visibility_json vis = JStr (case vis of ClientVisible \<Rightarrow> lit ''client'' | ServerOnly \<Rightarrow> lit ''server'')"

definition boolean_json :: "string \<Rightarrow> js_value list \<Rightarrow> js_value" where
  "boolean_json kind cs = JObj [(lit ''kind'', JStr (lit kind)), (lit ''children'', JArr cs)]"

fun rule_node_json :: "rule_node \<Rightarrow> js_value" where
  "rule_node_json (Condition a op vs vis) =
     JObj [(lit ''kind'', JStr (lit ''condition'')), (lit ''attribute'', JStr a),
           (lit ''operator'', JStr (operator_name op)), (lit ''values'', JArr (map attribute_json vs)),
           (lit ''visibility'', visibility_json vis)]"
| "rule_node_json (AndNode cs) = boolean_json ''and'' (map rule_node_json cs)"
| "rule_node_json (OrNode cs) = boolean_json ''or'' (map rule_node_json cs)"
| "rule_node_json (NotNode cs) = boolean_json ''not'' (map rule_node_json cs)"
| "rule_node_json (SegmentRef k negated) =
     JObj [(lit ''kind'', JStr (lit ''segment'')), (lit ''segmentKey'', JStr k),
           (lit ''negate'', JBool negated)]"
| "rule_node_json (UnknownNode kind) = JObj [(lit ''kind'', JStr kind)]"

text \<open>What the wire contract can write: no object among the values, no alias of a known operator.\<close>

fun contract_node :: "rule_node \<Rightarrow> bool" where
  "contract_node (Condition a op vs vis) \<longleftrightarrow>
     operator_of (JStr (operator_name op)) = op \<and> list_all (\<lambda>v. attribute_of (attribute_json v) = v) vs"
| "contract_node (AndNode cs) \<longleftrightarrow> list_all contract_node cs"
| "contract_node (OrNode cs) \<longleftrightarrow> list_all contract_node cs"
| "contract_node (NotNode cs) \<longleftrightarrow> list_all contract_node cs"
| "contract_node n \<longleftrightarrow> True"

lemma operator_name_inverse: "(\<forall>s. op \<noteq> UnknownOperator s) \<Longrightarrow> operator_of (JStr (operator_name op)) = op"
  by (cases op) simp_all

lemma kind_of_simps [simp]:
  "kind_of (boolean_json kind cs) = JStr (lit kind)"
  "kind_of (JObj ((lit ''kind'', v) # ps)) = v"
  by (simp_all add: kind_of_def boolean_json_def)

lemma get_children [simp]: "get_prop (boolean_json kind cs) (lit ''children'') = JArr cs"
  and boolean_json_object [simp]: "is_object (boolean_json kind cs)"
  by (simp_all add: boolean_json_def)

lemma boolean_json_accepted:
  assumes "kind \<in> {''and'', ''or'', ''not''}" "d \<le> 32" "\<forall>c \<in> set cs. \<forall>path. validateRuleNode c path (d + 1) = []"
  shows "validateRuleNode (boolean_json kind cs) path d = []"
proof -
  have "is_boolean_kind (JStr (lit kind))" "kind \<noteq> ''condition''"
    using assms(1) by (auto simp: is_boolean_kind_def)
  moreover have "\<forall>(i, c) \<in> set (enumerate 0 cs). validateRuleNode c (path @ lit ''.children['' @ show_nat i @ lit '']'') (d + 1) = []"
    using assms(3) by (auto dest: in_set_enumerateD)
  ultimately show ?thesis using assms(2)
    by (subst validateRuleNode.simps) (auto split: prod.splits)
qed

lemma children_accepted:
  assumes "\<And>c d path. c \<in> set cs \<Longrightarrow> well_formed_node (32 - d) c \<Longrightarrow> contract_node c \<Longrightarrow> d \<le> 32 \<Longrightarrow>
      validateRuleNode (rule_node_json c) path d = [] \<and> rule_node_of (rule_node_json c) = c"
    and "cs = [] \<or> 0 < 32 - d" "list_all (well_formed_node (32 - d - 1)) cs" "list_all contract_node cs"
  shows "(\<forall>c \<in> set cs. \<forall>path. validateRuleNode (rule_node_json c) path (d + 1) = [])
    \<and> map (rule_node_of \<circ> rule_node_json) cs = cs"
proof -
  have "validateRuleNode (rule_node_json c) path (d + 1) = [] \<and> rule_node_of (rule_node_json c) = c"
    if "c \<in> set cs" for c path
    using that assms(2-4) by (intro assms(1)) (auto simp: list_all_iff)
  then show ?thesis by (simp add: map_idI)
qed

lemma rule_node_json_accepted:
  assumes "well_formed_node (32 - d) node" "contract_node node" "d \<le> 32"
  shows "validateRuleNode (rule_node_json node) path d = [] \<and> rule_node_of (rule_node_json node) = node"
  using assms
proof (induction node arbitrary: d path)
  case (Condition a op vs vis)
  then show ?case
    by (cases vis) (auto simp: validateRuleNode.simps condition_problems_def visibility_json_def
        rule_node_of.simps list_all_iff map_idI)
next
  case (SegmentRef k negated)
  then show ?case
    by (auto simp: validateRuleNode.simps segment_problems_def rule_node_of.simps is_boolean_kind_def)
next
  case (UnknownNode kind)
  then show ?case by simp
next
  case (AndNode cs)
  have "cs = [] \<or> 0 < 32 - d" "list_all (well_formed_node (32 - d - 1)) cs" "list_all contract_node cs"
    using AndNode.prems by simp_all
  from children_accepted [OF AndNode.IH this] AndNode.prems(3) show ?case
    by (simp add: boolean_json_accepted rule_node_of.simps [of "boolean_json _ _"])
next
  case (OrNode cs)
  have "cs = [] \<or> 0 < 32 - d" "list_all (well_formed_node (32 - d - 1)) cs" "list_all contract_node cs"
    using OrNode.prems by simp_all
  from children_accepted [OF OrNode.IH this] OrNode.prems(3) show ?case
    by (simp add: boolean_json_accepted rule_node_of.simps [of "boolean_json _ _"])
next
  case (NotNode cs)
  have "cs = [] \<or> 0 < 32 - d" "list_all (well_formed_node (32 - d - 1)) cs" "list_all contract_node cs"
    using NotNode.prems by simp_all
  from children_accepted [OF NotNode.IH this] NotNode.prems(3) show ?case
    by (simp add: boolean_json_accepted rule_node_of.simps [of "boolean_json _ _"])
qed

text \<open>
  C8: the validation of a rule tree accepts only what the evaluator understands, and nothing less:
  an accepted JSON value reads as a tree of known nodes at most 32 levels deep, with an attribute and
  a value in every condition; and every such tree of the wire contract, written as JSON, is accepted
  and reads back as itself.
\<close>

theorem rule_tree_validation:
  "(validateRuleNode v path 0 = [] \<longrightarrow> well_formed_node 32 (rule_node_of v))
    \<and> (well_formed_node 32 node \<and> contract_node node \<longrightarrow>
        validateRuleNode (rule_node_json node) path 0 = [] \<and> rule_node_of (rule_node_json node) = node)"
  using accepted_well_formed [of v path 0] rule_node_json_accepted [of 0 node path] by simp

definition example_tree :: rule_node where
  "example_tree = OrNode [SegmentRef (lit ''staff'') False,
     NotNode [Condition (lit ''plan'') In [AString (lit ''free''), ANull] ClientVisible]]"

theorem rule_tree_validation_witness:
  "validateRuleNode (rule_node_json example_tree) (lit ''p'') 0 = []
    \<and> rule_node_of (rule_node_json example_tree) = example_tree"
proof -
  have "well_formed_node 32 example_tree \<and> contract_node example_tree"
    by (simp add: example_tree_def)
  with rule_tree_validation [of "JNull" "lit ''p''" example_tree] show ?thesis by blast
qed

section \<open>An accepted ruleset\<close>

definition example_row :: flag_row where
  "example_row =
     \<lparr>row_key = lit ''checkout-redesign'', row_salt = lit ''salt-a'', row_bucket_by = lit ''key'',
      row_variations = Some [\<lparr>vkey = lit ''off'', vvalue = JBool False\<rparr>, \<lparr>vkey = lit ''on'', vvalue = JBool True\<rparr>],
      row_enabled = True, row_default_variation_key = lit ''off'', row_off_variation_key = lit ''off'',
      row_rules = Some
        [\<lparr>row_rule_id = lit ''staff'', row_description = [],
          row_when = rule_node_json (SegmentRef (lit ''staff'') False),
          row_serve = ServeVariation (lit ''on'')\<rparr>,
         \<lparr>row_rule_id = lit ''rollout'', row_description = [], row_when = rule_node_json (AndNode []),
          row_serve = ServeRollout example_rollout\<rparr>],
      row_prerequisites = Some []\<rparr>"

definition gated_row :: flag_row where
  "gated_row = example_row\<lparr>row_key := lit ''gated'', row_rules := None,
     row_prerequisites := Some [\<lparr>pre_flagKey = lit ''checkout-redesign'', pre_variationKey = lit ''on''\<rparr>]\<rparr>"

definition staff_row :: segment_row where
  "staff_row = \<lparr>row_skey = lit ''staff'',
     row_rule_tree = rule_node_json (Condition (lit ''email'') EndsWith [AString (lit ''@corp.test'')] ServerOnly)\<rparr>"

lemma example_when:
  "validateRuleNode (rule_node_json (SegmentRef (lit ''staff'') False)) path 0 = []"
  "validateRuleNode (rule_node_json (AndNode [])) path 0 = []"
  "validateRuleNode (rule_node_json (Condition (lit ''email'') EndsWith [AString (lit ''@corp.test'')] ServerOnly)) path 0 = []"
  by (rule rule_node_json_accepted [of 0, THEN conjunct1]; simp)+

lemma example_collect:
  "collectSegmentKeys (rule_node_json (SegmentRef (lit ''staff'') False)) [] = Some [JStr (lit ''staff'')]"
  "collectSegmentKeys (rule_node_json (AndNode [])) [] = Some []"
  by (simp_all add: collectSegmentKeys.simps value_set_add_def is_boolean_kind_def)
    (simp_all add: boolean_json_def)

lemma example_validate:
  "validateFlag example_row [lit ''staff''] = Some []" "validateFlag gated_row [lit ''staff''] = Some []"
proof -
  have vks: "set_of_list [lit ''off'', lit ''on''] = [lit ''off'', lit ''on'']"
    by (simp add: set_of_list_def set_add_def)
  have ds: "\<forall>d \<in> set example_rollout. variationKey d = lit ''off'' \<or> variationKey d = lit ''on''"
    by (simp add: example_rollout_def)
  have rules: "rule_problems f [lit ''staff''] [lit ''off'', lit ''on''] i r = Some []"
    if "r \<in> set (asArray (row_rules example_row))" for f i r
    using that ds example_rollout_valid
    by (auto simp: example_row_def rule_problems_def Let_def example_collect example_when serve_problems_def
        filter_empty_conv simp del: rule_node_json.simps)
  show "validateFlag example_row [lit ''staff''] = Some []"
    using rules by (simp add: validateFlag_def Let_def vks example_row_def)
  show "validateFlag gated_row [lit ''staff''] = Some []"
    by (simp add: validateFlag_def Let_def vks gated_row_def example_row_def)
qed

lemma example_accepted: "ruleset_problems [example_row, gated_row] [staff_row] = Some []"
proof -
  have "findPrerequisiteCycle [example_row, gated_row] = None"
    by (simp add: findPrerequisiteCycle_def cycle_search_def index_by_def example_row_def gated_row_def
        numeral_eq_Suc)
  moreover have "prerequisite_problems (set_of_list (map row_key [example_row, gated_row])) f = []"
    if "f \<in> {example_row, gated_row}" for f
    using that by (auto simp: prerequisite_problems_def example_row_def gated_row_def)
  moreover have "set_of_list (map row_skey [staff_row]) = [lit ''staff'']"
    by (simp add: staff_row_def set_of_list_def set_add_def)
  ultimately show ?thesis
    using example_validate example_when(3)
    by (simp add: ruleset_problems_def Let_def staff_row_def del: rule_node_json.simps)
qed

lemma example_compiles:
  "\<exists>c. compileRuleset [] (lit ''prod'') (Fin 1) [example_row, gated_row] [staff_row] None = Inr c"
  by (rule compile_valid) (simp_all add: example_accepted)

theorem accepted_ruleset_never_errors_witness:
  "\<exists>c. compileRuleset [] (lit ''prod'') (Fin 1) [example_row, gated_row] [staff_row] None = Inr c \<and>
    \<not> is_error (reason (evaluateFlag no_regex (lit ''gated'') example_context (indexSnapshot (cr_client c)) JNull))"
proof -
  obtain c where c: "compileRuleset [] (lit ''prod'') (Fin 1) [example_row, gated_row] [staff_row] None = Inr c"
    using example_compiles by blast
  have "lit ''gated'' \<in> row_key ` set [example_row, gated_row]" by (simp add: gated_row_def)
  from accepted_ruleset_never_errors [OF c this] c show ?thesis by blast
qed

theorem accepted_prerequisites_resolve_witness:
  "\<exists>c. compileRuleset [] (lit ''prod'') (Fin 1) [example_row, gated_row] [staff_row] None = Inr c \<and>
    \<not> is_error (reason (evaluateFlag no_regex (lit ''checkout-redesign'') example_context
        (indexSnapshot (cr_server c)) JUndefined))"
proof -
  obtain c where c: "compileRuleset [] (lit ''prod'') (Fin 1) [example_row, gated_row] [staff_row] None = Inr c"
    using example_compiles by blast
  have "row_key example_row \<noteq> row_key gated_row" by (simp add: gated_row_def example_row_def)
  then have "map_get (env_flags (indexSnapshot (cr_server c))) (row_key gated_row)
      = Some (compile_flag (flag_of_row gated_row))"
    by (simp add: indexSnapshot_def compile_accepted [OF c] index_by_def)
  from accepted_prerequisites_resolve [OF c this, of no_regex example_context JNull] c show ?thesis
    by (auto simp: gated_row_def example_row_def flag_of_row_def)
qed

section \<open>What the validation lets through, and how it fails\<close>

text \<open>
  The reference check covers the rules of flags only: a segment may reference a segment that does not
  exist, or itself, and the ruleset is accepted.
\<close>

lemma dangling_segment_accepted:
  "\<exists>c. compileRuleset [] (lit ''prod'') (Fin 1) []
     [staff_row\<lparr>row_rule_tree := rule_node_json (SegmentRef (lit ''nobody'') False)\<rparr>] None = Inr c"
proof (rule compile_valid)
  have "validateRuleNode (rule_node_json (SegmentRef (lit ''nobody'') False)) path 0 = []" for path
    by (rule rule_node_json_accepted [of 0, THEN conjunct1], simp_all)
  then show "ruleset_problems [] [staff_row\<lparr>row_rule_tree := rule_node_json (SegmentRef (lit ''nobody'') False)\<rparr>]
      = Some []"
    by (simp add: ruleset_problems_def findPrerequisiteCycle_def cycle_search_def del: rule_node_json.simps)
qed simp

text \<open>
  A boolean node without children is reported by the validation, but collecting the keys of the same
  tree raises first: the publish fails with a \<open>TypeError\<close> and not with the list of problems.
\<close>

lemma malformed_tree_raises:
  "compileRuleset now envKey ver
     [example_row\<lparr>row_rules := Some [\<lparr>row_rule_id = [], row_description = [],
        row_when = JObj [(lit ''kind'', JStr (lit ''and''))], row_serve = ServeVariation (lit ''on'')\<rparr>]\<rparr>]
     srows served = Inl TypeErr"
proof -
  have "collectSegmentKeys (JObj [(lit ''kind'', JStr (lit ''and''))]) [] = None"
    by (simp add: collectSegmentKeys.simps is_boolean_kind_def)
  then show ?thesis
    by (simp add: compileRuleset_def ruleset_problems_def Let_def validateFlag_def example_row_def
        rule_problems_def)
qed

end
