(* ===== verification/Database.thy ===== *)
theory Database
  imports Ruleset Keys "HOL-Library.Multiset"
begin

text \<open>
  The tables of \<open>migrations/001_initial.sql\<close> as lists of rows, and what the statements of
  \<open>repository.ts\<close> use of SQL: keys, references, joins, ordering and transactions. Identifiers are
  the texts of UUIDs; fresh ones, random texts and the clock are arguments of the statements that
  need them. A JSONB column holds a JSON value, and a payload column the payload it was given. A
  statement that breaks a constraint gives an error and changes nothing.
\<close>

section \<open>Tables\<close>

record tenant_row =
  t_id :: js_string
  t_slug :: js_string
  t_name :: js_string

record environment_row =
  e_id :: js_string
  e_tenant :: js_string
  e_key :: js_string
  e_name :: js_string
  e_version :: nat

record segment_entry =
  s_tenant :: js_string
  s_key :: js_string
  s_description :: js_string
  s_rule_tree :: js_value

record flag_entry =
  f_id :: js_string
  f_tenant :: js_string
  f_key :: js_string
  f_description :: js_string
  f_salt :: js_string
  f_bucket_by :: js_string
  f_variations :: js_value
  f_archived :: bool
  f_updated_at :: int

record config_entry =
  c_tenant :: js_string
  c_flag :: js_string
  c_environment :: js_string
  c_enabled :: bool
  c_default :: js_string
  c_off :: js_string
  c_rules :: js_value
  c_prerequisites :: js_value

record api_key_entry =
  k_id :: js_string
  k_tenant :: js_string
  k_environment :: js_string
  k_name :: js_string
  k_kind :: KeyKind
  k_prefix :: js_string
  k_hash :: js_string
  k_last_used :: "int option"
  k_revoked :: bool

record audit_row =
  a_tenant :: js_string
  a_environment :: "js_string option"
  a_actor_id :: js_string
  a_actor_email :: js_string
  a_action :: js_string
  a_resource_type :: js_string
  a_resource_key :: js_string
  a_previous :: js_value
  a_new :: js_value
  a_created_at :: int

record snapshot_entry =
  n_tenant :: js_string
  n_environment :: js_string
  n_version :: nat
  n_server :: ruleset_snapshot
  n_client :: ruleset_snapshot
  n_etag :: js_string
  n_published_by :: js_string

record database =
  db_tenants :: "tenant_row list"
  db_environments :: "environment_row list"
  db_segments :: "segment_entry list"
  db_flags :: "flag_entry list"
  db_configs :: "config_entry list"
  db_api_keys :: "api_key_entry list"
  db_audit :: "audit_row list"
  db_snapshots :: "snapshot_entry list"

text \<open>What a statement or the code around it raises.\<close>

datatype db_error =
    UniqueViolation
  | ForeignKeyViolation
  | OutOfRange
  | EnvironmentNotFound
  | CompileFailed compile_error

section \<open>Ordering and joins\<close>

text \<open>\<open>ORDER BY\<close> in an order that the caller gives: the collation of the database for texts.\<close>

fun insert_by :: "('b \<Rightarrow> 'b \<Rightarrow> bool) \<Rightarrow> ('a \<Rightarrow> 'b) \<Rightarrow> 'a \<Rightarrow> 'a list \<Rightarrow> 'a list" where
  "insert_by le key x [] = [x]"
| "insert_by le key x (y # ys) = (if le (key x) (key y) then x # y # ys else y # insert_by le key x ys)"

definition order_by :: "('b \<Rightarrow> 'b \<Rightarrow> bool) \<Rightarrow> ('a \<Rightarrow> 'b) \<Rightarrow> 'a list \<Rightarrow> 'a list" where
  "order_by le key xs = foldr (insert_by le key) xs []"

text \<open>\<open>LEFT JOIN\<close>: a row without a partner appears once, alone.\<close>

definition left_join :: "('a \<Rightarrow> 'b \<Rightarrow> bool) \<Rightarrow> 'a list \<Rightarrow> 'b list \<Rightarrow> ('a \<times> 'b option) list" where
  "left_join on xs ys =
     concat (map (\<lambda>x. case filter (on x) ys of [] \<Rightarrow> [(x, None)] | zs \<Rightarrow> map (\<lambda>y. (x, Some y)) zs) xs)"

definition inner_join :: "('a \<Rightarrow> 'b \<Rightarrow> bool) \<Rightarrow> 'a list \<Rightarrow> 'b list \<Rightarrow> ('a \<times> 'b) list" where
  "inner_join on xs ys = concat (map (\<lambda>x. map (\<lambda>y. (x, y)) (filter (on x) ys)) xs)"

text \<open>\<open>UPDATE ... WHERE\<close>\<close>

definition update_where :: "('a \<Rightarrow> bool) \<Rightarrow> ('a \<Rightarrow> 'a) \<Rightarrow> 'a list \<Rightarrow> 'a list" where
  "update_where p f = map (\<lambda>x. if p x then f x else x)"

lemma mset_insert_by [simp]: "mset (insert_by le key x xs) = add_mset x (mset xs)"
  by (induction xs) auto

lemma mset_order_by [simp]: "mset (order_by le key xs) = mset xs"
  by (induction xs) (auto simp: order_by_def)

lemma set_order_by [simp]: "set (order_by le key xs) = set xs"
  using mset_order_by [of le key xs] by (metis set_mset_mset)

lemma set_insert_by [simp]: "set (insert_by le key x xs) = insert x (set xs)"
  by (induction xs) auto

lemma order_by_sorted:
  assumes total: "\<And>a b. le a b \<or> le b a" and trans: "\<And>a b c. le a b \<Longrightarrow> le b c \<Longrightarrow> le a c"
  shows "sorted_wrt (\<lambda>x y. le (key x) (key y)) (order_by le key xs)"
proof -
  have "sorted_wrt (\<lambda>x y. le (key x) (key y)) (insert_by le key x ys)"
    if "sorted_wrt (\<lambda>x y. le (key x) (key y)) ys" for x ys
    using that
  proof (induction ys)
    case (Cons y ys)
    show ?case
    proof (cases "le (key x) (key y)")
      case True
      with Cons.prems have "\<forall>z \<in> set ys. le (key x) (key z)" using trans [OF True] by simp
      with True Cons.prems show ?thesis by simp
    next
      case False
      with total have "le (key y) (key x)" by blast
      with False Cons show ?thesis by simp
    qed
  qed simp
  then show ?thesis by (induction xs) (simp_all add: order_by_def)
qed

lemma distinct_map_order_by [simp]: "distinct (map f (order_by le key xs)) \<longleftrightarrow> distinct (map f xs)"
  by (rule mset_eq_imp_distinct_iff) simp

lemma set_left_join:
  "(x, y) \<in> set (left_join on xs ys) \<longleftrightarrow>
     x \<in> set xs \<and> (case y of None \<Rightarrow> \<forall>z \<in> set ys. \<not> on x z | Some z \<Rightarrow> z \<in> set ys \<and> on x z)"
proof -
  have "(x, y) \<in> set (case filter (on a) ys of [] \<Rightarrow> [(a, None)] | zs \<Rightarrow> map (\<lambda>z. (a, Some z)) zs) \<longleftrightarrow>
      x = a \<and> (case y of None \<Rightarrow> filter (on a) ys = [] | Some z \<Rightarrow> z \<in> set (filter (on a) ys))" for a
    by (cases "filter (on a) ys") (auto split: option.splits)
  then show ?thesis
    by (auto simp: left_join_def filter_empty_conv split: option.splits)
qed

lemma set_inner_join: "(x, y) \<in> set (inner_join on xs ys) \<longleftrightarrow> x \<in> set xs \<and> y \<in> set ys \<and> on x y"
  by (auto simp: inner_join_def)

text \<open>With at most one partner per row the join keeps the rows.\<close>

lemma left_join_unique:
  assumes "\<forall>x \<in> set xs. length (filter (on x) ys) \<le> 1"
  shows "left_join on xs ys = map (\<lambda>x. (x, find (on x) ys)) xs"
proof -
  have find: "find p zs = (case filter p zs of [] \<Rightarrow> None | z # _ \<Rightarrow> Some z)" for p :: "'b \<Rightarrow> bool" and zs
    by (induction zs) auto
  have "(case filter (on x) ys of [] \<Rightarrow> [(x, None)] | zs \<Rightarrow> map (\<lambda>y. (x, Some y)) zs) = [(x, find (on x) ys)]"
    if "x \<in> set xs" for x
    using that assms by (auto simp: find split: list.splits)
  then show ?thesis unfolding left_join_def by (induction xs) auto
qed

lemma map_update_where [simp]: "(\<And>x. g (f x) = g x) \<Longrightarrow> map g (update_where p f xs) = map g xs"
  by (simp add: update_where_def)

lemma in_update_where: "y \<in> set (update_where p f xs) \<longleftrightarrow> (\<exists>x \<in> set xs. y = (if p x then f x else x))"
  by (auto simp: update_where_def)

text \<open>What an update keeps of a row.\<close>

lemma update_where_source:
  "y \<in> set (update_where p f xs) \<Longrightarrow> (\<And>x. g (f x) = g x) \<Longrightarrow> \<exists>x \<in> set xs. g y = g x"
  by (auto simp: update_where_def split: if_splits)

section \<open>Transactions\<close>

text \<open>
  A statement or a sequence of them takes a database to a result and a database. \<open>withTransaction\<close>
  commits the database of a result and rolls back on an error.
\<close>

type_synonym 'a statement = "database \<Rightarrow> (db_error + 'a) \<times> database"

fun and_then :: "'a statement \<Rightarrow> ('a \<Rightarrow> 'b statement) \<Rightarrow> 'b statement" where
  "and_then m k db = (case m db of (Inl e, db') \<Rightarrow> (Inl e, db') | (Inr x, db') \<Rightarrow> k x db')"

definition withTransaction :: "'a statement \<Rightarrow> 'a statement" where
  "withTransaction body db = (case body db of (Inl e, db') \<Rightarrow> (Inl e, db) | (Inr x, db') \<Rightarrow> (Inr x, db'))"

lemma rollback: "withTransaction body db = (Inl e, db') \<Longrightarrow> db' = db"
  by (auto simp: withTransaction_def split: prod.splits sum.splits)

text \<open>The body run for each row in turn, up to the first error.\<close>

fun for_each :: "('r \<Rightarrow> unit statement) \<Rightarrow> 'r list \<Rightarrow> unit statement" where
  "for_each body [] db = (Inr (), db)"
| "for_each body (r # rs) db = and_then (body r) (\<lambda>_. for_each body rs) db"

section \<open>Constraints\<close>

definition tenant_exists :: "database \<Rightarrow> js_string \<Rightarrow> bool" where
  "tenant_exists db t \<longleftrightarrow> (\<exists>r \<in> set (db_tenants db). t_id r = t)"

definition environment_exists :: "database \<Rightarrow> js_string \<Rightarrow> bool" where
  "environment_exists db e \<longleftrightarrow> (\<exists>r \<in> set (db_environments db). e_id r = e)"

definition flag_exists :: "database \<Rightarrow> js_string \<Rightarrow> bool" where
  "flag_exists db f \<longleftrightarrow> (\<exists>r \<in> set (db_flags db). f_id r = f)"

definition insert_flag :: "flag_entry \<Rightarrow> unit statement" where
  "insert_flag r db =
     (if \<exists>f \<in> set (db_flags db). f_id f = f_id r \<or> (f_tenant f = f_tenant r \<and> f_key f = f_key r)
      then (Inl UniqueViolation, db)
      else if \<not> tenant_exists db (f_tenant r) then (Inl ForeignKeyViolation, db)
      else (Inr (), db\<lparr>db_flags := db_flags db @ [r]\<rparr>))"

definition insert_config :: "config_entry \<Rightarrow> unit statement" where
  "insert_config r db =
     (if \<exists>c \<in> set (db_configs db). c_flag c = c_flag r \<and> c_environment c = c_environment r
      then (Inl UniqueViolation, db)
      else if \<not> tenant_exists db (c_tenant r) \<or> \<not> flag_exists db (c_flag r)
        \<or> \<not> environment_exists db (c_environment r)
      then (Inl ForeignKeyViolation, db)
      else (Inr (), db\<lparr>db_configs := db_configs db @ [r]\<rparr>))"

definition insert_key_row :: "api_key_entry \<Rightarrow> unit statement" where
  "insert_key_row r db =
     (if \<exists>k \<in> set (db_api_keys db). k_id k = k_id r then (Inl UniqueViolation, db)
      else if \<not> tenant_exists db (k_tenant r) \<or> \<not> environment_exists db (k_environment r)
      then (Inl ForeignKeyViolation, db)
      else (Inr (), db\<lparr>db_api_keys := db_api_keys db @ [r]\<rparr>))"

definition insert_audit :: "audit_row \<Rightarrow> unit statement" where
  "insert_audit r db =
     (if \<not> tenant_exists db (a_tenant r)
        \<or> (case a_environment r of None \<Rightarrow> False | Some e \<Rightarrow> \<not> environment_exists db e)
      then (Inl ForeignKeyViolation, db)
      else (Inr (), db\<lparr>db_audit := db_audit db @ [r]\<rparr>))"

definition insert_snapshot :: "snapshot_entry \<Rightarrow> unit statement" where
  "insert_snapshot r db =
     (if \<exists>s \<in> set (db_snapshots db). n_environment s = n_environment r \<and> n_version s = n_version r
      then (Inl UniqueViolation, db)
      else if \<not> tenant_exists db (n_tenant r) \<or> \<not> environment_exists db (n_environment r)
      then (Inl ForeignKeyViolation, db)
      else (Inr (), db\<lparr>db_snapshots := db_snapshots db @ [r]\<rparr>))"

text \<open>The constraints that every reachable database keeps.\<close>

definition keys_unique :: "database \<Rightarrow> bool" where
  "keys_unique db \<longleftrightarrow>
     distinct (map t_id (db_tenants db)) \<and> distinct (map e_id (db_environments db))
     \<and> distinct (map f_id (db_flags db)) \<and> distinct (map (\<lambda>f. (f_tenant f, f_key f)) (db_flags db))
     \<and> distinct (map (\<lambda>s. (s_tenant s, s_key s)) (db_segments db))
     \<and> distinct (map (\<lambda>c. (c_flag c, c_environment c)) (db_configs db))
     \<and> distinct (map k_id (db_api_keys db))
     \<and> distinct (map (\<lambda>s. (n_environment s, n_version s)) (db_snapshots db))"

definition references_hold :: "database \<Rightarrow> bool" where
  "references_hold db \<longleftrightarrow>
     (\<forall>e \<in> set (db_environments db). tenant_exists db (e_tenant e))
     \<and> (\<forall>f \<in> set (db_flags db). tenant_exists db (f_tenant f))
     \<and> (\<forall>c \<in> set (db_configs db). tenant_exists db (c_tenant c) \<and> flag_exists db (c_flag c)
          \<and> environment_exists db (c_environment c))
     \<and> (\<forall>k \<in> set (db_api_keys db). tenant_exists db (k_tenant k) \<and> environment_exists db (k_environment k))
     \<and> (\<forall>n \<in> set (db_snapshots db). environment_exists db (n_environment n))"

end
