(* ===== verification/Repository.thy ===== *)
theory Repository
  imports Database Dates Ingest
begin

text \<open>
  \<open>apps/control-plane/src/repository.ts\<close>: the queries and transactions of the control plane over the
  tables of \<open>Database\<close>. \<open>collate\<close> is the order of texts in the database, \<open>sha256\<close> the digest and
  \<open>stringify\<close> the JSON text of a payload. A transaction runs as one step: the row lock that its
  first statement takes lets no other publish of the environment in between.
\<close>

section \<open>SDK keys\<close>

definition scope_of :: "api_key_entry \<times> environment_row \<Rightarrow> authenticated_key" where
  "scope_of = (\<lambda>(k, e). \<lparr>tenantId = k_tenant k, environmentId = k_environment k,
     scope_environmentKey = e_key e, scope_kind = k_kind k, apiKeyId = k_id k\<rparr>)"

definition authenticateKey ::
    "(8 word list \<Rightarrow> 8 word list) \<Rightarrow> database \<Rightarrow> js_string \<Rightarrow> authenticated_key option" where
  "authenticateKey sha256 db key =
     (if length (keyPrefix key) < 8 then None
      else map_option scope_of
        (find (\<lambda>(k, e). verifyApiKey sha256 key (k_hash k))
          (inner_join (\<lambda>k e. e_id e = k_environment k)
            (filter (\<lambda>k. k_prefix k = keyPrefix key \<and> \<not> k_revoked k) (db_api_keys db))
            (db_environments db))))"

definition touchKeyUsage :: "int \<Rightarrow> js_string \<Rightarrow> database \<Rightarrow> database" where
  "touchKeyUsage now key_id db =
     db\<lparr>db_api_keys := update_where (\<lambda>k. k_id k = key_id) (\<lambda>k. k\<lparr>k_last_used := Some now\<rparr>) (db_api_keys db)\<rparr>"

record create_api_key_input =
  ki_tenantId :: js_string
  ki_environmentId :: js_string
  ki_name :: js_string
  ki_kind :: KeyKind
  ki_prefix :: js_string
  ki_hash :: js_string

definition insertApiKey :: "js_string \<Rightarrow> create_api_key_input \<Rightarrow> js_string statement" where
  "insertApiKey new_id inp =
     and_then
       (insert_key_row \<lparr>k_id = new_id, k_tenant = ki_tenantId inp, k_environment = ki_environmentId inp,
          k_name = ki_name inp, k_kind = ki_kind inp, k_prefix = ki_prefix inp, k_hash = ki_hash inp,
          k_last_used = None, k_revoked = False\<rparr>)
       (\<lambda>_ db. (Inr new_id, db))"

section \<open>Flags with their configuration in an environment\<close>

text \<open>\<open>flags f LEFT JOIN flag_configs c ... WHERE f.tenant_id = $1 AND f.archived_at IS NULL\<close>\<close>

definition flags_in :: "database \<Rightarrow> js_string \<Rightarrow> js_string \<Rightarrow> (flag_entry \<times> config_entry option) list" where
  "flags_in db tenant environment =
     left_join (\<lambda>f c. c_flag c = f_id f \<and> c_environment c = environment)
       (filter (\<lambda>f. f_tenant f = tenant \<and> \<not> f_archived f) (db_flags db)) (db_configs db)"

definition coalesce :: "('a \<Rightarrow> 'b) \<Rightarrow> 'b \<Rightarrow> 'a option \<Rightarrow> 'b" where
  "coalesce column fallback row = (case row of None \<Rightarrow> fallback | Some r \<Rightarrow> column r)"

record flag_summary =
  fs_key :: js_string
  fs_description :: js_string
  fs_enabled :: bool
  fs_variations :: js_value
  fs_updatedAt :: js_string

definition listFlags ::
    "(js_string \<Rightarrow> js_string \<Rightarrow> bool) \<Rightarrow> database \<Rightarrow> js_string \<Rightarrow> js_string \<Rightarrow> flag_summary list" where
  "listFlags collate db tenant environment =
     map (\<lambda>(f, c). \<lparr>fs_key = f_key f, fs_description = f_description f,
             fs_enabled = coalesce c_enabled False c, fs_variations = f_variations f,
             fs_updatedAt = toISOString (f_updated_at f)\<rparr>)
       (order_by collate (\<lambda>(f, c). f_key f) (flags_in db tenant environment))"

text \<open>
  The casts of the JSONB columns to the types of a \<open>FlagRow\<close>, for columns of the shape those types
  declare; the rule trees stay JSON, and a column that is not an array is none.
\<close>

definition elements_of :: "(js_value \<Rightarrow> 'a) \<Rightarrow> js_value \<Rightarrow> 'a list option" where
  "elements_of cast v = (case v of JArr vs \<Rightarrow> Some (map cast vs) | _ \<Rightarrow> None)"

definition variation_of :: "js_value \<Rightarrow> variation" where
  "variation_of v = \<lparr>vkey = string_of (get_prop v (lit ''key'')), vvalue = get_prop v (lit ''value'')\<rparr>"

definition prerequisite_of :: "js_value \<Rightarrow> prerequisite" where
  "prerequisite_of v = \<lparr>pre_flagKey = string_of (get_prop v (lit ''flagKey'')),
     pre_variationKey = string_of (get_prop v (lit ''variationKey''))\<rparr>"

fun number_of :: "js_value \<Rightarrow> js_number" where
  "number_of (JNum n) = n"
| "number_of v = NaN"

definition distribution_of :: "js_value \<Rightarrow> distribution" where
  "distribution_of v = \<lparr>variationKey = string_of (get_prop v (lit ''variationKey'')),
     weight = number_of (get_prop v (lit ''weight''))\<rparr>"

definition serve_of :: "js_value \<Rightarrow> serve" where
  "serve_of v =
     (case get_prop v (lit ''variationKey'') of
        JStr k \<Rightarrow> ServeVariation k
      | _ \<Rightarrow> ServeRollout (case elements_of distribution_of (get_prop v (lit ''rollout'')) of
               None \<Rightarrow> [] | Some ds \<Rightarrow> ds))"

definition rule_row_of :: "js_value \<Rightarrow> rule_row" where
  "rule_row_of v = \<lparr>row_rule_id = string_of (get_prop v (lit ''id'')),
     row_description = string_of (get_prop v (lit ''description'')),
     row_when = get_prop v (lit ''when''), row_serve = serve_of (get_prop v (lit ''serve''))\<rparr>"

definition flag_row_of :: "flag_entry \<times> config_entry option \<Rightarrow> flag_row" where
  "flag_row_of = (\<lambda>(f, c). \<lparr>row_key = f_key f, row_salt = f_salt f, row_bucket_by = f_bucket_by f,
     row_variations = elements_of variation_of (f_variations f),
     row_enabled = coalesce c_enabled False c,
     row_default_variation_key = coalesce c_default [] c,
     row_off_variation_key = coalesce c_off [] c,
     row_rules = elements_of rule_row_of (coalesce c_rules (JArr []) c),
     row_prerequisites = elements_of prerequisite_of (coalesce c_prerequisites (JArr []) c)\<rparr>)"

definition loadRulesetInputs ::
    "(js_string \<Rightarrow> js_string \<Rightarrow> bool) \<Rightarrow> database \<Rightarrow> js_string \<Rightarrow> js_string \<Rightarrow> flag_row list \<times> segment_row list"
where
  "loadRulesetInputs collate db tenant environment =
     (map flag_row_of (order_by collate (\<lambda>(f, c). f_key f) (flags_in db tenant environment)),
      map (\<lambda>s. \<lparr>row_skey = s_key s, row_rule_tree = s_rule_tree s\<rparr>)
        (order_by collate s_key (filter (\<lambda>s. s_tenant s = tenant) (db_segments db))))"

text \<open>The same queries on the connection of a transaction.\<close>

abbreviation loadRulesetInputsWithClient ::
    "(js_string \<Rightarrow> js_string \<Rightarrow> bool) \<Rightarrow> database \<Rightarrow> js_string \<Rightarrow> js_string \<Rightarrow> flag_row list \<times> segment_row list"
where
  "loadRulesetInputsWithClient \<equiv> loadRulesetInputs"

section \<open>Publishing\<close>

record publish_options =
  po_tenantId :: js_string
  po_environmentId :: js_string
  po_environmentKey :: js_string
  po_publishedBy :: js_string

record publish_result =
  pr_version :: js_number
  pr_etag :: js_string
  pr_compiled :: compiled_ruleset

text \<open>The statement that bumps and returns the version; \<open>BIGINT\<close> ends at \<open>2 ^ 63 - 1\<close>.\<close>

definition bump_version :: "js_string \<Rightarrow> js_string \<Rightarrow> nat statement" where
  "bump_version environment tenant db =
     (case find (\<lambda>e. e_id e = environment \<and> e_tenant e = tenant) (db_environments db) of
        None \<Rightarrow> (Inl EnvironmentNotFound, db)
      | Some e \<Rightarrow>
          (if 2 ^ 63 \<le> e_version e + 1 then (Inl OutOfRange, db)
           else (Inr (e_version e + 1),
             db\<lparr>db_environments := update_where (\<lambda>e. e_id e = environment \<and> e_tenant e = tenant)
                  (\<lambda>e. e\<lparr>e_version := e_version e + 1\<rparr>) (db_environments db)\<rparr>)))"

definition publish_body ::
    "(js_string \<Rightarrow> js_string \<Rightarrow> bool) \<Rightarrow> (8 word list \<Rightarrow> 8 word list) \<Rightarrow> (ruleset_snapshot \<Rightarrow> js_string)
     \<Rightarrow> js_string \<Rightarrow> publish_options \<Rightarrow> publish_result statement" where
  "publish_body collate sha256 stringify now opts =
     and_then (bump_version (po_environmentId opts) (po_tenantId opts))
       (\<lambda>ver db.
          let (frows, srows) = loadRulesetInputsWithClient collate db (po_tenantId opts) (po_environmentId opts) in
          case compileRuleset now (po_environmentKey opts) (number_of_nat ver) frows srows None of
            Inl e \<Rightarrow> (Inl (CompileFailed e), db)
          | Inr compiled \<Rightarrow>
              (let etag = take 32 (hashApiKey sha256 (stringify (cr_server compiled))) in
               and_then
                 (insert_snapshot \<lparr>n_tenant = po_tenantId opts, n_environment = po_environmentId opts,
                    n_version = ver, n_server = cr_server compiled, n_client = cr_client compiled,
                    n_etag = etag, n_published_by = po_publishedBy opts\<rparr>)
                 (\<lambda>_ db. (Inr \<lparr>pr_version = number_of_nat ver, pr_etag = etag, pr_compiled = compiled\<rparr>, db))
                 db))"

definition publishRuleset ::
    "(js_string \<Rightarrow> js_string \<Rightarrow> bool) \<Rightarrow> (8 word list \<Rightarrow> 8 word list) \<Rightarrow> (ruleset_snapshot \<Rightarrow> js_string)
     \<Rightarrow> js_string \<Rightarrow> publish_options \<Rightarrow> publish_result statement" where
  "publishRuleset collate sha256 stringify now opts = withTransaction (publish_body collate sha256 stringify now opts)"

record served_snapshot =
  sv_version :: js_number
  sv_etag :: js_string
  sv_payload :: ruleset_snapshot

definition kind_text :: "KeyKind \<Rightarrow> js_string" where
  "kind_text kind = (if kind = KindClient then lit ''client'' else lit ''server'')"

text \<open>\<open>ORDER BY version DESC LIMIT 1\<close>\<close>

definition newest_snapshot :: "database \<Rightarrow> js_string \<Rightarrow> snapshot_entry option" where
  "newest_snapshot db environment =
     (case order_by (\<lambda>m n. n \<le> m) n_version (filter (\<lambda>s. n_environment s = environment) (db_snapshots db)) of
        [] \<Rightarrow> None
      | s # _ \<Rightarrow> Some s)"

definition latestSnapshot :: "database \<Rightarrow> js_string \<Rightarrow> KeyKind \<Rightarrow> served_snapshot option" where
  "latestSnapshot db environment kind =
     map_option (\<lambda>s. \<lparr>sv_version = number_of_nat (n_version s),
         sv_etag = quoted (kind_text kind @ lit ''-'' @ n_etag s),
         sv_payload = (if kind = KindClient then n_client s else n_server s)\<rparr>)
       (newest_snapshot db environment)"

section \<open>Audit\<close>

record audit_entry =
  ae_tenantId :: js_string
  ae_environmentId :: "js_string option"
  ae_actorId :: js_string
  ae_actorEmail :: js_string
  ae_action :: js_string
  ae_resourceType :: js_string
  ae_resourceKey :: js_string
  ae_previousValue :: js_value
  ae_newValue :: js_value

text \<open>An \<open>undefined\<close> value is stored as SQL \<open>NULL\<close>, which reads back as \<open>null\<close>.\<close>

definition null_if_undefined :: "js_value \<Rightarrow> js_value" where
  "null_if_undefined v = (if v = JUndefined then JNull else v)"

definition writeAudit :: "int \<Rightarrow> audit_entry \<Rightarrow> unit statement" where
  "writeAudit now entry =
     insert_audit \<lparr>a_tenant = ae_tenantId entry, a_environment = ae_environmentId entry,
       a_actor_id = ae_actorId entry, a_actor_email = ae_actorEmail entry, a_action = ae_action entry,
       a_resource_type = ae_resourceType entry, a_resource_key = ae_resourceKey entry,
       a_previous = null_if_undefined (ae_previousValue entry),
       a_new = null_if_undefined (ae_newValue entry), a_created_at = now\<rparr>"

definition listAudit :: "database \<Rightarrow> js_string \<Rightarrow> js_string option \<Rightarrow> nat option \<Rightarrow> audit_row list" where
  "listAudit db tenant resourceKey limit' =
     (let n = min (case limit' of None \<Rightarrow> 50 | Some l \<Rightarrow> l) 200 in
      take n (order_by (\<lambda>s t. t \<le> s) a_created_at
        (filter (\<lambda>a. a_tenant a = tenant
                   \<and> (case resourceKey of None \<Rightarrow> True | Some k \<Rightarrow> a_resource_key a = k)) (db_audit db))))"

section \<open>Administration\<close>

record environment_summary =
  es_id :: js_string
  es_key :: js_string
  es_name :: js_string
  es_version :: js_number

definition listTenants :: "(js_string \<Rightarrow> js_string \<Rightarrow> bool) \<Rightarrow> database \<Rightarrow> tenant_row list" where
  "listTenants collate db = order_by collate t_slug (db_tenants db)"

definition listEnvironments ::
    "(js_string \<Rightarrow> js_string \<Rightarrow> bool) \<Rightarrow> database \<Rightarrow> js_string \<Rightarrow> environment_summary list" where
  "listEnvironments collate db tenant =
     map (\<lambda>e. \<lparr>es_id = e_id e, es_key = e_key e, es_name = e_name e, es_version = number_of_nat (e_version e)\<rparr>)
       (order_by collate e_key (filter (\<lambda>e. e_tenant e = tenant) (db_environments db)))"

record flag_detail =
  fd_key :: js_string
  fd_description :: js_string
  fd_salt :: js_string
  fd_bucketBy :: js_string
  fd_variations :: js_value
  fd_enabled :: bool
  fd_defaultVariationKey :: js_string
  fd_offVariationKey :: js_string
  fd_rules :: js_value
  fd_prerequisites :: js_value
  fd_updatedAt :: js_string

definition flag_detail_of :: "flag_entry \<times> config_entry option \<Rightarrow> flag_detail" where
  "flag_detail_of = (\<lambda>(f, c). \<lparr>fd_key = f_key f, fd_description = f_description f, fd_salt = f_salt f,
     fd_bucketBy = f_bucket_by f, fd_variations = f_variations f,
     fd_enabled = coalesce c_enabled False c, fd_defaultVariationKey = coalesce c_default [] c,
     fd_offVariationKey = coalesce c_off [] c, fd_rules = coalesce c_rules (JArr []) c,
     fd_prerequisites = coalesce c_prerequisites (JArr []) c, fd_updatedAt = toISOString (f_updated_at f)\<rparr>)"

definition getFlag :: "database \<Rightarrow> js_string \<Rightarrow> js_string \<Rightarrow> js_string \<Rightarrow> flag_detail option" where
  "getFlag db tenant environment key =
     map_option flag_detail_of (find (\<lambda>(f, c). f_key f = key) (flags_in db tenant environment))"

record create_flag_input =
  ci_tenantId :: js_string
  ci_key :: js_string
  ci_description :: js_string
  ci_variations :: "js_value list"
  ci_defaultVariationKey :: js_string
  ci_offVariationKey :: js_string

definition new_config :: "create_flag_input \<Rightarrow> js_string \<Rightarrow> environment_row \<Rightarrow> config_entry" where
  "new_config inp flagId e = \<lparr>c_tenant = ci_tenantId inp, c_flag = flagId, c_environment = e_id e,
     c_enabled = False, c_default = ci_defaultVariationKey inp, c_off = ci_offVariationKey inp,
     c_rules = JArr [], c_prerequisites = JArr []\<rparr>"

definition createFlag :: "int \<Rightarrow> js_string \<Rightarrow> js_string \<Rightarrow> create_flag_input \<Rightarrow> unit statement" where
  "createFlag now new_id new_salt inp =
     withTransaction
       (and_then
         (insert_flag \<lparr>f_id = new_id, f_tenant = ci_tenantId inp, f_key = ci_key inp,
            f_description = ci_description inp, f_salt = new_salt, f_bucket_by = lit ''key'',
            f_variations = JArr (ci_variations inp), f_archived = False, f_updated_at = now\<rparr>)
         (\<lambda>_ db. for_each (\<lambda>e. insert_config (new_config inp new_id e))
           (filter (\<lambda>e. e_tenant e = ci_tenantId inp) (db_environments db)) db))"

record update_flag_input =
  uf_tenantId :: js_string
  uf_environmentId :: js_string
  uf_key :: js_string
  uf_enabled :: "bool option"
  uf_defaultVariationKey :: "js_string option"
  uf_offVariationKey :: "js_string option"
  uf_rules :: js_value

text \<open>\<open>a ?? b\<close>\<close>

definition or_else :: "'a option \<Rightarrow> 'a \<Rightarrow> 'a" where
  "or_else a b = (case a of None \<Rightarrow> b | Some x \<Rightarrow> x)"

definition nullish_else :: "js_value \<Rightarrow> js_value \<Rightarrow> js_value" where
  "nullish_else a b = (if a = JUndefined \<or> a = JNull then b else a)"

text \<open>The two statements of \<open>updateFlagConfig\<close> that write, after \<open>previous\<close> was read.\<close>

definition write_config :: "int \<Rightarrow> update_flag_input \<Rightarrow> flag_detail \<Rightarrow> database \<Rightarrow> database" where
  "write_config now inp previous db =
     (let ids = map f_id (filter (\<lambda>f. f_key f = uf_key inp) (db_flags db)) in
      db\<lparr>db_configs := update_where
            (\<lambda>c. c_flag c \<in> set ids \<and> c_tenant c = uf_tenantId inp \<and> c_environment c = uf_environmentId inp)
            (\<lambda>c. c\<lparr>c_enabled := or_else (uf_enabled inp) (fd_enabled previous),
                  c_default := or_else (uf_defaultVariationKey inp) (fd_defaultVariationKey previous),
                  c_off := or_else (uf_offVariationKey inp) (fd_offVariationKey previous),
                  c_rules := nullish_else (uf_rules inp) (fd_rules previous)\<rparr>)
            (db_configs db),
          db_flags := update_where (\<lambda>f. f_tenant f = uf_tenantId inp \<and> f_key f = uf_key inp)
            (\<lambda>f. f\<lparr>f_updated_at := now\<rparr>) (db_flags db)\<rparr>)"

definition updateFlagConfig :: "int \<Rightarrow> update_flag_input \<Rightarrow> database \<Rightarrow> flag_detail option \<times> database" where
  "updateFlagConfig now inp db =
     (case getFlag db (uf_tenantId inp) (uf_environmentId inp) (uf_key inp) of
        None \<Rightarrow> (None, db)
      | Some previous \<Rightarrow> (Some previous, write_config now inp previous db))"

record segment_summary =
  ss_key :: js_string
  ss_description :: js_string
  ss_ruleTree :: js_value

definition listSegments :: "(js_string \<Rightarrow> js_string \<Rightarrow> bool) \<Rightarrow> database \<Rightarrow> js_string \<Rightarrow> segment_summary list" where
  "listSegments collate db tenant =
     map (\<lambda>s. \<lparr>ss_key = s_key s, ss_description = s_description s, ss_ruleTree = s_rule_tree s\<rparr>)
       (order_by collate s_key (filter (\<lambda>s. s_tenant s = tenant) (db_segments db)))"

end
