(* ===== verification/Store.thy ===== *)
theory Store
  imports Repository
begin

text \<open>
  What the tables keep under every operation of \<open>repository.ts\<close>: the constraints of the schema, the
  agreement of tenants, and that every stored payload is a compiled ruleset whose version is at most
  that of its environment. The database is the versioned register from which SDKs read.
\<close>

section \<open>The invariant\<close>

definition snapshots_compiled :: "database \<Rightarrow> bool" where
  "snapshots_compiled db \<longleftrightarrow>
     (\<forall>n \<in> set (db_snapshots db). \<exists>now envKey frows srows. distinct (map row_skey srows)
        \<and> compileRuleset now envKey (number_of_nat (n_version n)) frows srows None
            = Inr \<lparr>cr_server = n_server n, cr_client = n_client n\<rparr>)"

definition versions_current :: "database \<Rightarrow> bool" where
  "versions_current db \<longleftrightarrow>
     (\<forall>e \<in> set (db_environments db).
        (\<forall>n \<in> set (db_snapshots db). n_environment n = e_id e \<longrightarrow>
           1 \<le> n_version n \<and> n_version n \<le> e_version e \<and> n_tenant n = e_tenant e)
        \<and> (0 < e_version e \<longrightarrow>
             (\<exists>n \<in> set (db_snapshots db). n_environment n = e_id e \<and> n_version n = e_version e)))"

definition tenants_agree :: "database \<Rightarrow> bool" where
  "tenants_agree db \<longleftrightarrow>
     (\<forall>c \<in> set (db_configs db). \<forall>f \<in> set (db_flags db). c_flag c = f_id f \<longrightarrow> c_tenant c = f_tenant f)"

definition db_ok :: "database \<Rightarrow> bool" where
  "db_ok db \<longleftrightarrow> keys_unique db \<and> references_hold db \<and> snapshots_compiled db \<and> versions_current db
     \<and> tenants_agree db"

lemmas db_ok_defs = db_ok_def keys_unique_def references_hold_def snapshots_compiled_def
  versions_current_def tenants_agree_def

lemmas exists_defs = tenant_exists_def environment_exists_def flag_exists_def

section \<open>What the operations do\<close>

text \<open>The inputs of the compiler come from flags, configurations and segments alone.\<close>

lemma inputs_cong:
  assumes "db_flags db' = db_flags db" "db_configs db' = db_configs db" "db_segments db' = db_segments db"
  shows "loadRulesetInputs collate db' tenant env = loadRulesetInputs collate db tenant env"
  using assms by (simp add: loadRulesetInputs_def flags_in_def)

lemma publish_cases:
  assumes "publishRuleset collate sha256 stringify now opts db = (res, db')"
  obtains (failed) err where "res = Inl err" "db' = db"
  | (committed) e c entry where
      "e \<in> set (db_environments db)" "e_id e = po_environmentId opts" "e_tenant e = po_tenantId opts"
      "compileRuleset now (po_environmentKey opts) (number_of_nat (e_version e + 1))
         (fst (loadRulesetInputs collate db (po_tenantId opts) (po_environmentId opts)))
         (snd (loadRulesetInputs collate db (po_tenantId opts) (po_environmentId opts))) None = Inr c"
      "entry = \<lparr>n_tenant = po_tenantId opts, n_environment = po_environmentId opts,
         n_version = e_version e + 1, n_server = cr_server c, n_client = cr_client c,
         n_etag = take 32 (hashApiKey sha256 (stringify (cr_server c))), n_published_by = po_publishedBy opts\<rparr>"
      "res = Inr \<lparr>pr_version = number_of_nat (e_version e + 1), pr_etag = n_etag entry, pr_compiled = c\<rparr>"
      "db' = db\<lparr>db_environments := update_where (\<lambda>e. e_id e = po_environmentId opts \<and> e_tenant e = po_tenantId opts)
                 (\<lambda>e. e\<lparr>e_version := e_version e + 1\<rparr>) (db_environments db),
               db_snapshots := db_snapshots db @ [entry]\<rparr>"
proof (cases res)
  case (Inl err)
  with assms have "db' = db" by (auto simp: publishRuleset_def intro: rollback)
  with Inl failed show thesis by blast
next
  case (Inr r)
  have load: "loadRulesetInputs collate (db\<lparr>db_environments := es\<rparr>) t e = loadRulesetInputs collate db t e" for es t e
    by (rule inputs_cong) simp_all
  obtain e where e: "find (\<lambda>e. e_id e = po_environmentId opts \<and> e_tenant e = po_tenantId opts)
      (db_environments db) = Some e"
    using assms Inr by (auto simp: publishRuleset_def withTransaction_def publish_body_def bump_version_def
        split: option.splits prod.splits if_splits)
  from assms Inr e obtain c where c: "compileRuleset now (po_environmentKey opts) (number_of_nat (e_version e + 1))
         (fst (loadRulesetInputs collate db (po_tenantId opts) (po_environmentId opts)))
         (snd (loadRulesetInputs collate db (po_tenantId opts) (po_environmentId opts))) None = Inr c"
    by (auto simp: publishRuleset_def withTransaction_def publish_body_def bump_version_def load
        split: option.splits prod.splits if_splits sum.splits)
  from find_SomeD [OF e] have "e \<in> set (db_environments db)" "e_id e = po_environmentId opts"
      "e_tenant e = po_tenantId opts" by auto
  from committed [OF this c refl] assms Inr e c show thesis
    by (auto simp: publishRuleset_def withTransaction_def publish_body_def bump_version_def load insert_snapshot_def
        Let_def split: if_splits prod.splits)
qed

lemma segment_rows_distinct:
  assumes "keys_unique db"
  shows "distinct (map row_skey (snd (loadRulesetInputs collate db tenant env)))"
proof -
  have "distinct (map (\<lambda>s. (s_tenant s, s_key s)) (filter (\<lambda>s. s_tenant s = tenant) (db_segments db)))"
    using assms by (simp add: keys_unique_def distinct_map_filter)
  then have "distinct (map s_key (filter (\<lambda>s. s_tenant s = tenant) (db_segments db)))"
    by (auto simp: distinct_map inj_on_def)
  then show ?thesis by (simp add: loadRulesetInputs_def comp_def)
qed

text \<open>A flag has at most one configuration in an environment, so the join keeps the flags.\<close>

lemma flags_in_unique:
  assumes "keys_unique db"
  shows "flags_in db tenant env =
    map (\<lambda>f. (f, find (\<lambda>c. c_flag c = f_id f \<and> c_environment c = env) (db_configs db)))
      (filter (\<lambda>f. f_tenant f = tenant \<and> \<not> f_archived f) (db_flags db))"
proof -
  have "length (filter (\<lambda>c. c_flag c = f \<and> c_environment c = env) (db_configs db)) \<le> 1" for f
  proof -
    have "distinct (map (\<lambda>c. (c_flag c, c_environment c))
        (filter (\<lambda>c. c_flag c = f \<and> c_environment c = env) (db_configs db)))"
      using assms by (simp add: keys_unique_def distinct_map_filter)
    moreover have "distinct (map (\<lambda>c. (c_flag c, c_environment c))
        (filter (\<lambda>c. c_flag c = f \<and> c_environment c = env) cs)) \<Longrightarrow>
        length (filter (\<lambda>c. c_flag c = f \<and> c_environment c = env) cs) \<le> 1" for cs
    proof (cases "filter (\<lambda>c. c_flag c = f \<and> c_environment c = env) cs")
      case (Cons c ds)
      have "\<forall>d \<in> set (c # ds). c_flag d = f \<and> c_environment d = env"
        unfolding Cons [symmetric] by simp
      then show "length (filter (\<lambda>c. c_flag c = f \<and> c_environment c = env) cs) \<le> 1"
        if "distinct (map (\<lambda>c. (c_flag c, c_environment c)) (filter (\<lambda>c. c_flag c = f \<and> c_environment c = env) cs))"
        using that Cons by (cases ds) auto
    qed simp
    ultimately show ?thesis by blast
  qed
  then show ?thesis unfolding flags_in_def by (intro left_join_unique) simp
qed

lemma insert_configs:
  "for_each (\<lambda>e. insert_config (new_config inp flagId e)) es db = (Inr (), db') \<Longrightarrow>
     db' = db\<lparr>db_configs := db_configs db @ map (new_config inp flagId) es\<rparr>"
proof (induction es arbitrary: db)
  case (Cons e es)
  from Cons.prems obtain db1 where "insert_config (new_config inp flagId e) db = (Inr (), db1)"
      and rest: "for_each (\<lambda>e. insert_config (new_config inp flagId e)) es db1 = (Inr (), db')"
    by (auto split: prod.splits sum.splits)
  then have "db1 = db\<lparr>db_configs := db_configs db @ [new_config inp flagId e]\<rparr>"
    by (auto simp: insert_config_def split: if_splits)
  with Cons.IH [OF rest] show ?case by simp
qed simp

lemma insert_configs_succeed:
  assumes "tenant_exists db (ci_tenantId inp)" "flag_exists db flagId"
    and "\<forall>e \<in> set es. environment_exists db (e_id e)" "distinct (map e_id es)"
    and "\<forall>c \<in> set (db_configs db). c_flag c \<noteq> flagId \<or> c_environment c \<notin> e_id ` set es"
  shows "fst (for_each (\<lambda>e. insert_config (new_config inp flagId e)) es db) = Inr ()"
  using assms
proof (induction es arbitrary: db)
  case (Cons e es)
  let ?db = "db\<lparr>db_configs := db_configs db @ [new_config inp flagId e]\<rparr>"
  have "insert_config (new_config inp flagId e) db = (Inr (), ?db)"
    using Cons.prems by (auto simp: insert_config_def new_config_def)
  moreover have "fst (for_each (\<lambda>e. insert_config (new_config inp flagId e)) es ?db) = Inr ()"
    using Cons.prems by (intro Cons.IH) (auto simp: exists_defs new_config_def)
  ultimately show ?case by simp
qed simp

lemma create_cases:
  assumes "createFlag now new_id new_salt inp db = (res, db')"
  obtains (failed) err where "res = Inl err" "db' = db"
  | (created) f where
      "f = \<lparr>f_id = new_id, f_tenant = ci_tenantId inp, f_key = ci_key inp, f_description = ci_description inp,
         f_salt = new_salt, f_bucket_by = lit ''key'', f_variations = JArr (ci_variations inp),
         f_archived = False, f_updated_at = now\<rparr>"
      "\<forall>g \<in> set (db_flags db). f_id g \<noteq> new_id \<and> (f_tenant g \<noteq> ci_tenantId inp \<or> f_key g \<noteq> ci_key inp)"
      "tenant_exists db (ci_tenantId inp)"
      "res = Inr ()"
      "db' = db\<lparr>db_flags := db_flags db @ [f],
                db_configs := db_configs db @ map (new_config inp new_id)
                  (filter (\<lambda>e. e_tenant e = ci_tenantId inp) (db_environments db))\<rparr>"
proof (cases res)
  case (Inl err)
  with assms have "db' = db" by (auto simp: createFlag_def intro: rollback)
  with Inl failed show thesis by blast
next
  case (Inr r)
  from created [OF refl] assms Inr show thesis
    by (auto simp: createFlag_def withTransaction_def insert_flag_def dest!: insert_configs
        split: prod.splits sum.splits if_splits)
qed

lemma create_succeeds:
  assumes "db_ok db" "tenant_exists db (ci_tenantId inp)" "\<not> flag_exists db new_id"
    and "\<forall>g \<in> set (db_flags db). f_tenant g \<noteq> ci_tenantId inp \<or> f_key g \<noteq> ci_key inp"
  shows "fst (createFlag now new_id new_salt inp db) = Inr ()"
proof -
  let ?f = "\<lparr>f_id = new_id, f_tenant = ci_tenantId inp, f_key = ci_key inp, f_description = ci_description inp,
     f_salt = new_salt, f_bucket_by = lit ''key'', f_variations = JArr (ci_variations inp),
     f_archived = False, f_updated_at = now\<rparr>"
  let ?db = "db\<lparr>db_flags := db_flags db @ [?f]\<rparr>"
  have "insert_flag ?f db = (Inr (), ?db)"
    using assms by (auto simp: insert_flag_def exists_defs)
  moreover have "fst (for_each (\<lambda>e. insert_config (new_config inp new_id e))
      (filter (\<lambda>e. e_tenant e = ci_tenantId inp) (db_environments db)) ?db) = Inr ()"
    using assms by (intro insert_configs_succeed)
      (auto simp: db_ok_defs exists_defs distinct_map_filter)
  ultimately show ?thesis
    by (auto simp: createFlag_def withTransaction_def split: prod.splits sum.splits)
qed

section \<open>Every operation keeps the invariant\<close>

lemma exists_update [simp]:
  "tenant_exists (db\<lparr>db_environments := es\<rparr>) t = tenant_exists db t"
  "tenant_exists (db\<lparr>db_snapshots := ns\<rparr>) t = tenant_exists db t"
  "tenant_exists (db\<lparr>db_flags := fs\<rparr>) t = tenant_exists db t"
  "tenant_exists (db\<lparr>db_configs := cs\<rparr>) t = tenant_exists db t"
  "tenant_exists (db\<lparr>db_api_keys := ks\<rparr>) t = tenant_exists db t"
  "tenant_exists (db\<lparr>db_audit := as\<rparr>) t = tenant_exists db t"
  "environment_exists (db\<lparr>db_snapshots := ns\<rparr>) e = environment_exists db e"
  "environment_exists (db\<lparr>db_flags := fs\<rparr>) e = environment_exists db e"
  "environment_exists (db\<lparr>db_configs := cs\<rparr>) e = environment_exists db e"
  "environment_exists (db\<lparr>db_api_keys := ks\<rparr>) e = environment_exists db e"
  "environment_exists (db\<lparr>db_audit := as\<rparr>) e = environment_exists db e"
  "flag_exists (db\<lparr>db_environments := es\<rparr>) f = flag_exists db f"
  "flag_exists (db\<lparr>db_snapshots := ns\<rparr>) f = flag_exists db f"
  "flag_exists (db\<lparr>db_configs := cs\<rparr>) f = flag_exists db f"
  "flag_exists (db\<lparr>db_api_keys := ks\<rparr>) f = flag_exists db f"
  "flag_exists (db\<lparr>db_audit := as\<rparr>) f = flag_exists db f"
  by (simp_all add: exists_defs)

lemma environment_exists_bump [simp]:
  "environment_exists (db\<lparr>db_environments := update_where p (\<lambda>e. e\<lparr>e_version := v e\<rparr>) (db_environments db)\<rparr>) x
     = environment_exists db x"
proof -
  have "environment_exists d x \<longleftrightarrow> x \<in> set (map e_id (db_environments d))" for d
    by (auto simp: environment_exists_def)
  then show ?thesis by (simp del: set_map)
qed

lemma publish_ok:
  assumes ok: "db_ok db" and pub: "publishRuleset collate sha256 stringify now opts db = (res, db')"
  shows "db_ok db'"
  using pub
proof (cases rule: publish_cases)
  case failed
  with ok show ?thesis by simp
next
  case (committed e c entry)
  let ?es = "update_where (\<lambda>e. e_id e = po_environmentId opts \<and> e_tenant e = po_tenantId opts)
    (\<lambda>e. e\<lparr>e_version := e_version e + 1\<rparr>) (db_environments db)"
  have same: "e' = e" if "e' \<in> set (db_environments db)" "e_id e' = po_environmentId opts" for e'
    using that committed(1,2) ok by (auto simp: db_ok_defs distinct_map inj_on_def)
  have older: "n_version n \<le> e_version e" if "n \<in> set (db_snapshots db)" "n_environment n = po_environmentId opts" for n
    using ok committed(1,2) that by (auto simp: db_ok_defs)
  have ids: "map e_id ?es = map e_id (db_environments db)" by simp
  have ent: "n_environment entry = e_id e" "n_version entry = e_version e + 1" "n_tenant entry = e_tenant e"
    using committed(2,3) by (simp_all add: committed(5))
  have new: "(e_id e, e_version e + 1) \<notin> (\<lambda>n. (n_environment n, n_version n)) ` set (db_snapshots db)"
    using older committed(2) by fastforce
  have "keys_unique db'"
    using ok new ent ids unfolding committed(7) by (simp add: db_ok_def keys_unique_def)
  moreover have "references_hold db'"
  proof -
    have "\<forall>e' \<in> set (db_environments db'). \<exists>e0 \<in> set (db_environments db). e_tenant e' = e_tenant e0"
      unfolding committed(7) by (auto intro: update_where_source)
    moreover have "environment_exists db (n_environment entry)"
      using committed(1) ent by (auto simp: environment_exists_def)
    ultimately show ?thesis using ok unfolding committed(7) by (auto simp: db_ok_def references_hold_def)
  qed
  moreover have "snapshots_compiled db'"
  proof -
    have "distinct (map row_skey (snd (loadRulesetInputs collate db (po_tenantId opts) (po_environmentId opts))))"
      using ok by (intro segment_rows_distinct) (simp add: db_ok_def)
    moreover have "n_version entry = e_version e + 1" "Inr c = Inr \<lparr>cr_server = n_server entry, cr_client = n_client entry\<rparr>"
      by (simp_all add: committed(5))
    ultimately have "\<exists>now envKey frows srows. distinct (map row_skey srows)
        \<and> compileRuleset now envKey (number_of_nat (n_version entry)) frows srows None
            = Inr \<lparr>cr_server = n_server entry, cr_client = n_client entry\<rparr>"
      using committed(4) by metis
    then show ?thesis using ok unfolding committed(7)
      by (simp add: db_ok_def snapshots_compiled_def)
  qed
  moreover have "versions_current db'"
    unfolding versions_current_def
  proof (intro ballI)
    fix e' assume "e' \<in> set (db_environments db')"
    then obtain e0 where e0: "e0 \<in> set (db_environments db)"
        and upd: "e' = (if e_id e0 = po_environmentId opts \<and> e_tenant e0 = po_tenantId opts
          then e0\<lparr>e_version := e_version e0 + 1\<rparr> else e0)"
      by (auto simp: committed(7) in_update_where)
    have "e_id e0 = po_environmentId opts \<and> e_tenant e0 = po_tenantId opts \<longleftrightarrow> e0 = e"
      using same [OF e0] committed(2,3) by blast
    with upd have e': "e' = (if e0 = e then e\<lparr>e_version := e_version e + 1\<rparr> else e0)" by (simp split: if_splits)
    have cur: "\<forall>n \<in> set (db_snapshots db). n_environment n = e_id e0 \<longrightarrow>
          1 \<le> n_version n \<and> n_version n \<le> e_version e0 \<and> n_tenant n = e_tenant e0"
        "0 < e_version e0 \<longrightarrow> (\<exists>n \<in> set (db_snapshots db). n_environment n = e_id e0 \<and> n_version n = e_version e0)"
      using ok e0 by (auto simp: db_ok_def versions_current_def)
    have snaps: "set (db_snapshots db') = insert entry (set (db_snapshots db))" by (simp add: committed(7))
    have "n_environment entry \<noteq> e_id e0" if "e0 \<noteq> e" using that same [OF e0] ent(1) committed(2) by auto
    with cur ent show "(\<forall>n \<in> set (db_snapshots db'). n_environment n = e_id e' \<longrightarrow>
           1 \<le> n_version n \<and> n_version n \<le> e_version e' \<and> n_tenant n = e_tenant e')
        \<and> (0 < e_version e' \<longrightarrow>
             (\<exists>n \<in> set (db_snapshots db'). n_environment n = e_id e' \<and> n_version n = e_version e'))"
      by (cases "e0 = e") (auto simp: e' snaps intro: le_SucI)
  qed
  moreover have "tenants_agree db'"
    using ok unfolding committed(7) by (simp add: db_ok_defs)
  ultimately show ?thesis by (simp add: db_ok_def)
qed

lemma create_ok:
  assumes ok: "db_ok db" and create: "createFlag now new_id new_salt inp db = (res, db')"
  shows "db_ok db'"
  using create
proof (cases rule: create_cases)
  case failed
  with ok show ?thesis by simp
next
  case (created f)
  let ?es = "filter (\<lambda>e. e_tenant e = ci_tenantId inp) (db_environments db)"
  have fresh: "c_flag c \<noteq> new_id" if "c \<in> set (db_configs db)" for c
    using ok created(2) that by (fastforce simp: db_ok_def references_hold_def flag_exists_def)
  have new: "c_flag (new_config inp new_id e) = new_id" "c_environment (new_config inp new_id e) = e_id e"
      "c_tenant (new_config inp new_id e) = ci_tenantId inp" for e
    by (simp_all add: new_config_def)
  have f: "f_id f = new_id" "f_tenant f = ci_tenantId inp" "f_key f = ci_key inp" by (simp_all add: created(1))
  have "keys_unique db'"
    using ok created(2) fresh unfolding created(5) keys_unique_def db_ok_def
    by (auto simp: f new distinct_map inj_on_def intro: distinct_filter)
  moreover have "references_hold db'"
    using ok created(3) unfolding created(5) references_hold_def db_ok_def
    by (auto simp: f new flag_exists_def environment_exists_def)
  moreover have "snapshots_compiled db'" "versions_current db'"
    using ok unfolding created(5) by (simp_all add: db_ok_def snapshots_compiled_def versions_current_def)
  moreover have "tenants_agree db'"
    using ok created(2) fresh unfolding created(5) tenants_agree_def db_ok_def by (auto simp: f new)
  ultimately show ?thesis by (simp add: db_ok_def)
qed

text \<open>Updates that keep keys and tenants keep the invariant.\<close>

lemma write_config_ok:
  assumes "db_ok db" shows "db_ok (write_config now inp previous db)"
proof -
  let ?db = "write_config now inp previous db"
  have same: "map f_id (db_flags ?db) = map f_id (db_flags db)"
      "map (\<lambda>f. (f_tenant f, f_key f)) (db_flags ?db) = map (\<lambda>f. (f_tenant f, f_key f)) (db_flags db)"
      "map (\<lambda>f. (f_id f, f_tenant f)) (db_flags ?db) = map (\<lambda>f. (f_id f, f_tenant f)) (db_flags db)"
      "map (\<lambda>c. (c_flag c, c_environment c)) (db_configs ?db) = map (\<lambda>c. (c_flag c, c_environment c)) (db_configs db)"
      "map (\<lambda>c. (c_flag c, c_tenant c)) (db_configs ?db) = map (\<lambda>c. (c_flag c, c_tenant c)) (db_configs db)"
      "map (\<lambda>c. (c_tenant c, c_flag c, c_environment c)) (db_configs ?db)
         = map (\<lambda>c. (c_tenant c, c_flag c, c_environment c)) (db_configs db)"
    by (simp_all add: write_config_def Let_def)
  have other: "db_tenants ?db = db_tenants db" "db_environments ?db = db_environments db"
      "db_segments ?db = db_segments db" "db_api_keys ?db = db_api_keys db" "db_snapshots ?db = db_snapshots db"
    by (simp_all add: write_config_def Let_def)
  have flags: "f \<in> set (db_flags ?db) \<Longrightarrow> \<exists>g \<in> set (db_flags db). f_id f = f_id g \<and> f_tenant f = f_tenant g" for f
    using update_where_source [where g = "\<lambda>f. (f_id f, f_tenant f)"] by (fastforce simp: write_config_def Let_def)
  have configs: "c \<in> set (db_configs ?db) \<Longrightarrow>
      \<exists>d \<in> set (db_configs db). c_tenant c = c_tenant d \<and> c_flag c = c_flag d \<and> c_environment c = c_environment d" for c
    using update_where_source [where g = "\<lambda>c. (c_tenant c, c_flag c, c_environment c)"]
    by (fastforce simp: write_config_def Let_def)
  have exists: "tenant_exists ?db t = tenant_exists db t" "environment_exists ?db e = environment_exists db e"
      "flag_exists ?db k = flag_exists db k" for t e k
  proof -
    have "flag_exists d k \<longleftrightarrow> k \<in> set (map f_id (db_flags d))" for d by (auto simp: flag_exists_def)
    then show "flag_exists ?db k = flag_exists db k" by (simp only: same)
  qed (simp_all add: tenant_exists_def environment_exists_def other)
  have "keys_unique ?db" using assms unfolding db_ok_def keys_unique_def by (simp only: other same)
  moreover have "references_hold ?db"
    unfolding references_hold_def
  proof (intro conjI ballI)
    fix f assume "f \<in> set (db_flags ?db)"
    with flags [of f] assms show "tenant_exists ?db (f_tenant f)"
      by (auto simp: exists db_ok_def references_hold_def)
  next
    fix c assume "c \<in> set (db_configs ?db)"
    with configs [of c] assms show "tenant_exists ?db (c_tenant c)" "flag_exists ?db (c_flag c)"
        "environment_exists ?db (c_environment c)"
      by (auto simp: exists db_ok_def references_hold_def)
  qed (use assms in \<open>simp_all add: exists other db_ok_def references_hold_def\<close>)
  moreover have "snapshots_compiled ?db" "versions_current ?db"
    using assms by (simp_all add: db_ok_def snapshots_compiled_def versions_current_def other)
  moreover have "tenants_agree ?db"
    unfolding tenants_agree_def
  proof (intro ballI impI)
    fix c f assume "c \<in> set (db_configs ?db)" "f \<in> set (db_flags ?db)" "c_flag c = f_id f"
    with flags [of f] configs [of c] assms show "c_tenant c = f_tenant f"
      by (auto simp: db_ok_def tenants_agree_def)
  qed
  ultimately show ?thesis by (simp add: db_ok_def)
qed

lemma update_ok:
  assumes "db_ok db" "updateFlagConfig now inp db = (r, db')" shows "db_ok db'"
  using assms write_config_ok by (auto simp: updateFlagConfig_def split: option.splits)

lemma insert_key_ok:
  assumes "db_ok db" "insertApiKey new_id inp db = (r, db')" shows "db_ok db'"
proof -
  have "db' = db \<or> (\<exists>k. db' = db\<lparr>db_api_keys := db_api_keys db @ [k]\<rparr> \<and> tenant_exists db (k_tenant k)
      \<and> environment_exists db (k_environment k) \<and> k_id k \<notin> k_id ` set (db_api_keys db))"
    using assms(2) by (force simp: insertApiKey_def insert_key_row_def split: if_splits)
  with assms(1) show ?thesis by (auto simp: db_ok_defs)
qed

lemma touch_ok: "db_ok db \<Longrightarrow> db_ok (touchKeyUsage now k db)"
  by (auto simp: touchKeyUsage_def db_ok_defs in_update_where)

lemma audit_ok:
  assumes "db_ok db" "writeAudit now entry db = (r, db')" shows "db_ok db'"
proof -
  have "db' = db \<or> (\<exists>a. db' = db\<lparr>db_audit := db_audit db @ [a]\<rparr>)"
    using assms(2) by (auto simp: writeAudit_def insert_audit_def split: if_splits)
  with assms(1) show ?thesis by (auto simp: db_ok_defs)
qed

section \<open>Runs of operations\<close>

datatype store_action =
    Publish js_string publish_options
  | CreateFlag int js_string js_string create_flag_input
  | UpdateFlag int update_flag_input
  | InsertKey js_string create_api_key_input
  | TouchKey int js_string
  | WriteAudit int audit_entry

fun store_step ::
    "(js_string \<Rightarrow> js_string \<Rightarrow> bool) \<Rightarrow> (8 word list \<Rightarrow> 8 word list) \<Rightarrow> (ruleset_snapshot \<Rightarrow> js_string)
     \<Rightarrow> store_action \<Rightarrow> database \<Rightarrow> database" where
  "store_step collate sha256 stringify (Publish now opts) db = snd (publishRuleset collate sha256 stringify now opts db)"
| "store_step collate sha256 stringify (CreateFlag now i s inp) db = snd (createFlag now i s inp db)"
| "store_step collate sha256 stringify (UpdateFlag now inp) db = snd (updateFlagConfig now inp db)"
| "store_step collate sha256 stringify (InsertKey i inp) db = snd (insertApiKey i inp db)"
| "store_step collate sha256 stringify (TouchKey now k) db = touchKeyUsage now k db"
| "store_step collate sha256 stringify (WriteAudit now entry) db = snd (writeAudit now entry db)"

lemma store_step_ok: "db_ok db \<Longrightarrow> db_ok (store_step collate sha256 stringify a db)"
  by (cases a) (auto intro: publish_ok create_ok update_ok insert_key_ok touch_ok audit_ok prod.collapse [symmetric])

lemma store_run_ok: "db_ok db \<Longrightarrow> db_ok (fold (store_step collate sha256 stringify) as db)"
  by (induction as arbitrary: db) (simp_all add: store_step_ok)

section \<open>The register of published rulesets\<close>

text \<open>
  What a database promises to its SDKs: for each environment the last published version with its
  payloads, and a publish that writes the next one.
\<close>

type_synonym register = "js_string \<Rightarrow> (nat \<times> compiled_ruleset) option"

definition published :: "database \<Rightarrow> register" where
  "published db env =
     map_option (\<lambda>n. (n_version n, \<lparr>cr_server = n_server n, cr_client = n_client n\<rparr>)) (newest_snapshot db env)"

definition register_write :: "js_string \<Rightarrow> compiled_ruleset \<Rightarrow> register \<Rightarrow> register" where
  "register_write env c reg = reg(env \<mapsto> (case reg env of None \<Rightarrow> 1 | Some (v, _) \<Rightarrow> v + 1, c))"

lemma order_by_simps [simp]:
  "order_by le key [] = []"
  "order_by le key (x # xs) = insert_by le key x (order_by le key xs)"
  by (simp_all add: order_by_def)

lemma order_by_Nil_iff [simp]: "order_by le key xs = [] \<longleftrightarrow> xs = []"
  using set_order_by [of le key xs] by (metis set_empty)

lemma order_by_head:
  "order_by (\<lambda>m n. n \<le> m) key xs = y # ys \<Longrightarrow> \<forall>x \<in> set xs. key x \<le> (key y :: nat)"
proof (induction xs arbitrary: y ys)
  case (Cons x xs)
  show ?case
  proof (cases "order_by (\<lambda>m n. n \<le> m) key xs")
    case Nil
    with Cons.prems show ?thesis by auto
  next
    case (Cons z zs)
    with Cons.IH [OF this] Cons.prems show ?thesis by (fastforce split: if_splits)
  qed
qed simp

lemma newest_SomeD:
  "newest_snapshot db env = Some n \<Longrightarrow> n \<in> set (db_snapshots db) \<and> n_environment n = env
     \<and> (\<forall>m \<in> set (db_snapshots db). n_environment m = env \<longrightarrow> n_version m \<le> n_version n)"
proof -
  let ?xs = "filter (\<lambda>s. n_environment s = env) (db_snapshots db)"
  assume "newest_snapshot db env = Some n"
  then obtain ns where ns: "order_by (\<lambda>m n. n \<le> m) n_version ?xs = n # ns"
    by (auto simp: newest_snapshot_def split: list.splits)
  then have "n \<in> set ?xs" using set_order_by [of "\<lambda>m n. n \<le> m" n_version ?xs] by (metis list.set_intros(1))
  with order_by_head [OF ns] show ?thesis by simp
qed

lemma newest_None_iff: "newest_snapshot db env = None \<longleftrightarrow> (\<forall>n \<in> set (db_snapshots db). n_environment n \<noteq> env)"
proof -
  let ?xs = "filter (\<lambda>s. n_environment s = env) (db_snapshots db)"
  have "newest_snapshot db env = None \<longleftrightarrow> order_by (\<lambda>m n. n \<le> m) n_version ?xs = []"
    by (cases "order_by (\<lambda>m n. n \<le> m) n_version ?xs") (simp_all add: newest_snapshot_def del: order_by_Nil_iff)
  then show ?thesis by (simp add: filter_empty_conv)
qed

lemma newest_eqI:
  assumes "db_ok db" "n \<in> set (db_snapshots db)"
    and "\<forall>m \<in> set (db_snapshots db). n_environment m = n_environment n \<longrightarrow> n_version m \<le> n_version n"
  shows "newest_snapshot db (n_environment n) = Some n"
proof (cases "newest_snapshot db (n_environment n)")
  case None
  with assms(2) show ?thesis by (auto simp: newest_None_iff)
next
  case (Some m)
  from newest_SomeD [OF this] assms have "m \<in> set (db_snapshots db)" "n_environment m = n_environment n"
      "n_version m = n_version n" by (auto intro: antisym)
  with assms(1,2) have "m = n" by (auto simp: db_ok_def keys_unique_def distinct_map inj_on_def)
  with Some show ?thesis by simp
qed

text \<open>The version of an environment is that of its newest snapshot.\<close>

lemma published_version:
  assumes "db_ok db" "e \<in> set (db_environments db)"
  shows "case published db (e_id e) of None \<Rightarrow> e_version e = 0 | Some (v, c) \<Rightarrow> e_version e = v"
proof (cases "newest_snapshot db (e_id e)")
  case None
  then have "\<forall>n \<in> set (db_snapshots db). n_environment n \<noteq> e_id e" by (simp add: newest_None_iff)
  with assms have "e_version e = 0" by (fastforce simp: db_ok_def versions_current_def)
  with None show ?thesis by (simp add: published_def)
next
  case (Some n)
  note new = newest_SomeD [OF this]
  have cur: "\<forall>n \<in> set (db_snapshots db). n_environment n = e_id e \<longrightarrow> 1 \<le> n_version n \<and> n_version n \<le> e_version e"
      "0 < e_version e \<longrightarrow> (\<exists>n \<in> set (db_snapshots db). n_environment n = e_id e \<and> n_version n = e_version e)"
    using assms by (auto simp: db_ok_def versions_current_def)
  from cur(1) new have le: "1 \<le> n_version n" "n_version n \<le> e_version e" by auto
  with cur(2) obtain m where "m \<in> set (db_snapshots db)" "n_environment m = e_id e" "n_version m = e_version e"
    by fastforce
  with new le have "n_version n = e_version e" by force
  with Some show ?thesis by (simp add: published_def)
qed

lemma published_cong: "db_snapshots db' = db_snapshots db \<Longrightarrow> published db' = published db"
  by (rule ext) (simp add: published_def newest_snapshot_def)

lemma publish_register:
  assumes ok: "db_ok db" and pub: "publishRuleset collate sha256 stringify now opts db = (res, db')"
  shows "published db' = (case res of Inl err \<Rightarrow> published db
    | Inr r \<Rightarrow> register_write (po_environmentId opts) (pr_compiled r) (published db))"
  using pub
proof (cases rule: publish_cases)
  case (committed e c entry)
  have ok': "db_ok db'" using assms by (rule publish_ok)
  have ent: "n_environment entry = po_environmentId opts" "n_version entry = e_version e + 1"
      "n_server entry = cr_server c" "n_client entry = cr_client c"
    by (simp_all add: committed(5))
  have snaps: "db_snapshots db' = db_snapshots db @ [entry]" by (simp add: committed(7))
  have old: "\<forall>m \<in> set (db_snapshots db). n_environment m = n_environment entry \<longrightarrow> n_version m \<le> e_version e"
    using ok committed(1,2) by (auto simp: ent db_ok_def versions_current_def)
  have "newest_snapshot db' (n_environment entry) = Some entry"
    using old by (intro newest_eqI [OF ok']) (auto simp: snaps ent)
  then have here: "published db' (po_environmentId opts) = Some (e_version e + 1, c)"
    by (simp add: published_def ent)
  have "(case published db (po_environmentId opts) of None \<Rightarrow> 1 | Some (v, _) \<Rightarrow> v + 1) = e_version e + 1"
    using published_version [OF ok committed(1)] committed(2) by (auto split: option.splits)
  moreover have "published db' env = published db env" if "env \<noteq> po_environmentId opts" for env
    using that ent by (simp add: published_def newest_snapshot_def snaps)
  ultimately show ?thesis using here committed(6)
    by (auto simp: register_write_def fun_eq_iff)
qed simp

lemma snapshots_kept:
  "db_snapshots (snd (createFlag now i s ci db)) = db_snapshots db"
  "db_snapshots (snd (updateFlagConfig now ui db)) = db_snapshots db"
  "db_snapshots (snd (insertApiKey i ki db)) = db_snapshots db"
  "db_snapshots (touchKeyUsage now k db) = db_snapshots db"
  "db_snapshots (snd (writeAudit now entry db)) = db_snapshots db"
proof -
  obtain res db' where "createFlag now i s ci db = (res, db')" by fastforce
  then show "db_snapshots (snd (createFlag now i s ci db)) = db_snapshots db"
    by (auto elim!: create_cases)
qed (simp_all add: updateFlagConfig_def write_config_def Let_def insertApiKey_def insert_key_row_def
    touchKeyUsage_def writeAudit_def insert_audit_def split: option.split)

section \<open>A database\<close>

text \<open>Two tenants, one of them with a flag that is configured in its environment.\<close>

definition example_db :: database where
  "example_db = \<lparr>
     db_tenants = [\<lparr>t_id = lit ''t1'', t_slug = lit ''acme'', t_name = lit ''Acme''\<rparr>,
                   \<lparr>t_id = lit ''t2'', t_slug = lit ''other'', t_name = lit ''Other''\<rparr>],
     db_environments = [\<lparr>e_id = lit ''e1'', e_tenant = lit ''t1'', e_key = lit ''prod'', e_name = lit ''Prod'', e_version = 0\<rparr>,
                        \<lparr>e_id = lit ''e2'', e_tenant = lit ''t2'', e_key = lit ''prod'', e_name = lit ''Prod'', e_version = 0\<rparr>],
     db_segments = [],
     db_flags = [\<lparr>f_id = lit ''f1'', f_tenant = lit ''t1'', f_key = lit ''checkout'', f_description = [],
                   f_salt = lit ''s1'', f_bucket_by = lit ''key'',
                   f_variations = JArr [JObj [(lit ''key'', JStr (lit ''on'')), (lit ''value'', JBool True)],
                                        JObj [(lit ''key'', JStr (lit ''off'')), (lit ''value'', JBool False)]],
                   f_archived = False, f_updated_at = 0\<rparr>],
     db_configs = [\<lparr>c_tenant = lit ''t1'', c_flag = lit ''f1'', c_environment = lit ''e1'', c_enabled = True,
                     c_default = lit ''on'', c_off = lit ''off'', c_rules = JArr [], c_prerequisites = JArr []\<rparr>],
     db_api_keys = [], db_audit = [], db_snapshots = []\<rparr>"

lemma example_db_ok: "db_ok example_db"
  by (simp add: example_db_def db_ok_defs exists_defs)

end
