(* ===== verification/Publishing.thy ===== *)
theory Publishing
  imports Store
begin

text \<open>
  What an administrator gets from the operations of \<open>repository.ts\<close>: publishing is all or nothing and
  decided by the validation, a created flag is off everywhere, an update changes one configuration,
  and no operation of one tenant shows in what another tenant reads.
\<close>

section \<open>Publishing\<close>

text \<open>
  C19: publishing is all or nothing: a publish that raises leaves the database as it was, the version
  included, and one that returns has compiled the current rows of the tenant for the next version of
  an environment of that tenant, has stored exactly that under exactly that version, and has changed
  nothing else.
\<close>

theorem publish_is_atomic:
  "case publishRuleset collate sha256 stringify now opts db of
     (Inl err, db') \<Rightarrow> db' = db
   | (Inr r, db') \<Rightarrow>
       \<exists>e n. e \<in> set (db_environments db) \<and> e_id e = po_environmentId opts \<and> e_tenant e = po_tenantId opts
         \<and> compileRuleset now (po_environmentKey opts) (number_of_nat (e_version e + 1))
             (fst (loadRulesetInputs collate db (po_tenantId opts) (po_environmentId opts)))
             (snd (loadRulesetInputs collate db (po_tenantId opts) (po_environmentId opts))) None
             = Inr (pr_compiled r)
         \<and> pr_version r = number_of_nat (e_version e + 1)
         \<and> n_environment n = e_id e \<and> n_tenant n = e_tenant e \<and> n_version n = e_version e + 1
         \<and> n_server n = cr_server (pr_compiled r) \<and> n_client n = cr_client (pr_compiled r)
         \<and> n_etag n = pr_etag r
         \<and> db' = db\<lparr>db_environments :=
                 map (\<lambda>e. if e_id e = po_environmentId opts \<and> e_tenant e = po_tenantId opts
                          then e\<lparr>e_version := e_version e + 1\<rparr> else e) (db_environments db),
               db_snapshots := db_snapshots db @ [n]\<rparr>"
proof -
  obtain res db' where pub: "publishRuleset collate sha256 stringify now opts db = (res, db')" by fastforce
  from pub show ?thesis
  proof (cases rule: publish_cases)
    case (committed e c entry)
    have ent: "n_environment entry = e_id e" "n_tenant entry = e_tenant e" "n_version entry = e_version e + 1"
        "n_server entry = cr_server c" "n_client entry = cr_client c"
      using committed(2,3) by (simp_all add: committed(5))
    have "case res of Inl err \<Rightarrow> False | Inr r \<Rightarrow> pr_compiled r = c \<and> pr_etag r = n_etag entry
        \<and> pr_version r = number_of_nat (e_version e + 1)"
      by (simp add: committed(6))
    then show ?thesis unfolding pub
      using committed(1-4,7) ent by (cases res) (auto simp: update_where_def intro!: exI [of _ e] exI [of _ entry])
  qed (simp add: pub)
qed

lemma publish_succeeds:
  assumes ok: "db_ok db" and e: "e \<in> set (db_environments db)" "e_id e = po_environmentId opts" "e_tenant e = po_tenantId opts"
    and room: "e_version e + 1 < 2 ^ 63"
    and valid: "ruleset_problems (fst (loadRulesetInputs collate db (po_tenantId opts) (po_environmentId opts)))
      (snd (loadRulesetInputs collate db (po_tenantId opts) (po_environmentId opts))) = Some []"
  shows "\<exists>r db'. publishRuleset collate sha256 stringify now opts db = (Inr r, db')"
proof -
  obtain c where c: "compileRuleset now (po_environmentKey opts) (number_of_nat (e_version e + 1))
      (fst (loadRulesetInputs collate db (po_tenantId opts) (po_environmentId opts)))
      (snd (loadRulesetInputs collate db (po_tenantId opts) (po_environmentId opts))) None = Inr c"
  proof -
    have "keys_unique db" using ok by (simp add: db_ok_def)
    from compile_valid [OF segment_rows_distinct [OF this] valid] that show thesis by blast
  qed
  have "find (\<lambda>e. e_id e = po_environmentId opts \<and> e_tenant e = po_tenantId opts) (db_environments db) = Some e"
  proof (cases "find (\<lambda>e. e_id e = po_environmentId opts \<and> e_tenant e = po_tenantId opts) (db_environments db)")
    case None
    with e show ?thesis by (auto simp: find_None_iff)
  next
    case (Some e')
    from find_SomeD [OF this] e ok have "e' = e" by (auto simp: db_ok_def keys_unique_def distinct_map inj_on_def)
    with Some show ?thesis by simp
  qed
  moreover have "\<not> (\<exists>s \<in> set (db_snapshots db). n_environment s = e_id e \<and> n_version s = e_version e + 1)"
    using ok e(1) by (fastforce simp: db_ok_def versions_current_def)
  moreover have "tenant_exists db (e_tenant e)" using ok e(1) by (simp add: db_ok_def references_hold_def)
  moreover have "environment_exists db (e_id e)" using e(1) by (auto simp: environment_exists_def)
  moreover have "loadRulesetInputs collate (db\<lparr>db_environments := es\<rparr>) t i = loadRulesetInputs collate db t i" for es t i
    by (rule inputs_cong) simp_all
  ultimately show ?thesis using c room e(2,3)
    by (auto simp: publishRuleset_def withTransaction_def publish_body_def bump_version_def insert_snapshot_def
        Let_def split_beta)
qed

text \<open>
  On a database that keeps its constraints, publishing an environment of the tenant is decided by
  the validation alone: it returns exactly when the rows have no problem, so that neither the leak
  check nor a version taken by another publish ever fails it.
\<close>

lemma publish_decided_by_validation:
  assumes "db_ok db" "e \<in> set (db_environments db)"
    and "e_id e = po_environmentId opts" "e_tenant e = po_tenantId opts" "e_version e + 1 < 2 ^ 63"
  shows "(\<exists>r. fst (publishRuleset collate sha256 stringify now opts db) = Inr r) \<longleftrightarrow>
    ruleset_problems (fst (loadRulesetInputs collate db (po_tenantId opts) (po_environmentId opts)))
      (snd (loadRulesetInputs collate db (po_tenantId opts) (po_environmentId opts))) = Some []"
proof
  assume "ruleset_problems (fst (loadRulesetInputs collate db (po_tenantId opts) (po_environmentId opts)))
      (snd (loadRulesetInputs collate db (po_tenantId opts) (po_environmentId opts))) = Some []"
  from publish_succeeds [OF assms this] show "\<exists>r. fst (publishRuleset collate sha256 stringify now opts db) = Inr r"
    by (metis fst_conv)
next
  assume "\<exists>r. fst (publishRuleset collate sha256 stringify now opts db) = Inr r"
  then obtain r db' where "publishRuleset collate sha256 stringify now opts db = (Inr r, db')" by (metis prod.collapse)
  then show "ruleset_problems (fst (loadRulesetInputs collate db (po_tenantId opts) (po_environmentId opts)))
      (snd (loadRulesetInputs collate db (po_tenantId opts) (po_environmentId opts))) = Some []"
    by (cases rule: publish_cases) (auto dest: compile_accepted(1))
qed

definition prod_of_acme :: publish_options where
  "prod_of_acme = \<lparr>po_tenantId = lit ''t1'', po_environmentId = lit ''e1'', po_environmentKey = lit ''prod'',
     po_publishedBy = lit ''admin''\<rparr>"

definition by_text :: "js_string \<Rightarrow> js_string \<Rightarrow> bool" where
  "by_text s t \<longleftrightarrow> \<not> string_less t s"

lemma example_inputs_valid:
  "ruleset_problems (fst (loadRulesetInputs by_text example_db (lit ''t1'') (lit ''e1'')))
     (snd (loadRulesetInputs by_text example_db (lit ''t1'') (lit ''e1''))) = Some []"
  by code_simp

lemma publish_decided_by_validation_witness:
  "\<exists>r. fst (publishRuleset by_text (\<lambda>bs. bs) (\<lambda>s. []) [] prod_of_acme example_db) = Inr r"
proof -
  have "\<exists>e \<in> set (db_environments example_db). e_id e = po_environmentId prod_of_acme
      \<and> e_tenant e = po_tenantId prod_of_acme \<and> e_version e + 1 < 2 ^ 63"
    by (simp add: example_db_def prod_of_acme_def)
  then obtain e where "e \<in> set (db_environments example_db)" "e_id e = po_environmentId prod_of_acme"
      "e_tenant e = po_tenantId prod_of_acme" "e_version e + 1 < 2 ^ 63" by blast
  from publish_decided_by_validation [OF example_db_ok this, of by_text "\<lambda>bs. bs" "\<lambda>s. []" "[]"]
    example_inputs_valid show ?thesis by (simp add: prod_of_acme_def)
qed

lemma example_publish:
  "\<exists>r. fst (publishRuleset by_text (\<lambda>bs. bs) (\<lambda>s. []) [] prod_of_acme example_db) = Inr r"
proof -
  have "\<exists>e \<in> set (db_environments example_db). e_id e = po_environmentId prod_of_acme
      \<and> e_tenant e = po_tenantId prod_of_acme \<and> e_version e + 1 < 2 ^ 63"
    by (simp add: example_db_def prod_of_acme_def)
  then obtain e where e: "e \<in> set (db_environments example_db)" "e_id e = po_environmentId prod_of_acme"
      "e_tenant e = po_tenantId prod_of_acme" "e_version e + 1 < 2 ^ 63" by blast
  have "ruleset_problems (fst (loadRulesetInputs by_text example_db (po_tenantId prod_of_acme) (po_environmentId prod_of_acme)))
     (snd (loadRulesetInputs by_text example_db (po_tenantId prod_of_acme) (po_environmentId prod_of_acme))) = Some []"
    using example_inputs_valid by (simp add: prod_of_acme_def)
  from publish_succeeds [OF example_db_ok e this, of "\<lambda>bs. bs" "\<lambda>s. []" "[]"] show ?thesis by auto
qed

text \<open>
  C20: the database refines a versioned register per environment: a publish that succeeds writes the
  compiled payloads under the next version of its environment and leaves every other environment
  alone, and no other operation, and no failed publish, changes what is published.
\<close>

theorem publishing_refines_register:
  assumes "db_ok db"
  shows "published (store_step collate sha256 stringify a db) =
    (case a of
       Publish now opts \<Rightarrow>
         (case fst (publishRuleset collate sha256 stringify now opts db) of
            Inl err \<Rightarrow> published db
          | Inr r \<Rightarrow> register_write (po_environmentId opts) (pr_compiled r) (published db))
     | _ \<Rightarrow> published db)"
proof (cases a)
  case (Publish now opts)
  then show ?thesis using publish_register [OF assms prod.collapse [symmetric], of collate sha256 stringify now opts]
    by simp
qed (simp_all add: published_cong [OF snapshots_kept(1)] published_cong [OF snapshots_kept(2)]
    published_cong [OF snapshots_kept(3)] published_cong [OF snapshots_kept(4)] published_cong [OF snapshots_kept(5)])

theorem publishing_refines_register_witness:
  "\<exists>c. published (store_step by_text (\<lambda>bs. bs) (\<lambda>s. []) (Publish [] prod_of_acme) example_db) (lit ''e1'') = Some (1, c)"
proof -
  obtain r where r: "fst (publishRuleset by_text (\<lambda>bs. bs) (\<lambda>s. []) [] prod_of_acme example_db) = Inr r"
    using example_publish by blast
  have "published example_db (lit ''e1'') = None" by (simp add: published_def newest_None_iff example_db_def)
  with publishing_refines_register [OF example_db_ok, of by_text "\<lambda>bs. bs" "\<lambda>s. []" "Publish [] prod_of_acme"] r
  show ?thesis by (simp add: register_write_def prod_of_acme_def)
qed

section \<open>Creating flags\<close>

lemma find_append: "find p (xs @ ys) = (case find p xs of None \<Rightarrow> find p ys | Some x \<Rightarrow> Some x)"
  by (induction xs) auto

lemma find_cong_set: "(\<And>x. x \<in> set xs \<Longrightarrow> p x = q x) \<Longrightarrow> find p xs = find q xs"
  by (induction xs) auto

lemma find_new_config:
  "find (\<lambda>c. c_flag c = i \<and> c_environment c = env) (map (new_config inp i) es)
     = map_option (new_config inp i) (find (\<lambda>e. e_id e = env) es)"
  by (induction es) (auto simp: new_config_def)

text \<open>After a creation the tenant has its flags and the new one, with a configuration in each of its environments.\<close>

lemma flags_in_create:
  assumes ok: "db_ok db" and create: "createFlag now i s inp db = (Inr (), db')"
  shows "flags_in db' tenant env = flags_in db tenant env @
    (if tenant = ci_tenantId inp
     then [(\<lparr>f_id = i, f_tenant = ci_tenantId inp, f_key = ci_key inp, f_description = ci_description inp,
              f_salt = s, f_bucket_by = lit ''key'', f_variations = JArr (ci_variations inp),
              f_archived = False, f_updated_at = now\<rparr>,
            map_option (new_config inp i)
              (find (\<lambda>e. e_id e = env) (filter (\<lambda>e. e_tenant e = tenant) (db_environments db))))]
     else [])"
  using create
proof (cases rule: create_cases)
  case (created f)
  have ok': "keys_unique db'" "keys_unique db" using ok create_ok [OF ok create] by (simp_all add: db_ok_def)
  let ?new = "map (new_config inp i) (filter (\<lambda>e. e_tenant e = ci_tenantId inp) (db_environments db))"
  have old: "find (\<lambda>c. c_flag c = f_id g \<and> c_environment c = env) (db_configs db @ ?new)
      = find (\<lambda>c. c_flag c = f_id g \<and> c_environment c = env) (db_configs db)" if "g \<in> set (db_flags db)" for g
  proof -
    have "find (\<lambda>c. c_flag c = f_id g \<and> c_environment c = env) ?new = None"
      using created(2) that by (auto simp: find_None_iff new_config_def)
    then show ?thesis by (simp add: find_append split: option.split)
  qed
  have "find (\<lambda>c. c_flag c = i \<and> c_environment c = env) (db_configs db) = None"
    using ok created(2) by (fastforce simp: find_None_iff db_ok_def references_hold_def flag_exists_def)
  then have new: "find (\<lambda>c. c_flag c = i \<and> c_environment c = env) (db_configs db @ ?new)
      = map_option (new_config inp i) (find (\<lambda>e. e_id e = env) (filter (\<lambda>e. e_tenant e = ci_tenantId inp) (db_environments db)))"
    by (simp add: find_append find_new_config)
  have dbs: "db_flags db' = db_flags db @ [f]" "db_configs db' = db_configs db @ ?new" by (simp_all add: created(5))
  show ?thesis
    unfolding flags_in_unique [OF ok'(1)] flags_in_unique [OF ok'(2)] dbs
    by (auto simp: created(1) new old)
qed simp

lemma getFlag_append:
  "getFlag db tenant env key =
     map_option flag_detail_of (find (\<lambda>fc. f_key (fst fc) = key) (flags_in db tenant env))"
proof -
  have "(\<lambda>(f, c). f_key f = key) = (\<lambda>fc :: flag_entry \<times> config_entry option. f_key (fst fc) = key)"
    by (rule ext) auto
  then show ?thesis by (simp add: getFlag_def)
qed

text \<open>A compiled flag that is disabled serves its off variation.\<close>

lemma resultFor_served:
  assumes "k \<in> vkey ` set (variations f)"
  shows "reason (resultFor (compile_flag f) k why fallback b) = why
    \<and> rvariationKey (resultFor (compile_flag f) k why fallback b) = k"
proof -
  obtain v where "map_get (cf_variations (compile_flag f)) k = Some v"
    using assms index_by_Some_ex [where key = vkey and val = id and xs = "variations f"]
    by (auto simp: compile_flag_def)
  then show ?thesis by (simp add: resultFor_def)
qed

lemma disabled_row_is_off:
  assumes "compileRuleset now' envKey ver frows srows served = Inr c" "row \<in> set frows"
    and "distinct (map row_key frows)" "\<not> row_enabled row"
  shows "reason (evaluateFlag regex (row_key row) ctx (indexSnapshot (filterSnapshotForKey (cr_server c) kind)) fallback) = ROff
    \<and> rvariationKey (evaluateFlag regex (row_key row) ctx (indexSnapshot (filterSnapshotForKey (cr_server c) kind)) fallback)
        = row_off_variation_key row"
proof -
  note acc = compile_accepted [OF assms(1)]
  obtain row' where row': "row' \<in> set frows" "row_key row' = row_key row"
      "map_get (env_flags (indexSnapshot (cr_server c))) (row_key row) = Some (compile_flag (flag_of_row row'))"
    using server_flag_lookup [OF acc(2), of "row_key row"] assms(2) by blast
  have "row' = row" using row' assms(2,3) by (auto simp: distinct_map inj_on_def)
  define f where "f = (if kind = KindClient
    then filterFlag (clientSafeSegments (segments (cr_server c))) (flag_of_row row) else flag_of_row row)"
  have look: "map_get (env_flags (indexSnapshot (filterSnapshotForKey (cr_server c) kind))) (row_key row)
      = Some (compile_flag f)"
  proof (cases kind)
    case KindClient
    then show ?thesis using row'(3) \<open>row' = row\<close> by (simp add: f_def client_flag_lookup)
  next
    case KindServer
    then show ?thesis using row'(3) \<open>row' = row\<close> by (simp add: f_def filterSnapshotForKey_def)
  qed
  have "valid_flag (flag_of_row row)"
    using ruleset_problems_Nil(2) [OF acc(1)] assms(2) validateFlag_Nil(1) by blast
  then have valid: "valid_flag f" by (simp add: f_def valid_flag_filter)
  have off: "\<not> enabled f" "offVariationKey f = row_off_variation_key row"
    using assms(4) by (simp_all add: f_def flag_of_row_def filterFlag_def)
  with valid have "row_off_variation_key row \<in> vkey ` set (variations f)" by (simp add: valid_flag_def)
  from resultFor_served [OF this] show ?thesis
    by (simp add: evaluateFlag_def look evaluateInternal.simps [where seen = "[]"] off)
qed

lemma row_keys:
  assumes "keys_unique db"
  shows "mset (map row_key (fst (loadRulesetInputs collate db tenant env)))
    = mset (map f_key (filter (\<lambda>f. f_tenant f = tenant \<and> \<not> f_archived f) (db_flags db)))"
proof -
  have key: "row_key (flag_row_of fc) = f_key (fst fc)" for fc
    by (simp add: flag_row_of_def split_beta)
  have "mset (map row_key (fst (loadRulesetInputs collate db tenant env))) = mset (map (\<lambda>fc. f_key (fst fc)) (flags_in db tenant env))"
    by (simp add: loadRulesetInputs_def comp_def key mset_map del: map_map)
       (simp add: multiset.map_comp comp_def key)
  then show ?thesis by (simp add: flags_in_unique [OF assms] comp_def)
qed

lemma flag_rows_distinct:
  assumes "keys_unique db"
  shows "distinct (map row_key (fst (loadRulesetInputs collate db tenant env)))"
proof -
  have "distinct (map (\<lambda>f. (f_tenant f, f_key f)) (filter (\<lambda>f. f_tenant f = tenant \<and> \<not> f_archived f) (db_flags db)))"
    using assms by (simp add: keys_unique_def distinct_map_filter)
  then have "distinct (map f_key (filter (\<lambda>f. f_tenant f = tenant \<and> \<not> f_archived f) (db_flags db)))"
    by (auto simp: distinct_map inj_on_def)
  then show ?thesis using mset_eq_imp_distinct_iff [OF row_keys [OF assms]] by blast
qed

text \<open>
  A created flag is off everywhere: in every environment of its tenant the next published payloads,
  for either kind of key, evaluate it to its off variation for every context, whatever its other
  settings, and the tenant's other flags are as they were.
\<close>

lemma new_flag_is_off_everywhere:
  assumes "db_ok db" "createFlag now i s inp db = (Inr (), db')"
    and "e \<in> set (db_environments db)" "e_tenant e = ci_tenantId inp"
    and "compileRuleset now' envKey ver (fst (loadRulesetInputs collate db' (ci_tenantId inp) (e_id e)))
      (snd (loadRulesetInputs collate db' (ci_tenantId inp) (e_id e))) None = Inr c"
  shows "reason (evaluateFlag regex (ci_key inp) ctx (indexSnapshot (filterSnapshotForKey (cr_server c) kind)) fallback) = ROff
    \<and> rvariationKey (evaluateFlag regex (ci_key inp) ctx (indexSnapshot (filterSnapshotForKey (cr_server c) kind)) fallback)
        = ci_offVariationKey inp
    \<and> (\<forall>key. key \<noteq> ci_key inp \<longrightarrow>
         getFlag db' (ci_tenantId inp) (e_id e) key = getFlag db (ci_tenantId inp) (e_id e) key)"
proof -
  let ?es = "filter (\<lambda>e. e_tenant e = ci_tenantId inp) (db_environments db)"
  have ok': "keys_unique db'" using create_ok [OF assms(1,2)] by (simp add: db_ok_def)
  note flags = flags_in_create [OF assms(1,2), of "ci_tenantId inp" "e_id e", simplified]
  obtain e' where e': "find (\<lambda>x. e_id x = e_id e) ?es = Some e'"
    using assms(3,4) by (cases "find (\<lambda>x. e_id x = e_id e) ?es") (auto simp: find_None_iff)
  let ?fc = "(\<lparr>f_id = i, f_tenant = ci_tenantId inp, f_key = ci_key inp, f_description = ci_description inp,
     f_salt = s, f_bucket_by = lit ''key'', f_variations = JArr (ci_variations inp),
     f_archived = False, f_updated_at = now\<rparr>, Some (new_config inp i e'))"
  have "?fc \<in> set (flags_in db' (ci_tenantId inp) (e_id e))" by (simp add: flags e')
  then have row: "flag_row_of ?fc \<in> set (fst (loadRulesetInputs collate db' (ci_tenantId inp) (e_id e)))"
    by (simp add: loadRulesetInputs_def)
  have cols: "row_key (flag_row_of ?fc) = ci_key inp" "\<not> row_enabled (flag_row_of ?fc)"
      "row_off_variation_key (flag_row_of ?fc) = ci_offVariationKey inp"
    by (simp_all add: flag_row_of_def coalesce_def new_config_def)
  have "getFlag db' (ci_tenantId inp) (e_id e) key = getFlag db (ci_tenantId inp) (e_id e) key" if "key \<noteq> ci_key inp" for key
    using that by (simp add: getFlag_append flags find_append split: option.split)
  with disabled_row_is_off [OF assms(5) row flag_rows_distinct [OF ok'] cols(2)] cols show ?thesis by simp
qed

definition beta_flag :: create_flag_input where
  "beta_flag = \<lparr>ci_tenantId = lit ''t1'', ci_key = lit ''beta'', ci_description = [],
     ci_variations = [JObj [(lit ''key'', JStr (lit ''on'')), (lit ''value'', JBool True)],
                      JObj [(lit ''key'', JStr (lit ''off'')), (lit ''value'', JBool False)]],
     ci_defaultVariationKey = lit ''on'', ci_offVariationKey = lit ''off''\<rparr>"

lemma example_create:
  "fst (createFlag 7 (lit ''f2'') (lit ''s2'') beta_flag example_db) = Inr ()"
  by (rule create_succeeds [OF example_db_ok]) (simp_all add: beta_flag_def example_db_def exists_defs)

lemma example_created_valid:
  "ruleset_problems
     (fst (loadRulesetInputs by_text (snd (createFlag 7 (lit ''f2'') (lit ''s2'') beta_flag example_db)) (lit ''t1'') (lit ''e1'')))
     (snd (loadRulesetInputs by_text (snd (createFlag 7 (lit ''f2'') (lit ''s2'') beta_flag example_db)) (lit ''t1'') (lit ''e1'')))
   = Some []"
  by code_simp

lemma new_flag_is_off_everywhere_witness:
  "\<exists>c :: compiled_ruleset. reason (evaluateFlag no_regex (lit ''beta'') example_context
         (indexSnapshot (filterSnapshotForKey (cr_server c) KindServer)) JNull) = ROff
     \<and> getFlag (snd (createFlag 7 (lit ''f2'') (lit ''s2'') beta_flag example_db)) (lit ''t1'') (lit ''e1'') (lit ''checkout'')
         = getFlag example_db (lit ''t1'') (lit ''e1'') (lit ''checkout'')"
proof -
  let ?db = "snd (createFlag 7 (lit ''f2'') (lit ''s2'') beta_flag example_db)"
  let ?in = "loadRulesetInputs by_text ?db (lit ''t1'') (lit ''e1'')"
  have made: "createFlag 7 (lit ''f2'') (lit ''s2'') beta_flag example_db = (Inr (), ?db)"
    using example_create by (metis prod.collapse)
  have "keys_unique ?db" using create_ok [OF example_db_ok made] by (simp add: db_ok_def)
  then obtain c where c: "compileRuleset [] (lit ''prod'') (Fin 1) (fst ?in) (snd ?in) None = Inr c"
    using compile_valid [OF segment_rows_distinct example_created_valid] by blast
  have "\<exists>e \<in> set (db_environments example_db). e_id e = lit ''e1'' \<and> e_tenant e = ci_tenantId beta_flag"
    by (simp add: example_db_def beta_flag_def)
  then obtain e where e: "e \<in> set (db_environments example_db)" "e_tenant e = ci_tenantId beta_flag" "e_id e = lit ''e1''"
    by blast
  have "compileRuleset [] (lit ''prod'') (Fin 1) (fst (loadRulesetInputs by_text ?db (ci_tenantId beta_flag) (e_id e)))
      (snd (loadRulesetInputs by_text ?db (ci_tenantId beta_flag) (e_id e))) None = Inr c"
    using c by (simp add: e(3) beta_flag_def)
  note off = new_flag_is_off_everywhere [OF example_db_ok made e(1,2) this, of no_regex example_context KindServer JNull]
  have inp: "ci_key beta_flag = lit ''beta''" "ci_tenantId beta_flag = lit ''t1''" by (simp_all add: beta_flag_def)
  from off [unfolded inp e(3)] have "reason (evaluateFlag no_regex (lit ''beta'') example_context
        (indexSnapshot (filterSnapshotForKey (cr_server c) KindServer)) JNull) = ROff"
      "getFlag ?db (lit ''t1'') (lit ''e1'') (lit ''checkout'') = getFlag example_db (lit ''t1'') (lit ''e1'') (lit ''checkout'')"
    by simp_all
  then show ?thesis by blast
qed

end
