(* ===== verification/Tenancy.thy ===== *)
theory Tenancy
  imports Publishing
begin

text \<open>
  \<open>updateFlagConfig\<close> and the tenancy boundary of \<open>repository.ts\<close>: what an update changes, what it
  loses when two of them overlap or when the environment has no configuration row, and that no
  operation of one tenant shows in what another tenant reads.
\<close>

section \<open>Updating a configuration\<close>

lemma find_update_where:
  "(\<And>x. p (g x) = p x) \<Longrightarrow> find p (update_where q g xs) = map_option (\<lambda>x. if q x then g x else x) (find p xs)"
  by (induction xs) (auto simp: update_where_def)

lemma filter_update_where:
  "(\<And>x. p (g x) = p x) \<Longrightarrow> filter p (update_where q g xs) = update_where q g (filter p xs)"
  by (induction xs) (auto simp: update_where_def)

lemma filter_untouched:
  "(\<And>x. p (g x) = p x) \<Longrightarrow> (\<And>x. x \<in> set xs \<Longrightarrow> p x \<Longrightarrow> \<not> q x) \<Longrightarrow> filter p (update_where q g xs) = filter p xs"
  by (induction xs) (auto simp: update_where_def)

definition updated_config :: "update_flag_input \<Rightarrow> flag_detail \<Rightarrow> config_entry \<Rightarrow> config_entry" where
  "updated_config inp previous c =
     c\<lparr>c_enabled := or_else (uf_enabled inp) (fd_enabled previous),
       c_default := or_else (uf_defaultVariationKey inp) (fd_defaultVariationKey previous),
       c_off := or_else (uf_offVariationKey inp) (fd_offVariationKey previous),
       c_rules := nullish_else (uf_rules inp) (fd_rules previous)\<rparr>"

text \<open>The joined rows after an update: one flag is touched, and one configuration of it is rewritten.\<close>

lemma flags_in_write:
  assumes "db_ok db"
  shows "flags_in (write_config now inp previous db) tenant env =
    map (\<lambda>(f, c).
      (if f_tenant f = uf_tenantId inp \<and> f_key f = uf_key inp then f\<lparr>f_updated_at := now\<rparr> else f,
       if tenant = uf_tenantId inp \<and> env = uf_environmentId inp \<and> f_key f = uf_key inp
       then map_option (updated_config inp previous) c else c))
    (flags_in db tenant env)"
proof -
  let ?db = "write_config now inp previous db"
  let ?own = "filter (\<lambda>f. f_tenant f = tenant \<and> \<not> f_archived f) (db_flags db)"
  let ?ids = "f_id ` {f \<in> set (db_flags db). f_key f = uf_key inp}"
  let ?touch = "\<lambda>c. c_flag c \<in> ?ids \<and> c_tenant c = uf_tenantId inp \<and> c_environment c = uf_environmentId inp"
  have ok: "keys_unique db" "keys_unique ?db" using assms write_config_ok [OF assms] by (simp_all add: db_ok_def)
  have flags: "filter (\<lambda>f. f_tenant f = tenant \<and> \<not> f_archived f) (db_flags ?db)
      = update_where (\<lambda>f. f_tenant f = uf_tenantId inp \<and> f_key f = uf_key inp) (\<lambda>f. f\<lparr>f_updated_at := now\<rparr>) ?own"
    by (simp add: write_config_def Let_def filter_update_where)
  have configs: "db_configs ?db = update_where ?touch (updated_config inp previous) (db_configs db)"
    by (simp add: write_config_def Let_def updated_config_def [abs_def])
  have partner: "find (\<lambda>c. c_flag c = f_id f \<and> c_environment c = env) (db_configs ?db)
      = (if tenant = uf_tenantId inp \<and> env = uf_environmentId inp \<and> f_key f = uf_key inp
         then map_option (updated_config inp previous) (find (\<lambda>c. c_flag c = f_id f \<and> c_environment c = env) (db_configs db))
         else find (\<lambda>c. c_flag c = f_id f \<and> c_environment c = env) (db_configs db))"
    if f: "f \<in> set (db_flags db)" "f_tenant f = tenant" for f
  proof -
    have touch: "?touch c \<longleftrightarrow> tenant = uf_tenantId inp \<and> env = uf_environmentId inp \<and> f_key f = uf_key inp"
      if "find (\<lambda>c. c_flag c = f_id f \<and> c_environment c = env) (db_configs db) = Some c" for c
    proof -
      have c: "c \<in> set (db_configs db)" "c_flag c = f_id f" "c_environment c = env" using find_SomeD [OF that] by auto
      then have "c_tenant c = tenant" using assms f by (auto simp: db_ok_def tenants_agree_def)
      moreover have "c_flag c \<in> ?ids \<longleftrightarrow> f_key f = uf_key inp"
        using assms f(1) c(2) by (auto simp: db_ok_def keys_unique_def distinct_map inj_on_def)
      ultimately show ?thesis using c(3) by blast
    qed
    have "find (\<lambda>c. c_flag c = f_id f \<and> c_environment c = env) (db_configs ?db)
        = map_option (\<lambda>c. if ?touch c then updated_config inp previous c else c)
            (find (\<lambda>c. c_flag c = f_id f \<and> c_environment c = env) (db_configs db))"
      unfolding configs by (rule find_update_where) (simp add: updated_config_def)
    then show ?thesis using touch
      by (cases "find (\<lambda>c. c_flag c = f_id f \<and> c_environment c = env) (db_configs db)") auto
  qed
  have "(\<lambda>f. (f, find (\<lambda>c. c_flag c = f_id f \<and> c_environment c = env) (db_configs ?db)))
      (if f_tenant f = uf_tenantId inp \<and> f_key f = uf_key inp then f\<lparr>f_updated_at := now\<rparr> else f) =
    (if f_tenant f = uf_tenantId inp \<and> f_key f = uf_key inp then f\<lparr>f_updated_at := now\<rparr> else f,
       if tenant = uf_tenantId inp \<and> env = uf_environmentId inp \<and> f_key f = uf_key inp
       then map_option (updated_config inp previous)
         (find (\<lambda>c. c_flag c = f_id f \<and> c_environment c = env) (db_configs db))
       else find (\<lambda>c. c_flag c = f_id f \<and> c_environment c = env) (db_configs db))"
    if "f \<in> set ?own" for f
    using partner [of f] that by (auto split: if_splits)
  then show ?thesis
    unfolding flags_in_unique [OF ok(1)] flags_in_unique [OF ok(2)] flags
    by (simp add: update_where_def)
qed

lemma find_map: "find p (map h xs) = map_option h (find (p \<circ> h) xs)"
  by (induction xs) auto

lemma getFlag_write:
  assumes "db_ok db"
  shows "getFlag (write_config now inp previous db) tenant env key =
    map_option (\<lambda>(f, c). flag_detail_of
      (if f_tenant f = uf_tenantId inp \<and> f_key f = uf_key inp then f\<lparr>f_updated_at := now\<rparr> else f,
       if tenant = uf_tenantId inp \<and> env = uf_environmentId inp \<and> f_key f = uf_key inp
       then map_option (updated_config inp previous) c else c))
    (find (\<lambda>fc. f_key (fst fc) = key) (flags_in db tenant env))"
proof -
  let ?h = "\<lambda>(f, c). (if f_tenant f = uf_tenantId inp \<and> f_key f = uf_key inp then f\<lparr>f_updated_at := now\<rparr> else f,
       if tenant = uf_tenantId inp \<and> env = uf_environmentId inp \<and> f_key f = uf_key inp
       then map_option (updated_config inp previous) c else c)"
  have keys: "((\<lambda>fc. f_key (fst fc) = key) \<circ> ?h) = (\<lambda>fc. f_key (fst fc) = key)" by (rule ext) auto
  have details: "flag_detail_of \<circ> ?h = (\<lambda>(f, c). flag_detail_of
      (if f_tenant f = uf_tenantId inp \<and> f_key f = uf_key inp then f\<lparr>f_updated_at := now\<rparr> else f,
       if tenant = uf_tenantId inp \<and> env = uf_environmentId inp \<and> f_key f = uf_key inp
       then map_option (updated_config inp previous) c else c))"
    by (rule ext) (simp add: split_beta)
  show ?thesis
    by (simp only: getFlag_append flags_in_write [OF assms] find_map keys option.map_comp details)
qed

lemma in_flags_in:
  assumes "(f, c) \<in> set (flags_in db tenant env)"
  shows "f \<in> set (db_flags db) \<and> f_tenant f = tenant \<and> \<not> f_archived f"
  using assms by (auto simp: flags_in_def set_left_join)

definition update_detail :: "int \<Rightarrow> update_flag_input \<Rightarrow> flag_detail \<Rightarrow> flag_detail" where
  "update_detail now inp d =
     d\<lparr>fd_enabled := or_else (uf_enabled inp) (fd_enabled d),
       fd_defaultVariationKey := or_else (uf_defaultVariationKey inp) (fd_defaultVariationKey d),
       fd_offVariationKey := or_else (uf_offVariationKey inp) (fd_offVariationKey d),
       fd_rules := nullish_else (uf_rules inp) (fd_rules d), fd_updatedAt := toISOString now\<rparr>"

definition has_config :: "database \<Rightarrow> js_string \<Rightarrow> js_string \<Rightarrow> js_string \<Rightarrow> bool" where
  "has_config db tenant env key \<longleftrightarrow>
     (\<exists>f \<in> set (db_flags db). f_tenant f = tenant \<and> f_key f = key \<and> \<not> f_archived f
        \<and> (\<exists>c \<in> set (db_configs db). c_flag c = f_id f \<and> c_environment c = env))"

lemma has_config_row:
  assumes "db_ok db" and fc: "(f, c) \<in> set (flags_in db tenant env)" "f_key f = key"
  shows "has_config db tenant env key \<longleftrightarrow> c \<noteq> None"
proof -
  note f = in_flags_in [OF fc(1)]
  have "g = f" if "g \<in> set (db_flags db)" "f_tenant g = tenant" "f_key g = key" for g
    using that f fc(2) assms(1) by (auto simp: db_ok_def keys_unique_def distinct_map inj_on_def)
  then have "has_config db tenant env key \<longleftrightarrow> (\<exists>d \<in> set (db_configs db). c_flag d = f_id f \<and> c_environment d = env)"
    using f fc(2) by (auto simp: has_config_def)
  also have "\<dots> \<longleftrightarrow> c \<noteq> None"
    using fc(1) by (auto simp: flags_in_def set_left_join split: option.splits)
  finally show ?thesis .
qed

lemma has_config_iff:
  assumes "db_ok db" "find (\<lambda>fc. f_key (fst fc) = key) (flags_in db tenant env) = Some (f, c)"
  shows "has_config db tenant env key \<longleftrightarrow> c \<noteq> None"
  using has_config_row [OF assms(1)] find_SomeD [OF assms(2)] by auto

text \<open>
  An update returns the flag as it was and changes one configuration: when the environment has a
  row for the flag, reading the flag back gives the merge of the input into what was returned; without
  a row nothing but the timestamp changes, and the update is still reported as done; every other flag,
  environment and tenant reads as before, timestamps apart.
\<close>

lemma update_changes_one_configuration:
  assumes "db_ok db" "updateFlagConfig now inp db = (Some previous, db')"
  shows "getFlag db (uf_tenantId inp) (uf_environmentId inp) (uf_key inp) = Some previous
    \<and> getFlag db' (uf_tenantId inp) (uf_environmentId inp) (uf_key inp) = Some
        (if has_config db (uf_tenantId inp) (uf_environmentId inp) (uf_key inp)
         then update_detail now inp previous else previous\<lparr>fd_updatedAt := toISOString now\<rparr>)
    \<and> (\<forall>tenant env key. tenant \<noteq> uf_tenantId inp \<or> env \<noteq> uf_environmentId inp \<or> key \<noteq> uf_key inp \<longrightarrow>
         map_option (\<lambda>d. d\<lparr>fd_updatedAt := []\<rparr>) (getFlag db' tenant env key)
           = map_option (\<lambda>d. d\<lparr>fd_updatedAt := []\<rparr>) (getFlag db tenant env key))"
proof (intro conjI allI impI)
  show before: "getFlag db (uf_tenantId inp) (uf_environmentId inp) (uf_key inp) = Some previous"
    using assms(2) by (auto simp: updateFlagConfig_def split: option.splits)
  have db': "db' = write_config now inp previous db"
    using assms(2) before by (auto simp: updateFlagConfig_def)
  obtain f c where fc: "find (\<lambda>fc. f_key (fst fc) = uf_key inp) (flags_in db (uf_tenantId inp) (uf_environmentId inp)) = Some (f, c)"
      "previous = flag_detail_of (f, c)"
    using before by (auto simp: getFlag_append)
  have key: "f_key f = uf_key inp" "f_tenant f = uf_tenantId inp"
    using find_SomeD [OF fc(1)] in_flags_in by auto
  show "getFlag db' (uf_tenantId inp) (uf_environmentId inp) (uf_key inp) = Some
      (if has_config db (uf_tenantId inp) (uf_environmentId inp) (uf_key inp)
       then update_detail now inp previous else previous\<lparr>fd_updatedAt := toISOString now\<rparr>)"
    unfolding db' getFlag_write [OF assms(1)] has_config_iff [OF assms(1) fc(1)]
    by (cases c) (simp_all add: fc key flag_detail_of_def coalesce_def update_detail_def updated_config_def)
  fix tenant env key
  assume other: "tenant \<noteq> uf_tenantId inp \<or> env \<noteq> uf_environmentId inp \<or> key \<noteq> uf_key inp"
  show "map_option (\<lambda>d. d\<lparr>fd_updatedAt := []\<rparr>) (getFlag db' tenant env key)
      = map_option (\<lambda>d. d\<lparr>fd_updatedAt := []\<rparr>) (getFlag db tenant env key)"
  proof (cases "find (\<lambda>fc. f_key (fst fc) = key) (flags_in db tenant env)")
    case (Some gd)
    obtain g d where gd: "gd = (g, d)" by fastforce
    have "f_key g = key" using find_SomeD [OF Some] gd by simp
    with other show ?thesis
      by (cases "f_tenant g = uf_tenantId inp \<and> f_key g = uf_key inp")
        (auto simp: db' getFlag_write [OF assms(1)] getFlag_append [of db] Some gd flag_detail_of_def)
  qed (simp add: db' getFlag_write [OF assms(1)] getFlag_append [of db])
qed

section \<open>Overlapping updates\<close>

lemma write_own_flag:
  assumes "db_ok db" "getFlag db (uf_tenantId inp) (uf_environmentId inp) (uf_key inp) = Some d"
    and "has_config db (uf_tenantId inp) (uf_environmentId inp) (uf_key inp)"
  shows "getFlag (write_config now inp previous db) (uf_tenantId inp) (uf_environmentId inp) (uf_key inp) = Some
    (d\<lparr>fd_enabled := or_else (uf_enabled inp) (fd_enabled previous),
       fd_defaultVariationKey := or_else (uf_defaultVariationKey inp) (fd_defaultVariationKey previous),
       fd_offVariationKey := or_else (uf_offVariationKey inp) (fd_offVariationKey previous),
       fd_rules := nullish_else (uf_rules inp) (fd_rules previous), fd_updatedAt := toISOString now\<rparr>)"
proof -
  obtain f c where fc: "find (\<lambda>fc. f_key (fst fc) = uf_key inp) (flags_in db (uf_tenantId inp) (uf_environmentId inp)) = Some (f, c)"
      "d = flag_detail_of (f, c)"
    using assms(2) by (auto simp: getFlag_append)
  have key: "f_key f = uf_key inp" "f_tenant f = uf_tenantId inp"
    using find_SomeD [OF fc(1)] in_flags_in by auto
  obtain c' where "c = Some c'" using assms(3) has_config_iff [OF assms(1) fc(1)] by auto
  then show ?thesis
    unfolding getFlag_write [OF assms(1)]
    by (simp add: fc key flag_detail_of_def coalesce_def updated_config_def)
qed

lemma update_where_keeps:
  "x \<in> set xs \<Longrightarrow> (\<And>x. g (f x) = g x) \<Longrightarrow> \<exists>y \<in> set (update_where p f xs). g y = g x"
  by (auto simp: update_where_def)

lemma has_config_write:
  assumes "db_ok db" "has_config db tenant env key"
  shows "has_config (write_config now inp previous db) tenant env key"
proof -
  from assms(2) obtain f c where f: "f \<in> set (db_flags db)" "f_tenant f = tenant" "f_key f = key" "\<not> f_archived f"
      and c: "c \<in> set (db_configs db)" "c_flag c = f_id f" "c_environment c = env"
    by (auto simp: has_config_def)
  let ?db = "write_config now inp previous db"
  have "\<exists>g \<in> set (db_flags ?db). f_id g = f_id f \<and> f_tenant g = tenant \<and> f_key g = key \<and> \<not> f_archived g"
    using update_where_keeps [OF f(1), where g = "\<lambda>f. (f_id f, f_tenant f, f_key f, f_archived f)"] f(2-4)
    by (simp add: write_config_def Let_def)
  moreover have "\<exists>d \<in> set (db_configs ?db). c_flag d = f_id f \<and> c_environment d = env"
    using update_where_keeps [OF c(1), where g = "\<lambda>c. (c_flag c, c_environment c)"] c(2,3)
    by (simp add: write_config_def Let_def)
  ultimately show ?thesis by (auto simp: has_config_def) metis
qed

text \<open>
  Updates of one flag that overlap: the second request read the flag before the first wrote it, and
  writes back what it read in every field it does not change, so that the first update is lost.
\<close>

lemma concurrent_patch_loses_update:
  assumes "db_ok db" "has_config db tenant env key" "getFlag db tenant env key = Some previous"
    and "uf_tenantId inp = tenant" "uf_environmentId inp = env" "uf_key inp = key"
    and "uf_tenantId inp' = tenant" "uf_environmentId inp' = env" "uf_key inp' = key"
    and "uf_enabled inp = Some True" "\<not> fd_enabled previous" "uf_enabled inp' = None"
  shows "case getFlag (write_config now' inp' previous (write_config now inp previous db)) tenant env key of
      None \<Rightarrow> False | Some d \<Rightarrow> \<not> fd_enabled d"
proof -
  let ?db = "write_config now inp previous db"
  have "db_ok ?db" "has_config ?db tenant env key"
    using assms(1,2) by (auto intro: write_config_ok has_config_write)
  moreover obtain d where "getFlag ?db tenant env key = Some d"
    using write_own_flag [of db inp previous] assms by simp
  ultimately show ?thesis
    using write_own_flag [of ?db inp' d now' previous] assms by (simp add: or_else_def)
qed

lemma write_unconfigured_flag:
  assumes "db_ok db" "getFlag db (uf_tenantId inp) (uf_environmentId inp) (uf_key inp) = Some d"
    and "\<not> has_config db (uf_tenantId inp) (uf_environmentId inp) (uf_key inp)"
  shows "getFlag (write_config now inp previous db) (uf_tenantId inp) (uf_environmentId inp) (uf_key inp)
    = Some (d\<lparr>fd_updatedAt := toISOString now\<rparr>)"
proof -
  obtain f c where fc: "find (\<lambda>fc. f_key (fst fc) = uf_key inp) (flags_in db (uf_tenantId inp) (uf_environmentId inp)) = Some (f, c)"
      "d = flag_detail_of (f, c)"
    using assms(2) by (auto simp: getFlag_append)
  have key: "f_key f = uf_key inp" "f_tenant f = uf_tenantId inp"
    using find_SomeD [OF fc(1)] in_flags_in by auto
  have "c = None" using assms(3) has_config_iff [OF assms(1) fc(1)] by auto
  then show ?thesis unfolding getFlag_write [OF assms(1)] by (simp add: fc key flag_detail_of_def)
qed

text \<open>
  An environment that was created after a flag has no configuration row for it: its flag reads with
  empty variation keys, no update reaches it, and it keeps every publish of the environment from
  returning, since the empty default is not a declared variation.
\<close>

lemma update_without_config_is_lost:
  assumes "db_ok db" "getFlag db tenant env key = Some previous" "\<not> has_config db tenant env key"
    and "uf_tenantId inp = tenant" "uf_environmentId inp = env" "uf_key inp = key"
  shows "getFlag (snd (updateFlagConfig now inp db)) tenant env key = Some (previous\<lparr>fd_updatedAt := toISOString now\<rparr>)
    \<and> fst (updateFlagConfig now inp db) = Some previous"
  using write_unconfigured_flag [OF assms(1), of inp previous now previous] assms
  by (simp add: updateFlagConfig_def)

section \<open>Isolation\<close>

fun action_tenant :: "store_action \<Rightarrow> js_string option" where
  "action_tenant (Publish now opts) = Some (po_tenantId opts)"
| "action_tenant (CreateFlag now i s inp) = Some (ci_tenantId inp)"
| "action_tenant (UpdateFlag now inp) = Some (uf_tenantId inp)"
| "action_tenant (InsertKey i inp) = Some (ki_tenantId inp)"
| "action_tenant (TouchKey now k) = None"
| "action_tenant (WriteAudit now entry) = Some (ae_tenantId entry)"

lemma isolated_step:
  assumes ok: "db_ok db" and other: "action_tenant a \<noteq> Some tenant"
  shows "flags_in (store_step collate sha256 stringify a db) tenant env = flags_in db tenant env
    \<and> db_segments (store_step collate sha256 stringify a db) = db_segments db
    \<and> filter (\<lambda>e. e_tenant e = tenant) (db_environments (store_step collate sha256 stringify a db))
        = filter (\<lambda>e. e_tenant e = tenant) (db_environments db)
    \<and> filter (\<lambda>r. a_tenant r = tenant) (db_audit (store_step collate sha256 stringify a db))
        = filter (\<lambda>r. a_tenant r = tenant) (db_audit db)"
proof (cases a)
  case (Publish now opts)
  obtain res db' where pub: "publishRuleset collate sha256 stringify now opts db = (res, db')" by fastforce
  from pub have "flags_in db' tenant env = flags_in db tenant env \<and> db_segments db' = db_segments db
      \<and> filter (\<lambda>e. e_tenant e = tenant) (db_environments db') = filter (\<lambda>e. e_tenant e = tenant) (db_environments db)
      \<and> db_audit db' = db_audit db"
    using other Publish
    by (cases rule: publish_cases) (auto simp: flags_in_def intro: filter_untouched)
  then show ?thesis by (simp add: Publish pub)
next
  case (CreateFlag now i s inp)
  obtain res db' where create: "createFlag now i s inp db = (res, db')" by fastforce
  from create show ?thesis
  proof (cases rule: create_cases)
    case (created f)
    have "createFlag now i s inp db = (Inr (), db')" using create created(4) by simp
    from flags_in_create [OF ok this] other CreateFlag create show ?thesis by (simp add: created(5))
  qed (simp add: CreateFlag create)
next
  case (UpdateFlag now inp)
  have "flags_in (write_config now inp previous db) tenant env = flags_in db tenant env" for previous
  proof -
    have "(case fc of (f, c) \<Rightarrow>
        (if f_tenant f = uf_tenantId inp \<and> f_key f = uf_key inp then f\<lparr>f_updated_at := now\<rparr> else f,
         if tenant = uf_tenantId inp \<and> env = uf_environmentId inp \<and> f_key f = uf_key inp
         then map_option (updated_config inp previous) c else c)) = fc"
      if "fc \<in> set (flags_in db tenant env)" for fc
    proof (cases fc)
      case (Pair f c)
      then have "f_tenant f = tenant" using that in_flags_in by blast
      then show ?thesis using other UpdateFlag Pair by auto
    qed
    then show ?thesis unfolding flags_in_write [OF ok] by (simp add: map_idI)
  qed
  then show ?thesis
    by (simp add: UpdateFlag updateFlagConfig_def write_config_def Let_def split: option.split)
next
  case (WriteAudit now entry)
  then show ?thesis using other by (simp add: writeAudit_def insert_audit_def flags_in_def)
qed (simp_all add: insertApiKey_def insert_key_row_def touchKeyUsage_def flags_in_def)

text \<open>Everything an administrator of a tenant can list.\<close>

definition tenant_view ::
    "(js_string \<Rightarrow> js_string \<Rightarrow> bool) \<Rightarrow> database \<Rightarrow> js_string \<Rightarrow> js_string \<Rightarrow> js_string \<Rightarrow> js_string option \<Rightarrow> nat option
     \<Rightarrow> flag_summary list \<times> flag_detail option \<times> (flag_row list \<times> segment_row list) \<times> segment_summary list
        \<times> environment_summary list \<times> audit_row list" where
  "tenant_view collate db tenant env key resourceKey limit' =
     (listFlags collate db tenant env, getFlag db tenant env key, loadRulesetInputs collate db tenant env,
      listSegments collate db tenant, listEnvironments collate db tenant, listAudit db tenant resourceKey limit')"

lemma listAudit_cong:
  assumes "filter (\<lambda>a. a_tenant a = tenant) (db_audit db') = filter (\<lambda>a. a_tenant a = tenant) (db_audit db)"
  shows "listAudit db' tenant resourceKey limit' = listAudit db tenant resourceKey limit'"
proof -
  have split: "filter (\<lambda>a. a_tenant a = tenant \<and> q a) xs = filter q (filter (\<lambda>a. a_tenant a = tenant) xs)" for q xs
    by (simp add: conj_commute)
  show ?thesis unfolding listAudit_def split assms by (rule refl)
qed

lemma isolated_snapshots:
  assumes ok: "db_ok db" and other: "action_tenant a \<noteq> Some tenant"
    and e: "e \<in> set (db_environments db)" "e_tenant e = tenant"
  shows "newest_snapshot (store_step collate sha256 stringify a db) (e_id e) = newest_snapshot db (e_id e)"
proof (cases a)
  case (Publish now opts)
  obtain res db' where pub: "publishRuleset collate sha256 stringify now opts db = (res, db')" by fastforce
  from pub have "newest_snapshot db' (e_id e) = newest_snapshot db (e_id e)"
  proof (cases rule: publish_cases)
    case (committed e' c entry)
    have "e_id e \<noteq> po_environmentId opts"
    proof
      assume "e_id e = po_environmentId opts"
      with committed(1,2) e(1) ok have "e = e'" by (auto simp: db_ok_def keys_unique_def distinct_map inj_on_def)
      with committed(3) e(2) other Publish show False by simp
    qed
    then show ?thesis by (simp add: newest_snapshot_def committed(5,7))
  qed simp
  then show ?thesis by (simp add: Publish pub)
qed (simp_all add: newest_snapshot_def snapshots_kept)

text \<open>
  C21: tenants are isolated: whatever an operation does for one tenant, another tenant's flags,
  segments, environments and audit entries, the inputs of its compiler and the payloads served for its
  environments are the same before and after.
\<close>

theorem tenants_are_isolated:
  assumes "db_ok db" "action_tenant a \<noteq> Some tenant"
  shows "tenant_view collate (store_step collate sha256 stringify a db) tenant env key resourceKey limit'
      = tenant_view collate db tenant env key resourceKey limit'
    \<and> (\<forall>e kind. e \<in> set (db_environments db) \<longrightarrow> e_tenant e = tenant \<longrightarrow>
         latestSnapshot (store_step collate sha256 stringify a db) (e_id e) kind = latestSnapshot db (e_id e) kind)"
proof -
  let ?db = "store_step collate sha256 stringify a db"
  note step = isolated_step [OF assms, of collate sha256 stringify env]
  have "listAudit ?db tenant resourceKey limit' = listAudit db tenant resourceKey limit'"
    using step by (intro listAudit_cong) simp
  with step isolated_snapshots [OF assms, of _ collate sha256 stringify] show ?thesis
    by (simp add: tenant_view_def listFlags_def getFlag_def loadRulesetInputs_def listSegments_def
        listEnvironments_def latestSnapshot_def)
qed

theorem tenants_are_isolated_witness:
  "tenant_view by_text (store_step by_text (\<lambda>bs. bs) (\<lambda>s. []) (Publish [] prod_of_acme) example_db) (lit ''t2'') (lit ''e2'') [] None None
     = tenant_view by_text example_db (lit ''t2'') (lit ''e2'') [] None None"
proof -
  have "action_tenant (Publish [] prod_of_acme) \<noteq> Some (lit ''t2'')" by (simp add: prod_of_acme_def)
  from tenants_are_isolated [OF example_db_ok this] show ?thesis by blast
qed

definition turn_off :: update_flag_input where
  "turn_off = \<lparr>uf_tenantId = lit ''t1'', uf_environmentId = lit ''e1'', uf_key = lit ''checkout'',
     uf_enabled = Some False, uf_defaultVariationKey = None, uf_offVariationKey = None, uf_rules = JUndefined\<rparr>"

lemma update_changes_one_configuration_witness:
  "\<exists>d. getFlag (snd (updateFlagConfig 9 turn_off example_db)) (lit ''t1'') (lit ''e1'') (lit ''checkout'') = Some d
     \<and> \<not> fd_enabled d \<and> fd_defaultVariationKey d = lit ''on''"
proof -
  have "getFlag example_db (lit ''t1'') (lit ''e1'') (lit ''checkout'') \<noteq> None"
      "has_config example_db (lit ''t1'') (lit ''e1'') (lit ''checkout'')"
    by (simp_all add: getFlag_def flags_in_def left_join_def example_db_def has_config_def)
  then obtain previous where p: "updateFlagConfig 9 turn_off example_db = (Some previous, snd (updateFlagConfig 9 turn_off example_db))"
      and get: "getFlag example_db (lit ''t1'') (lit ''e1'') (lit ''checkout'') = Some previous"
      and has: "has_config example_db (lit ''t1'') (lit ''e1'') (lit ''checkout'')"
    by (auto simp: updateFlagConfig_def turn_off_def)
  have "fd_defaultVariationKey previous = lit ''on''"
    using get by (auto simp: getFlag_def flags_in_def left_join_def example_db_def flag_detail_of_def coalesce_def)
  with update_changes_one_configuration [OF example_db_ok p] has show ?thesis
    by (simp add: turn_off_def update_detail_def or_else_def)
qed

end
