(* ===== verification/Server.thy ===== *)
theory Server
  imports Tenancy
begin

text \<open>
  The routes of \<open>apps/control-plane/src/server.ts\<close>. A request is what its handler reads: the
  authorization header, the query, and the body as the route declares its fields, an absent field being
  \<open>None\<close>. A handler answers and takes the server, its database and the writer, to the next one.
  The identifiers and random texts a handler draws, the clock, and the environment of the process are
  arguments; \<open>sc_dataPlane\<close> is the push to the data plane, which says whether the response was ok or
  throws.
\<close>

section \<open>Requests and replies\<close>

record push_message =
  pm_environment :: js_string
  pm_version :: js_number
  pm_payload :: ruleset_snapshot

record server_config =
  sc_collate :: "js_string \<Rightarrow> js_string \<Rightarrow> bool"
  sc_sha256 :: "8 word list \<Rightarrow> 8 word list"
  sc_stringify :: "ruleset_snapshot \<Rightarrow> js_string"
  sc_adminToken :: "js_string option"
  sc_date_of :: "js_string \<Rightarrow> int option"
  sc_maxInFlightRows :: nat
  sc_dataPlane :: "(push_message \<Rightarrow> bool option) option"

record server =
  sv_db :: database
  sv_writer :: "writer option"
  sv_pushes :: "push_message list"

datatype reply_body =
    NoBody
  | ErrorBody js_string
  | ProblemsBody js_string "js_string list"
  | SnapshotBody ruleset_snapshot
  | IngestBody ingest_reply
  | FlagsBody "flag_summary list"
  | PublishedBody js_number js_string bool
  | KeyBody js_string js_string KeyKind js_string
  | TenantsBody "tenant_row list"
  | EnvironmentsBody "environment_summary list"
  | SegmentsBody "segment_summary list"
  | FlagBody "flag_detail option"
  | CreatedBody js_string
  | AuditBody "audit_row list"

record http_reply =
  code :: nat
  headers :: "(js_string \<times> js_string) list"
  reply_body :: reply_body

definition reply_with :: "nat \<Rightarrow> reply_body \<Rightarrow> http_reply" where
  "reply_with n b = \<lparr>code = n, headers = [], reply_body = b\<rparr>"

text \<open>What Fastify answers when a handler throws.\<close>

definition internal_error :: http_reply where
  "internal_error = reply_with 500 (ErrorBody (lit ''Internal Server Error''))"

text \<open>\<open>!value\<close> for a text that may be missing.\<close>

definition missing :: "js_string option \<Rightarrow> bool" where
  "missing s \<longleftrightarrow> s = None \<or> s = Some []"

definition required :: "js_string option \<Rightarrow> js_string" where
  "required s = (case s of None \<Rightarrow> [] | Some t \<Rightarrow> t)"

section \<open>SDK routes\<close>

definition bearer :: js_string where "bearer = lit ''Bearer ''"

definition requireSdkKey ::
    "server_config \<Rightarrow> int \<Rightarrow> js_string option \<Rightarrow> database \<Rightarrow> authenticated_key option \<times> database" where
  "requireSdkKey cfg now header db =
     (case header of
        None \<Rightarrow> (None, db)
      | Some h \<Rightarrow>
          (if \<not> starts_with h bearer then (None, db)
           else case authenticateKey (sc_sha256 cfg) db (drop (length bearer) h) of
             None \<Rightarrow> (None, db)
           | Some scope \<Rightarrow> (Some scope, touchKeyUsage now (apiKeyId scope) db)))"

definition unauthorized_sdk :: http_reply where
  "unauthorized_sdk = reply_with 401 (ErrorBody (lit ''invalid or missing SDK key''))"

definition snapshot_route ::
    "server_config \<Rightarrow> int \<Rightarrow> js_string option \<Rightarrow> js_string option \<Rightarrow> server \<Rightarrow> http_reply \<times> server" where
  "snapshot_route cfg now header ifNoneMatch srv =
     (case requireSdkKey cfg now header (sv_db srv) of
        (None, db) \<Rightarrow> (unauthorized_sdk, srv\<lparr>sv_db := db\<rparr>)
      | (Some scope, db) \<Rightarrow>
          (case latestSnapshot db (environmentId scope) (scope_kind scope) of
             None \<Rightarrow> (reply_with 404 (ErrorBody (lit ''no ruleset published for this environment'')), srv\<lparr>sv_db := db\<rparr>)
           | Some s \<Rightarrow>
               (let hs = [(lit ''ETag'', sv_etag s), (lit ''X-Flagship-Version'', number_to_string (sv_version s)),
                          (lit ''Cache-Control'', lit ''no-cache, must-revalidate'')] in
                if ifNoneMatch = Some (sv_etag s)
                then (\<lparr>code = 304, headers = hs, reply_body = NoBody\<rparr>, srv\<lparr>sv_db := db\<rparr>)
                else (\<lparr>code = 200, headers = hs, reply_body = SnapshotBody (sv_payload s)\<rparr>, srv\<lparr>sv_db := db\<rparr>))))"

definition exposures_route ::
    "server_config \<Rightarrow> int \<Rightarrow> js_string option \<Rightarrow> js_value \<Rightarrow> server \<Rightarrow> http_reply \<times> server" where
  "exposures_route cfg now header body srv =
     (let (scope, db) = requireSdkKey cfg now header (sv_db srv);
          (r, w) = ingest_route (sc_date_of cfg) now (sc_maxInFlightRows cfg) scope body (sv_writer srv) in
      (reply_with (status r) (IngestBody r), srv\<lparr>sv_db := db, sv_writer := w\<rparr>))"

section \<open>Administration routes\<close>

definition requireAdmin :: "server_config \<Rightarrow> js_string option \<Rightarrow> bool" where
  "requireAdmin cfg header =
     (case sc_adminToken cfg of
        None \<Rightarrow> False
      | Some expected \<Rightarrow> expected \<noteq> [] \<and> header = Some (bearer @ expected))"

definition bad_request :: "js_string \<Rightarrow> http_reply" where
  "bad_request what = reply_with 400 (ErrorBody what)"

record publish_request =
  pq_tenantId :: "js_string option"
  pq_environmentId :: "js_string option"
  pq_environmentKey :: "js_string option"
  pq_actorEmail :: "js_string option"

definition push_to_data_plane :: "server_config \<Rightarrow> push_message \<Rightarrow> server \<Rightarrow> bool \<times> server" where
  "push_to_data_plane cfg msg srv =
     (case sc_dataPlane cfg of
        None \<Rightarrow> (False, srv)
      | Some send \<Rightarrow> (or_else (send msg) False, srv\<lparr>sv_pushes := sv_pushes srv @ [msg]\<rparr>))"

definition publish_route :: "server_config \<Rightarrow> int \<Rightarrow> publish_request \<Rightarrow> server \<Rightarrow> http_reply \<times> server" where
  "publish_route cfg now req srv =
     (if missing (pq_tenantId req) \<or> missing (pq_environmentId req) \<or> missing (pq_environmentKey req)
      then (bad_request (lit ''tenantId, environmentId and environmentKey are required''), srv)
      else
        let actor = or_else (pq_actorEmail req) (lit ''unknown'');
            opts = \<lparr>po_tenantId = required (pq_tenantId req), po_environmentId = required (pq_environmentId req),
              po_environmentKey = required (pq_environmentKey req), po_publishedBy = actor\<rparr> in
        (case publishRuleset (sc_collate cfg) (sc_sha256 cfg) (sc_stringify cfg) (toISOString now) opts (sv_db srv) of
           (Inl (CompileFailed (RulesetValidationError problems)), db) \<Rightarrow>
             (reply_with 422 (ProblemsBody (lit ''ruleset is invalid: '' @ join (lit ''; '') problems) problems), srv\<lparr>sv_db := db\<rparr>)
         | (Inl e, db) \<Rightarrow> (internal_error, srv\<lparr>sv_db := db\<rparr>)
         | (Inr result, db) \<Rightarrow>
             (case writeAudit now \<lparr>ae_tenantId = po_tenantId opts, ae_environmentId = Some (po_environmentId opts),
                  ae_actorId = actor, ae_actorEmail = actor, ae_action = lit ''publish'',
                  ae_resourceType = lit ''ruleset'', ae_resourceKey = po_environmentKey opts,
                  ae_previousValue = JUndefined, ae_newValue = JObj [(lit ''version'', JNum (pr_version result))]\<rparr> db of
                (Inl e, db) \<Rightarrow> (internal_error, srv\<lparr>sv_db := db\<rparr>)
              | (Inr _, db) \<Rightarrow>
                  (let (pushed, srv') = push_to_data_plane cfg
                         \<lparr>pm_environment = po_environmentKey opts, pm_version = pr_version result,
                          pm_payload = cr_server (pr_compiled result)\<rparr> (srv\<lparr>sv_db := db\<rparr>) in
                   (reply_with 200 (PublishedBody (pr_version result) (pr_etag result) pushed), srv')))))"

record api_key_request =
  kq_tenantId :: "js_string option"
  kq_environmentId :: "js_string option"
  kq_name :: "js_string option"
  kq_kind :: js_string

definition kind_of_text :: "js_string \<Rightarrow> KeyKind option" where
  "kind_of_text s = (if s = lit ''client'' then Some KindClient else if s = lit ''server'' then Some KindServer else None)"

definition api_key_route ::
    "server_config \<Rightarrow> int \<Rightarrow> js_string \<Rightarrow> 8 word list \<Rightarrow> api_key_request \<Rightarrow> server \<Rightarrow> http_reply \<times> server" where
  "api_key_route cfg now new_id randomBytes req srv =
     (if missing (kq_tenantId req) \<or> missing (kq_environmentId req) \<or> missing (kq_name req)
      then (bad_request (lit ''tenantId, environmentId and name are required''), srv)
      else case kind_of_text (kq_kind req) of
        None \<Rightarrow> (bad_request (lit ''kind must be '' @ quoted (lit ''client'') @ lit '' or '' @ quoted (lit ''server'')), srv)
      | Some kind \<Rightarrow>
          (let generated = generateApiKey (sc_sha256 cfg) randomBytes kind in
           case insertApiKey new_id \<lparr>ki_tenantId = required (kq_tenantId req),
               ki_environmentId = required (kq_environmentId req), ki_name = required (kq_name req), ki_kind = kind,
               ki_prefix = key_prefix generated, ki_hash = key_hash generated\<rparr> (sv_db srv) of
             (Inl e, db) \<Rightarrow> (internal_error, srv\<lparr>sv_db := db\<rparr>)
           | (Inr i, db) \<Rightarrow>
               (case writeAudit now \<lparr>ae_tenantId = required (kq_tenantId req),
                    ae_environmentId = Some (required (kq_environmentId req)), ae_actorId = lit ''admin'',
                    ae_actorEmail = lit ''admin'', ae_action = lit ''create'', ae_resourceType = lit ''api_key'',
                    ae_resourceKey = required (kq_name req), ae_previousValue = JUndefined,
                    ae_newValue = JObj [(lit ''kind'', JStr (kind_text kind)), (lit ''prefix'', JStr (key_prefix generated))]\<rparr> db of
                  (Inl e, db) \<Rightarrow> (internal_error, srv\<lparr>sv_db := db\<rparr>)
                | (Inr _, db) \<Rightarrow>
                    (reply_with 201 (KeyBody i (plaintext generated) kind (key_prefix generated)), srv\<lparr>sv_db := db\<rparr>))))"

text \<open>\<open>/^[a-zA-Z0-9._-]+$/\<close>\<close>

definition key_char :: "16 word \<Rightarrow> bool" where
  "key_char c \<longleftrightarrow> (0x61 \<le> c \<and> c \<le> 0x7A) \<or> (0x41 \<le> c \<and> c \<le> 0x5A) \<or> (0x30 \<le> c \<and> c \<le> 0x39)
     \<or> c = 0x2E \<or> c = 0x5F \<or> c = 0x2D"

definition valid_flag_key :: "js_string \<Rightarrow> bool" where
  "valid_flag_key k \<longleftrightarrow> k \<noteq> [] \<and> list_all key_char k"

record create_flag_request =
  cq_tenantId :: "js_string option"
  cq_key :: "js_string option"
  cq_description :: "js_string option"
  cq_variations :: "js_value list option"
  cq_defaultVariationKey :: "js_string option"
  cq_offVariationKey :: "js_string option"

definition default_variations :: "js_value list" where
  "default_variations =
     [JObj [(lit ''key'', JStr (lit ''on'')), (lit ''value'', JBool True)],
      JObj [(lit ''key'', JStr (lit ''off'')), (lit ''value'', JBool False)]]"

definition create_flag_route ::
    "server_config \<Rightarrow> int \<Rightarrow> js_string \<Rightarrow> js_string \<Rightarrow> create_flag_request \<Rightarrow> server \<Rightarrow> http_reply \<times> server" where
  "create_flag_route cfg now new_id new_salt req srv =
     (if missing (cq_tenantId req) \<or> missing (cq_key req) then (bad_request (lit ''tenantId and key are required''), srv)
      else if \<not> valid_flag_key (required (cq_key req))
      then (bad_request (lit ''key may contain only letters, digits, . _ and -''), srv)
      else
        let vs = or_else (cq_variations req) default_variations;
            variationKeys = map (\<lambda>v. get_prop v (lit ''key'')) vs;
            default' = or_else (cq_defaultVariationKey req) (lit ''off'');
            off' = or_else (cq_offVariationKey req) (lit ''off'') in
        if JStr default' \<notin> set variationKeys \<or> JStr off' \<notin> set variationKeys
        then (bad_request (lit ''defaultVariationKey and offVariationKey must be declared variations''), srv)
        else
          (case createFlag now new_id new_salt \<lparr>ci_tenantId = required (cq_tenantId req), ci_key = required (cq_key req),
               ci_description = or_else (cq_description req) [], ci_variations = vs,
               ci_defaultVariationKey = default', ci_offVariationKey = off'\<rparr> (sv_db srv) of
             (Inl UniqueViolation, db) \<Rightarrow>
               (reply_with 409 (ErrorBody (lit ''flag '' @ quoted (required (cq_key req)) @ lit '' already exists'')), srv\<lparr>sv_db := db\<rparr>)
           | (Inl e, db) \<Rightarrow> (internal_error, srv\<lparr>sv_db := db\<rparr>)
           | (Inr _, db) \<Rightarrow>
               (case writeAudit now \<lparr>ae_tenantId = required (cq_tenantId req), ae_environmentId = None,
                    ae_actorId = lit ''admin'', ae_actorEmail = lit ''admin'', ae_action = lit ''create'',
                    ae_resourceType = lit ''flag'', ae_resourceKey = required (cq_key req), ae_previousValue = JUndefined,
                    ae_newValue = JObj [(lit ''variations'', JArr vs), (lit ''defaultVariationKey'', JStr default'),
                                        (lit ''offVariationKey'', JStr off')]\<rparr> db of
                  (Inl e, db) \<Rightarrow> (internal_error, srv\<lparr>sv_db := db\<rparr>)
                | (Inr _, db) \<Rightarrow> (reply_with 201 (CreatedBody (required (cq_key req))), srv\<lparr>sv_db := db\<rparr>))))"

record patch_flag_request =
  uq_tenantId :: "js_string option"
  uq_environmentId :: "js_string option"
  uq_enabled :: "bool option"
  uq_defaultVariationKey :: "js_string option"
  uq_offVariationKey :: "js_string option"
  uq_rules :: js_value

definition patch_flag_route ::
    "server_config \<Rightarrow> int \<Rightarrow> js_string \<Rightarrow> patch_flag_request \<Rightarrow> server \<Rightarrow> http_reply \<times> server" where
  "patch_flag_route cfg now key req srv =
     (if missing (uq_tenantId req) \<or> missing (uq_environmentId req)
      then (bad_request (lit ''tenantId and environmentId are required''), srv)
      else
        let tenant = required (uq_tenantId req); env = required (uq_environmentId req) in
        (case updateFlagConfig now \<lparr>uf_tenantId = tenant, uf_environmentId = env, uf_key = key,
             uf_enabled = uq_enabled req, uf_defaultVariationKey = uq_defaultVariationKey req,
             uf_offVariationKey = uq_offVariationKey req, uf_rules = uq_rules req\<rparr> (sv_db srv) of
           (None, db) \<Rightarrow> (reply_with 404 (ErrorBody (lit ''flag not found'')), srv\<lparr>sv_db := db\<rparr>)
         | (Some previous, db) \<Rightarrow>
             (case writeAudit now \<lparr>ae_tenantId = tenant, ae_environmentId = Some env, ae_actorId = lit ''admin'',
                  ae_actorEmail = lit ''admin'', ae_action = lit ''update'', ae_resourceType = lit ''flag'',
                  ae_resourceKey = key,
                  ae_previousValue = JObj [(lit ''enabled'', JBool (fd_enabled previous)), (lit ''rules'', fd_rules previous)],
                  ae_newValue = JObj [(lit ''enabled'', JBool (or_else (uq_enabled req) (fd_enabled previous))),
                                      (lit ''rules'', nullish_else (uq_rules req) (fd_rules previous))]\<rparr> db of
                (Inl e, db) \<Rightarrow> (internal_error, srv\<lparr>sv_db := db\<rparr>)
              | (Inr _, db) \<Rightarrow> (reply_with 200 (FlagBody (getFlag db tenant env key)), srv\<lparr>sv_db := db\<rparr>))))"

datatype admin_request =
    ListFlags "js_string option" "js_string option"
  | PublishRequest publish_request
  | ApiKeyRequest js_string "8 word list" api_key_request
  | ListTenants
  | ListEnvironments "js_string option"
  | ListSegments "js_string option"
  | GetFlag js_string "js_string option" "js_string option"
  | CreateFlagRequest js_string js_string create_flag_request
  | PatchFlagRequest js_string patch_flag_request
  | ListAudit "js_string option" "js_string option"

text \<open>The handlers of the administration routes, each behind the same check.\<close>

fun admin_handler :: "server_config \<Rightarrow> int \<Rightarrow> admin_request \<Rightarrow> server \<Rightarrow> http_reply \<times> server" where
  "admin_handler cfg now (ListFlags tenant env) srv =
     (if missing tenant \<or> missing env then (bad_request (lit ''tenantId and environmentId are required''), srv)
      else (reply_with 200 (FlagsBody (listFlags (sc_collate cfg) (sv_db srv) (required tenant) (required env))), srv))"
| "admin_handler cfg now (PublishRequest req) srv = publish_route cfg now req srv"
| "admin_handler cfg now (ApiKeyRequest i bs req) srv = api_key_route cfg now i bs req srv"
| "admin_handler cfg now ListTenants srv = (reply_with 200 (TenantsBody (listTenants (sc_collate cfg) (sv_db srv))), srv)"
| "admin_handler cfg now (ListEnvironments tenant) srv =
     (if missing tenant then (bad_request (lit ''tenantId is required''), srv)
      else (reply_with 200 (EnvironmentsBody (listEnvironments (sc_collate cfg) (sv_db srv) (required tenant))), srv))"
| "admin_handler cfg now (ListSegments tenant) srv =
     (if missing tenant then (bad_request (lit ''tenantId is required''), srv)
      else (reply_with 200 (SegmentsBody (listSegments (sc_collate cfg) (sv_db srv) (required tenant))), srv))"
| "admin_handler cfg now (GetFlag key tenant env) srv =
     (if missing tenant \<or> missing env then (bad_request (lit ''tenantId and environmentId are required''), srv)
      else case getFlag (sv_db srv) (required tenant) (required env) key of
        None \<Rightarrow> (reply_with 404 (ErrorBody (lit ''flag not found'')), srv)
      | Some d \<Rightarrow> (reply_with 200 (FlagBody (Some d)), srv))"
| "admin_handler cfg now (CreateFlagRequest i s req) srv = create_flag_route cfg now i s req srv"
| "admin_handler cfg now (PatchFlagRequest key req) srv = patch_flag_route cfg now key req srv"
| "admin_handler cfg now (ListAudit tenant resourceKey) srv =
     (if missing tenant then (bad_request (lit ''tenantId is required''), srv)
      else (reply_with 200 (AuditBody (listAudit (sv_db srv) (required tenant)
              (if missing resourceKey then None else resourceKey) None)), srv))"

definition admin_route ::
    "server_config \<Rightarrow> int \<Rightarrow> js_string option \<Rightarrow> admin_request \<Rightarrow> server \<Rightarrow> http_reply \<times> server" where
  "admin_route cfg now header req srv =
     (if \<not> requireAdmin cfg header then (reply_with 401 (ErrorBody (lit ''unauthorized'')), srv)
      else admin_handler cfg now req srv)"

text \<open>A request to the server, with the instant at which it is served.\<close>

datatype request =
    Healthz
  | SnapshotRequest "js_string option" "js_string option"
  | ExposuresRequest "js_string option" js_value
  | AdminRequest "js_string option" admin_request

fun handle :: "server_config \<Rightarrow> int \<times> request \<Rightarrow> server \<Rightarrow> http_reply \<times> server" where
  "handle cfg (now, Healthz) srv = (reply_with 200 NoBody, srv)"
| "handle cfg (now, SnapshotRequest header ifNoneMatch) srv = snapshot_route cfg now header ifNoneMatch srv"
| "handle cfg (now, ExposuresRequest header body) srv = exposures_route cfg now header body srv"
| "handle cfg (now, AdminRequest header req) srv = admin_route cfg now header req srv"

definition handle_all :: "server_config \<Rightarrow> (int \<times> request) list \<Rightarrow> server \<Rightarrow> server" where
  "handle_all cfg reqs srv = fold (\<lambda>r srv. snd (handle cfg r srv)) reqs srv"

end
