(* ===== verification/Service.thy ===== *)
theory Service
  imports Server
begin

text \<open>
  What the service promises from end to end, over any requests: the payloads that keys receive, the
  meaning of conditional requests, the admin check, keys that work, and flag keys that keep bucketing
  unambiguous.
\<close>

section \<open>Handlers keep the invariant of the database\<close>

lemma requireSdkKey_ok: "db_ok db \<Longrightarrow> requireSdkKey cfg now header db = (scope, db') \<Longrightarrow> db_ok db'"
  by (auto simp: requireSdkKey_def touch_ok split: option.splits if_splits)

lemma audit_ok_snd [simp]: "db_ok db \<Longrightarrow> db_ok (snd (writeAudit now entry db))"
  by (metis audit_ok prod.collapse)

lemma publish_route_ok:
  assumes "db_ok (sv_db srv)" shows "db_ok (sv_db (snd (publish_route cfg now req srv)))"
proof -
  obtain res db where pub: "publishRuleset (sc_collate cfg) (sc_sha256 cfg) (sc_stringify cfg) (toISOString now)
      \<lparr>po_tenantId = required (pq_tenantId req), po_environmentId = required (pq_environmentId req),
       po_environmentKey = required (pq_environmentKey req),
       po_publishedBy = or_else (pq_actorEmail req) (lit ''unknown'')\<rparr> (sv_db srv) = (res, db)" by fastforce
  have "db_ok db" using assms pub by (rule publish_ok)
  moreover have "sv_db (snd (push_to_data_plane cfg msg srv')) = sv_db srv'" for msg srv'
    by (simp add: push_to_data_plane_def split: option.split)
  ultimately show ?thesis using assms
    by (auto simp: publish_route_def pub Let_def split_beta
        split: sum.split db_error.split compile_error.split prod.split dest: audit_ok)
qed

lemma api_key_route_ok:
  assumes "db_ok (sv_db srv)" shows "db_ok (sv_db (snd (api_key_route cfg now i bs req srv)))"
  using assms by (auto simp: api_key_route_def Let_def split: sum.split prod.split option.split
      dest: audit_ok insert_key_ok)

lemma create_flag_route_ok:
  assumes "db_ok (sv_db srv)" shows "db_ok (sv_db (snd (create_flag_route cfg now i s req srv)))"
  using assms by (auto simp: create_flag_route_def Let_def split: sum.split prod.split db_error.split
      dest: audit_ok create_ok)

lemma patch_flag_route_ok:
  assumes "db_ok (sv_db srv)" shows "db_ok (sv_db (snd (patch_flag_route cfg now key req srv)))"
  using assms by (auto simp: patch_flag_route_def Let_def split: sum.split prod.split option.split
      dest: audit_ok update_ok)

lemma admin_handler_ok:
  "db_ok (sv_db srv) \<Longrightarrow> db_ok (sv_db (snd (admin_handler cfg now req srv)))"
  by (cases req) (auto simp: publish_route_ok api_key_route_ok create_flag_route_ok patch_flag_route_ok split: option.split)

lemma handle_ok: "db_ok (sv_db srv) \<Longrightarrow> db_ok (sv_db (snd (handle cfg r srv)))"
proof (cases "(cfg, r, srv)" rule: handle.cases)
  case (2 cfg' now header ifNoneMatch srv')
  assume ok: "db_ok (sv_db srv)"
  obtain scope db where a: "requireSdkKey cfg now header (sv_db srv) = (scope, db)" by fastforce
  with ok have "db_ok db" by (auto intro: requireSdkKey_ok)
  then show ?thesis using 2 a by (simp add: snapshot_route_def Let_def split: option.split)
next
  case (3 cfg' now header body srv')
  assume ok: "db_ok (sv_db srv)"
  obtain scope db where a: "requireSdkKey cfg now header (sv_db srv) = (scope, db)" by fastforce
  with ok have "db_ok db" by (auto intro: requireSdkKey_ok)
  then show ?thesis using 3 a by (simp add: exposures_route_def split_beta)
next
  case (4 cfg' now header req srv')
  assume "db_ok (sv_db srv)"
  then show ?thesis using 4 by (simp add: admin_route_def admin_handler_ok)
qed simp

lemma handle_all_ok: "db_ok (sv_db srv) \<Longrightarrow> db_ok (sv_db (handle_all cfg reqs srv))"
  by (induction reqs arbitrary: srv) (simp_all add: handle_all_def handle_ok)

section \<open>What an SDK key receives\<close>

lemma authenticate_SomeD:
  assumes "authenticateKey sha256 db text = Some scope"
  shows "\<exists>k \<in> set (db_api_keys db). \<exists>e \<in> set (db_environments db). \<not> k_revoked k \<and> e_id e = k_environment k
    \<and> verifyApiKey sha256 text (k_hash k) \<and> scope = scope_of (k, e)"
  using assms by (auto simp: authenticateKey_def set_inner_join dest!: find_SomeD split: if_splits) blast

lemma newest_touch [simp]: "newest_snapshot (touchKeyUsage now k db) env = newest_snapshot db env"
  by (simp add: newest_snapshot_def touchKeyUsage_def)

text \<open>Every payload that is stored evaluates without error and, for clients, without leak.\<close>

lemma stored_payload_safe:
  assumes "db_ok db" "newest_snapshot db env = Some n" "payload \<in> {n_server n, n_client n}" "f \<in> set (flags payload)"
  shows "\<not> is_error (reason (evaluateFlag regex (fkey f) ctx (indexSnapshot payload) fallback))"
proof -
  from newest_SomeD [OF assms(2)] assms(1) obtain now envKey frows srows where
      c: "compileRuleset now envKey (number_of_nat (n_version n)) frows srows None
        = Inr \<lparr>cr_server = n_server n, cr_client = n_client n\<rparr>"
    by (auto simp: db_ok_def snapshots_compiled_def)
  note acc = compile_accepted [OF c, simplified]
  have "fkey ` set (flags payload) \<subseteq> row_key ` set frows"
    using assms(3) acc(2,6) by (auto simp: filterSnapshot_simps)
  with assms(4) have "fkey f \<in> row_key ` set frows" by blast
  from accepted_evaluates [OF c this] assms(3) show ?thesis by auto
qed

lemma stored_client_safe:
  assumes "db_ok db" "newest_snapshot db env = Some n"
  shows "findServerOnlyLeaks (n_client n) = []"
proof -
  from newest_SomeD [OF assms(2)] assms(1) obtain now envKey frows srows where
      "compileRuleset now envKey (number_of_nat (n_version n)) frows srows None
        = Inr \<lparr>cr_server = n_server n, cr_client = n_client n\<rparr>"
    by (auto simp: db_ok_def snapshots_compiled_def)
  from compile_no_leaks [OF this] show ?thesis by simp
qed

text \<open>
  C18: what the snapshot route hands out, after any requests to the server, is the last published
  payload of the environment of a key that is not revoked and whose hash the caller's text has; a
  client key gets the client payload, in which there is no server-only material; and in what is handed
  out no flag, for no context, evaluates to an error.
\<close>

theorem snapshot_route_is_safe:
  assumes "db_ok (sv_db srv0)" "srv = handle_all cfg reqs srv0"
    and "fst (snapshot_route cfg now header ifNoneMatch srv) = reply" "code reply = 200"
  shows "\<exists>text k v c payload. header = Some (bearer @ text) \<and> k \<in> set (db_api_keys (sv_db srv)) \<and> \<not> k_revoked k
    \<and> verifyApiKey (sc_sha256 cfg) text (k_hash k)
    \<and> published (sv_db srv) (k_environment k) = Some (v, c)
    \<and> reply_body reply = SnapshotBody payload
    \<and> payload = (if k_kind k = KindClient then cr_client c else cr_server c)
    \<and> (k_kind k = KindClient \<longrightarrow> findServerOnlyLeaks payload = [])
    \<and> (\<forall>f \<in> set (flags payload). \<not> is_error (reason (evaluateFlag regex (fkey f) ctx (indexSnapshot payload) fallback)))"
proof -
  have ok: "db_ok (sv_db srv)" using assms(1,2) by (simp add: handle_all_ok)
  from assms(3,4) obtain h scope where h: "header = Some h" "starts_with h bearer"
      "authenticateKey (sc_sha256 cfg) (sv_db srv) (drop (length bearer) h) = Some scope"
      and served: "code (fst (snapshot_route cfg now header ifNoneMatch srv)) = 200"
    by (auto simp: snapshot_route_def requireSdkKey_def unauthorized_sdk_def reply_with_def split: option.splits if_splits)
  obtain k e where k: "k \<in> set (db_api_keys (sv_db srv))" "\<not> k_revoked k"
      "verifyApiKey (sc_sha256 cfg) (drop (length bearer) h) (k_hash k)" "scope = scope_of (k, e)"
    using authenticate_SomeD [OF h(3)] by blast
  have scope: "environmentId scope = k_environment k" "scope_kind scope = k_kind k" "apiKeyId scope = k_id k"
    using k(4) by (simp_all add: scope_of_def)
  obtain n where n: "newest_snapshot (sv_db srv) (k_environment k) = Some n"
    using served h scope
    by (cases "newest_snapshot (sv_db srv) (k_environment k)")
      (auto simp: snapshot_route_def requireSdkKey_def reply_with_def latestSnapshot_def)
  let ?payload = "if k_kind k = KindClient then n_client n else n_server n"
  have body: "reply_body reply = SnapshotBody ?payload"
    using assms(3) served h scope n
    by (auto simp: snapshot_route_def requireSdkKey_def latestSnapshot_def Let_def split: if_splits)
  have "published (sv_db srv) (k_environment k) = Some (n_version n, \<lparr>cr_server = n_server n, cr_client = n_client n\<rparr>)"
    by (simp add: published_def n)
  moreover have "header = Some (bearer @ drop (length bearer) h)"
    using h(1,2) by (auto simp: starts_with_iff)
  moreover have "\<forall>f \<in> set (flags ?payload). \<not> is_error (reason (evaluateFlag regex (fkey f) ctx (indexSnapshot ?payload) fallback))"
    using stored_payload_safe [OF ok n, of ?payload] by simp
  moreover have "k_kind k = KindClient \<longrightarrow> findServerOnlyLeaks ?payload = []"
    using stored_client_safe [OF ok n] by simp
  ultimately show ?thesis using k(1-3) body
    by (intro exI [of _ "drop (length bearer) h"] exI [of _ k] exI [of _ "n_version n"]
        exI [of _ "\<lparr>cr_server = n_server n, cr_client = n_client n\<rparr>"] exI [of _ ?payload]) simp
qed

section \<open>Conditional requests\<close>

lemma publish_snapshots:
  "set (db_snapshots db) \<subseteq> set (db_snapshots (snd (publishRuleset collate sha256 stringify now opts db)))"
proof -
  obtain res db' where pub: "publishRuleset collate sha256 stringify now opts db = (res, db')" by fastforce
  from pub have "set (db_snapshots db) \<subseteq> set (db_snapshots db')" by (cases rule: publish_cases) auto
  then show ?thesis by (simp add: pub)
qed

lemma route_snapshots:
  "set (db_snapshots (sv_db srv)) \<subseteq> set (db_snapshots (sv_db (snd (publish_route cfg now preq srv))))"
  "db_snapshots (sv_db (snd (api_key_route cfg now i bs kreq srv))) = db_snapshots (sv_db srv)"
  "db_snapshots (sv_db (snd (create_flag_route cfg now i s creq srv))) = db_snapshots (sv_db srv)"
  "db_snapshots (sv_db (snd (patch_flag_route cfg now key ureq srv))) = db_snapshots (sv_db srv)"
proof -
  let ?pub = "publishRuleset (sc_collate cfg) (sc_sha256 cfg) (sc_stringify cfg) (toISOString now)
      \<lparr>po_tenantId = required (pq_tenantId preq), po_environmentId = required (pq_environmentId preq),
       po_environmentKey = required (pq_environmentKey preq),
       po_publishedBy = or_else (pq_actorEmail preq) (lit ''unknown'')\<rparr> (sv_db srv)"
  have push: "sv_db (snd (push_to_data_plane cfg msg srv')) = sv_db srv'" for msg srv'
    by (simp add: push_to_data_plane_def split: option.split)
  have "db_snapshots (sv_db (snd (publish_route cfg now preq srv))) \<in> {db_snapshots (sv_db srv), db_snapshots (snd ?pub)}"
    by (cases ?pub) (simp add: publish_route_def Let_def split_beta push snapshots_kept
      split: sum.split db_error.split compile_error.split)
  with publish_snapshots show "set (db_snapshots (sv_db srv)) \<subseteq> set (db_snapshots (sv_db (snd (publish_route cfg now preq srv))))"
    by fastforce
qed (simp_all add: api_key_route_def create_flag_route_def patch_flag_route_def Let_def split_beta snapshots_kept
    split: sum.split db_error.split option.split)

lemma handle_snapshots: "set (db_snapshots (sv_db srv)) \<subseteq> set (db_snapshots (sv_db (snd (handle cfg r srv))))"
proof (cases "(cfg, r, srv)" rule: handle.cases)
  case (2 cfg' now header ifNoneMatch srv')
  obtain scope db where a: "requireSdkKey cfg now header (sv_db srv) = (scope, db)" by fastforce
  then have "db_snapshots db = db_snapshots (sv_db srv)"
    by (auto simp: requireSdkKey_def snapshots_kept split: option.splits if_splits)
  then show ?thesis using 2 a by (simp add: snapshot_route_def Let_def split: option.split)
next
  case (3 cfg' now header body srv')
  obtain scope db where a: "requireSdkKey cfg now header (sv_db srv) = (scope, db)" by fastforce
  then have "db_snapshots db = db_snapshots (sv_db srv)"
    by (auto simp: requireSdkKey_def snapshots_kept split: option.splits if_splits)
  then show ?thesis using 3 a by (simp add: exposures_route_def split_beta)
next
  case (4 cfg' now header req srv')
  then show ?thesis
    by (cases req) (simp_all add: admin_route_def route_snapshots split: option.split)
qed simp

lemma handle_all_snapshots:
  "set (db_snapshots (sv_db srv)) \<subseteq> set (db_snapshots (sv_db (handle_all cfg reqs srv)))"
proof (induction reqs arbitrary: srv)
  case (Cons r reqs)
  from handle_snapshots [of srv cfg r] Cons [of "snd (handle cfg r srv)"] show ?case
    by (auto simp: handle_all_def)
qed (simp add: handle_all_def)

lemma etag_inj:
  "quoted (kind_text k @ lit ''-'' @ s) = quoted (kind_text k' @ lit ''-'' @ t) \<longleftrightarrow> k = k' \<and> s = t"
  by (cases k; cases k') (auto simp: quoted_def kind_text_def lit_def)

text \<open>What a snapshot reply with an \<open>ETag\<close> comes from.\<close>

lemma snapshot_route_etag:
  assumes "db_ok (sv_db srv)" "fst (snapshot_route cfg now header ifNoneMatch srv) = reply" "code reply \<in> {200, 304}"
  shows "\<exists>n \<in> set (db_snapshots (sv_db srv)). \<exists>kind.
      map_of (headers reply) (lit ''ETag'') = Some (quoted (kind_text kind @ lit ''-'' @ n_etag n))
      \<and> (code reply = 304 \<longrightarrow> ifNoneMatch = Some (quoted (kind_text kind @ lit ''-'' @ n_etag n)))
      \<and> (code reply = 200 \<longrightarrow> reply_body reply = SnapshotBody (filterSnapshotForKey (n_server n) kind))
      \<and> fst (snapshot_route cfg now header None srv)
          = \<lparr>code = 200, headers = headers reply, reply_body = SnapshotBody (filterSnapshotForKey (n_server n) kind)\<rparr>"
proof -
  obtain scope db where a: "requireSdkKey cfg now header (sv_db srv) = (Some scope, db)"
    using assms(2,3) by (auto simp: snapshot_route_def unauthorized_sdk_def reply_with_def split: prod.splits option.splits)
  have "newest_snapshot db = newest_snapshot (sv_db srv)"
    using a by (auto simp: requireSdkKey_def fun_eq_iff split: option.splits if_splits)
  then obtain n where n: "newest_snapshot (sv_db srv) (environmentId scope) = Some n"
      "newest_snapshot db (environmentId scope) = Some n"
    using assms(2,3) a by (cases "newest_snapshot (sv_db srv) (environmentId scope)")
      (auto simp: snapshot_route_def reply_with_def latestSnapshot_def)
  have mem: "n \<in> set (db_snapshots (sv_db srv))" using newest_SomeD [OF n(1)] by blast
  with assms(1) obtain now' envKey frows srows where
      "compileRuleset now' envKey (number_of_nat (n_version n)) frows srows None
        = Inr \<lparr>cr_server = n_server n, cr_client = n_client n\<rparr>"
    by (auto simp: db_ok_def snapshots_compiled_def)
  from compile_accepted(6) [OF this] have "(if scope_kind scope = KindClient then n_client n else n_server n)
      = filterSnapshotForKey (n_server n) (scope_kind scope)"
    by (cases "scope_kind scope") (simp_all add: filterSnapshotForKey_def)
  then show ?thesis using assms(2,3) a n(2) mem
    by (intro bexI [OF _ mem] exI [of _ "scope_kind scope"])
      (auto simp: snapshot_route_def latestSnapshot_def Let_def split: if_splits)
qed
text \<open>
  C23: a conditional request is answered 304 only by what the caller already holds: when a reply gave
  the payload with its \<open>ETag\<close>, and later, after any requests and with any key, that tag is answered
  304, then the full answer would have been the same payload. The hypothesis is that the digests of
  the stored rulesets do not collide.
\<close>

theorem not_modified_means_unchanged:
  assumes "db_ok (sv_db srv0)" "srv1 = handle_all cfg reqs srv0"
    and "\<forall>m \<in> set (db_snapshots (sv_db srv1)). \<forall>n \<in> set (db_snapshots (sv_db srv1)). n_etag m = n_etag n \<longrightarrow> n_server m = n_server n"
    and "fst (snapshot_route cfg now0 header0 ifNoneMatch srv0) = reply0" "code reply0 = 200"
      "map_of (headers reply0) (lit ''ETag'') = Some tag" "reply_body reply0 = SnapshotBody payload"
    and "code (fst (snapshot_route cfg now1 header1 (Some tag) srv1)) = 304"
  shows "reply_body (fst (snapshot_route cfg now1 header1 None srv1)) = SnapshotBody payload"
proof -
  obtain m kind where m: "m \<in> set (db_snapshots (sv_db srv0))" "tag = quoted (kind_text kind @ lit ''-'' @ n_etag m)"
      "payload = filterSnapshotForKey (n_server m) kind"
    using snapshot_route_etag [OF assms(1,4)] assms(5-7) by auto
  have "db_ok (sv_db srv1)" using assms(1,2) by (simp add: handle_all_ok)
  from snapshot_route_etag [OF this refl] assms(8) obtain n kind' where n: "n \<in> set (db_snapshots (sv_db srv1))"
      "tag = quoted (kind_text kind' @ lit ''-'' @ n_etag n)"
      "reply_body (fst (snapshot_route cfg now1 header1 None srv1)) = SnapshotBody (filterSnapshotForKey (n_server n) kind')"
    by fastforce
  have "m \<in> set (db_snapshots (sv_db srv1))" using m(1) handle_all_snapshots assms(2) by blast
  moreover have "kind' = kind \<and> n_etag n = n_etag m" using m(2) n(2) etag_inj by metis
  ultimately show ?thesis using assms(3) m(3) n(1,3) by metis
qed

section \<open>Administration\<close>

lemma unauthorized_state: "\<not> requireAdmin cfg header \<Longrightarrow> snd (admin_route cfg now header req srv) = srv"
  by (simp add: admin_route_def)

text \<open>
  Without the admin token no administration request does anything: it is answered 401 and changes
  neither the database nor the writer nor what is pushed to the data plane; and when the process has no
  token, or an empty one, that is every request.
\<close>

lemma admin_routes_need_the_token:
  assumes "case sc_adminToken cfg of None \<Rightarrow> True | Some t \<Rightarrow> t = [] \<or> header \<noteq> Some (bearer @ t)"
  shows "admin_route cfg now header req srv = (reply_with 401 (ErrorBody (lit ''unauthorized'')), srv)"
  using assms by (auto simp: admin_route_def requireAdmin_def split: option.splits)

section \<open>Keys that the server hands out\<close>

lemma authenticate_inserted:
  assumes "e \<in> set (db_environments db)" "distinct (map e_id (db_environments db))" "k_environment k = e_id e"
    and "8 \<le> length (keyPrefix text)" "k_prefix k = keyPrefix text" "\<not> k_revoked k" "verifyApiKey sha256 text (k_hash k)"
    and "\<forall>k' \<in> set ks. \<not> verifyApiKey sha256 text (k_hash k')"
  shows "find (\<lambda>(k, e). verifyApiKey sha256 text (k_hash k))
    (inner_join (\<lambda>k e. e_id e = k_environment k)
      (filter (\<lambda>k. k_prefix k = keyPrefix text \<and> \<not> k_revoked k) (ks @ [k])) (db_environments db)) = Some (k, e)"
proof -
  let ?join = "inner_join (\<lambda>k e. e_id e = k_environment k)"
  have app: "?join (xs @ ys) es = ?join xs es @ ?join ys es" for xs ys :: "api_key_entry list" and es :: "environment_row list"
    by (simp add: inner_join_def)
  have "find (\<lambda>(k, e). verifyApiKey sha256 text (k_hash k))
      (?join (filter (\<lambda>k. k_prefix k = keyPrefix text \<and> \<not> k_revoked k) ks) (db_environments db)) = None"
    using assms(8) by (auto simp: find_None_iff set_inner_join)
  moreover have "filter (\<lambda>e. e_id e = k_environment k) (db_environments db) = [e]"
  proof -
    have "e \<in> set es \<Longrightarrow> distinct (map e_id es) \<Longrightarrow> filter (\<lambda>x. e_id x = e_id e) es = [e]" for es
      by (induction es) (auto simp: filter_empty_conv rev_image_eqI)
    then show ?thesis using assms(1-3) by simp
  qed
  ultimately show ?thesis
    using assms(4-7) by (simp add: app find_append) (simp add: inner_join_def find_append)
qed

text \<open>
  C22: a key that the server hands out works, and for what it was asked for: after a creation that is
  answered 201 the plaintext of the answer resolves to the tenant, environment and kind of the
  request and to the id of the answer, whatever else is stored, unless a stored hash happens to be
  that of the new key.
\<close>

theorem created_key_authenticates:
  assumes "db_ok (sv_db srv)" "api_key_route cfg now i randomBytes req srv = (reply, srv')"
    and "reply_body reply = KeyBody new_id text kind prefix"
    and "\<forall>k \<in> set (db_api_keys (sv_db srv)). \<not> verifyApiKey (sc_sha256 cfg) text (k_hash k)"
  shows "\<exists>e \<in> set (db_environments (sv_db srv)). e_id e = required (kq_environmentId req)
    \<and> kind_of_text (kq_kind req) = Some kind
    \<and> authenticateKey (sc_sha256 cfg) (sv_db srv') text = Some
        \<lparr>tenantId = required (kq_tenantId req), environmentId = required (kq_environmentId req),
         scope_environmentKey = e_key e, scope_kind = kind, apiKeyId = new_id\<rparr>"
proof -
  obtain knd where knd: "kind_of_text (kq_kind req) = Some knd"
    using assms(2,3) by (auto simp: api_key_route_def bad_request_def reply_with_def split: if_splits option.splits)
  let ?g = "generateApiKey (sc_sha256 cfg) randomBytes knd"
  let ?k = "\<lparr>k_id = i, k_tenant = required (kq_tenantId req), k_environment = required (kq_environmentId req),
     k_name = required (kq_name req), k_kind = knd, k_prefix = key_prefix ?g, k_hash = key_hash ?g,
     k_last_used = None, k_revoked = False\<rparr>"
  have made: "new_id = i \<and> text = plaintext ?g \<and> kind = knd
      \<and> db_api_keys (sv_db srv') = db_api_keys (sv_db srv) @ [?k]
      \<and> db_environments (sv_db srv') = db_environments (sv_db srv)
      \<and> environment_exists (sv_db srv) (required (kq_environmentId req))"
    using assms(2,3) knd
    by (auto simp: api_key_route_def Let_def bad_request_def reply_with_def internal_error_def insertApiKey_def
        insert_key_row_def writeAudit_def insert_audit_def split: if_splits)
  then obtain e where e: "e \<in> set (db_environments (sv_db srv))" "e_id e = required (kq_environmentId req)"
    by (auto simp: environment_exists_def)
  have key: "8 \<le> length (keyPrefix (plaintext ?g))" "key_prefix ?g = keyPrefix (plaintext ?g)"
      "verifyApiKey (sc_sha256 cfg) (plaintext ?g) (key_hash ?g)"
    by (simp_all add: generateApiKey_def Let_def keyPrefix_def PREFIX_LENGTH_def label_def lit_def verifyApiKey_iff
        hashApiKey_def hex_roundtrip)
  have "distinct (map e_id (db_environments (sv_db srv)))" using assms(1) by (simp add: db_ok_def keys_unique_def)
  from authenticate_inserted [OF e(1) this, of ?k "plaintext ?g" "sc_sha256 cfg" "db_api_keys (sv_db srv)"] key e(2) made assms(4)
  have "authenticateKey (sc_sha256 cfg) (sv_db srv') text = Some (scope_of (?k, e))"
    by (simp add: authenticateKey_def)
  with e knd made show ?thesis by (auto simp: scope_of_def)
qed

section \<open>Flag keys and bucketing\<close>

definition colon :: "16 word" where "colon = of_char CHR '':''"

text \<open>The keys and salts that the bucketing inputs of the flags are made of.\<close>

definition bucket_parts :: "database \<Rightarrow> (js_string \<times> js_string) list" where
  "bucket_parts db = map (\<lambda>f. (f_key f, f_salt f)) (db_flags db)"

definition separable :: "database \<Rightarrow> bool" where
  "separable db \<longleftrightarrow> (\<forall>(k, s) \<in> set (bucket_parts db). colon \<notin> set k \<and> colon \<notin> set s)"

text \<open>The salts drawn for the flags that a request creates.\<close>

fun salts_drawn :: "request \<Rightarrow> js_string list" where
  "salts_drawn (AdminRequest header (CreateFlagRequest i s req)) = [s]"
| "salts_drawn r = []"

text \<open>
  What random UUIDs are relied on for: the salts to come have no colon, and neither they nor those of the
  flags repeat.
\<close>

definition fresh_salts :: "(int \<times> request) list \<Rightarrow> database \<Rightarrow> bool" where
  "fresh_salts reqs db \<longleftrightarrow>
     distinct (map snd (bucket_parts db) @ concat (map (salts_drawn \<circ> snd) reqs))
     \<and> (\<forall>r \<in> set reqs. \<forall>s \<in> set (salts_drawn (snd r)). colon \<notin> set s)"

text \<open>A request adds at most one flag, with a checked key and the salt it has drawn.\<close>

definition parts_follow :: "js_string list \<Rightarrow> (js_string \<times> js_string) list \<Rightarrow> (js_string \<times> js_string) list \<Rightarrow> bool" where
  "parts_follow drawn ps ps' \<longleftrightarrow> ps' = ps \<or> (\<exists>k s. drawn = [s] \<and> colon \<notin> set k \<and> ps' = ps @ [(k, s)])"

lemma parts_follow_refl [simp]: "parts_follow drawn ps ps"
  by (simp add: parts_follow_def)

lemma bucket_parts_cong: "db_flags db' = db_flags db \<Longrightarrow> bucket_parts db' = bucket_parts db"
  by (simp add: bucket_parts_def)

lemma flags_kept:
  "db_flags (snd (publishRuleset collate sha256 stringify now opts db)) = db_flags db"
  "db_flags (snd (insertApiKey i ki db)) = db_flags db"
  "db_flags (touchKeyUsage now' k db) = db_flags db"
  "db_flags (snd (writeAudit now' entry db)) = db_flags db"
proof -
  obtain res db' where pub: "publishRuleset collate sha256 stringify now opts db = (res, db')" by fastforce
  from pub have "db_flags db' = db_flags db" by (cases rule: publish_cases) simp_all
  then show "db_flags (snd (publishRuleset collate sha256 stringify now opts db)) = db_flags db" by (simp add: pub)
qed (simp_all add: insertApiKey_def insert_key_row_def touchKeyUsage_def writeAudit_def insert_audit_def)

lemma bucket_parts_update: "bucket_parts (snd (updateFlagConfig now inp db)) = bucket_parts db"
  by (simp add: bucket_parts_def updateFlagConfig_def write_config_def Let_def split: option.split)

lemma bucket_parts_create:
  "bucket_parts (snd (createFlag now i s inp db)) \<in> {bucket_parts db, bucket_parts db @ [(ci_key inp, s)]}"
proof -
  obtain res db' where create: "createFlag now i s inp db = (res, db')" by fastforce
  from create have "bucket_parts db' \<in> {bucket_parts db, bucket_parts db @ [(ci_key inp, s)]}"
    by (cases rule: create_cases) (auto simp: bucket_parts_def)
  then show ?thesis by (simp add: create)
qed

lemma valid_flag_key_no_colon: "valid_flag_key k \<Longrightarrow> colon \<notin> set k"
  by (auto simp: valid_flag_key_def list_all_iff key_char_def colon_def)

lemma create_route_parts:
  "parts_follow [s] (bucket_parts (sv_db srv)) (bucket_parts (sv_db (snd (create_flag_route cfg now i s req srv))))"
proof (cases "valid_flag_key (required (cq_key req))")
  case False
  then show ?thesis by (simp add: create_flag_route_def)
next
  case True
  let ?inp = "\<lparr>ci_tenantId = required (cq_tenantId req), ci_key = required (cq_key req),
     ci_description = or_else (cq_description req) [], ci_variations = or_else (cq_variations req) default_variations,
     ci_defaultVariationKey = or_else (cq_defaultVariationKey req) (lit ''off''),
     ci_offVariationKey = or_else (cq_offVariationKey req) (lit ''off'')\<rparr>"
  have "bucket_parts (sv_db (snd (create_flag_route cfg now i s req srv)))
      \<in> {bucket_parts (sv_db srv), bucket_parts (snd (createFlag now i s ?inp (sv_db srv)))}"
    by (simp add: create_flag_route_def Let_def split_beta bucket_parts_cong [OF flags_kept(4)]
        split: sum.split db_error.split)
  then have "bucket_parts (sv_db (snd (create_flag_route cfg now i s req srv)))
      \<in> {bucket_parts (sv_db srv), bucket_parts (sv_db srv) @ [(required (cq_key req), s)]}"
    using bucket_parts_create [of now i s ?inp "sv_db srv"] by auto
  then show ?thesis using valid_flag_key_no_colon [OF True] by (auto simp: parts_follow_def)
qed

lemma route_parts:
  "bucket_parts (sv_db (snd (publish_route cfg now preq srv))) = bucket_parts (sv_db srv)"
  "bucket_parts (sv_db (snd (api_key_route cfg now i bs kreq srv))) = bucket_parts (sv_db srv)"
  "bucket_parts (sv_db (snd (patch_flag_route cfg now key ureq srv))) = bucket_parts (sv_db srv)"
  by (simp_all add: publish_route_def api_key_route_def patch_flag_route_def push_to_data_plane_def Let_def split_beta
      bucket_parts_cong [OF flags_kept(1)] bucket_parts_cong [OF flags_kept(2)] bucket_parts_cong [OF flags_kept(4)]
      bucket_parts_update
      split: sum.split db_error.split compile_error.split option.split)

lemma require_key_parts: "bucket_parts (snd (requireSdkKey cfg now header db)) = bucket_parts db"
  by (simp add: requireSdkKey_def bucket_parts_cong [OF flags_kept(3)] split: option.split)

lemma handle_parts:
  "parts_follow (salts_drawn (snd r)) (bucket_parts (sv_db srv)) (bucket_parts (sv_db (snd (handle cfg r srv))))"
proof (cases "(cfg, r, srv)" rule: handle.cases)
  case (2 cfg' now header ifNoneMatch srv')
  obtain scope db where a: "requireSdkKey cfg now header (sv_db srv) = (scope, db)" by fastforce
  then have "bucket_parts db = bucket_parts (sv_db srv)" using require_key_parts [of cfg now header "sv_db srv"] by simp
  then show ?thesis using 2 a by (simp add: snapshot_route_def Let_def split: option.split)
next
  case (3 cfg' now header body srv')
  obtain scope db where a: "requireSdkKey cfg now header (sv_db srv) = (scope, db)" by fastforce
  then have "bucket_parts db = bucket_parts (sv_db srv)" using require_key_parts [of cfg now header "sv_db srv"] by simp
  then show ?thesis using 3 a by (simp add: exposures_route_def split_beta)
next
  case (4 cfg' now header req srv')
  then show ?thesis
    by (cases req) (simp_all add: admin_route_def create_route_parts route_parts split: option.split)
qed simp

lemma handle_separable:
  assumes "separable (sv_db srv)" "fresh_salts (r # reqs) (sv_db srv)"
  shows "separable (sv_db (snd (handle cfg r srv))) \<and> fresh_salts reqs (sv_db (snd (handle cfg r srv)))"
proof -
  let ?db = "sv_db (snd (handle cfg r srv))" and ?later = "concat (map (salts_drawn \<circ> snd) reqs)"
  have fresh: "distinct (map snd (bucket_parts (sv_db srv)) @ salts_drawn (snd r) @ ?later)"
    and salts: "\<forall>r \<in> set reqs. \<forall>s \<in> set (salts_drawn (snd r)). colon \<notin> set s"
    and drawn: "\<forall>s \<in> set (salts_drawn (snd r)). colon \<notin> set s"
    using assms(2) by (simp_all add: fresh_salts_def)
  from handle_parts [of r srv cfg] show ?thesis
    unfolding parts_follow_def
  proof (elim disjE exE conjE)
    assume same: "bucket_parts ?db = bucket_parts (sv_db srv)"
    have "distinct (map snd (bucket_parts (sv_db srv)) @ ?later)"
      using fresh by (simp only: distinct_append set_append) blast
    with same salts assms(1) show ?thesis by (simp only: separable_def fresh_salts_def simp_thms)
  next
    fix k s
    assume s: "salts_drawn (snd r) = [s]" "colon \<notin> set k" and parts: "bucket_parts ?db = bucket_parts (sv_db srv) @ [(k, s)]"
    have "map snd (bucket_parts ?db) @ ?later = map snd (bucket_parts (sv_db srv)) @ salts_drawn (snd r) @ ?later"
      by (simp add: parts s(1))
    with fresh have "distinct (map snd (bucket_parts ?db) @ ?later)" by (simp only:)
    moreover have "separable ?db" using assms(1) s drawn by (simp add: separable_def parts)
    ultimately show ?thesis using salts by (simp only: fresh_salts_def simp_thms)
  qed
qed

lemma handle_all_separable:
  "separable (sv_db srv) \<Longrightarrow> fresh_salts reqs (sv_db srv) \<Longrightarrow>
    separable (sv_db (handle_all cfg reqs srv)) \<and> fresh_salts [] (sv_db (handle_all cfg reqs srv))"
proof (induction reqs arbitrary: srv)
  case (Cons r reqs)
  from handle_separable [OF Cons.prems, of cfg] Cons.IH [of "snd (handle cfg r srv)"] show ?case
    by (simp add: handle_all_def)
qed (simp add: handle_all_def)

text \<open>
  C24: the check of flag keys at creation and the random salts keep bucketing unambiguous: after any requests,
  two of the server's flags and any two bucket keys are hashed from the same input only when they are
  one flag and one bucket key, although the input joins its parts unescaped, and although flags of
  different tenants may have the same key. The hypothesis on the salts is that random UUIDs have no colon
  and do not repeat. In the witness a second tenant creates a flag with the key of the first.
\<close>

theorem served_flags_bucket_apart:
  assumes "separable (sv_db srv)" "fresh_salts reqs (sv_db srv)"
    and "f \<in> set (db_flags (sv_db (handle_all cfg reqs srv)))" "g \<in> set (db_flags (sv_db (handle_all cfg reqs srv)))"
    and "bucketingInput (f_key f) (f_salt f) u = bucketingInput (f_key g) (f_salt g) v"
  shows "f = g \<and> u = v"
proof -
  note after = handle_all_separable [OF assms(1,2), of cfg]
  have "f_key f = f_key g \<and> f_salt f = f_salt g \<and> u = v"
  proof (rule bucketing_input_unambiguous [OF assms(5)])
    show "of_char CHR '':'' \<notin> set (f_key f) \<union> set (f_key g) \<union> set (f_salt f) \<union> set (f_salt g)"
      using after assms(3,4) by (auto simp: separable_def bucket_parts_def colon_def)
  qed
  moreover have "inj_on f_salt (set (db_flags (sv_db (handle_all cfg reqs srv))))"
    using after by (simp add: fresh_salts_def bucket_parts_def distinct_map o_def)
  ultimately show ?thesis using assms(3,4) by (auto dest: inj_onD)
qed

section \<open>A server with a published ruleset and a client key\<close>

definition example_config :: server_config where
  "example_config = \<lparr>sc_collate = by_text, sc_sha256 = (\<lambda>bs. bs), sc_stringify = (\<lambda>s. []),
     sc_adminToken = Some (lit ''secret''), sc_date_of = (\<lambda>s. None), sc_maxInFlightRows = 50000, sc_dataPlane = None\<rparr>"

definition example_server :: server where
  "example_server = \<lparr>sv_db = example_db, sv_writer = None, sv_pushes = []\<rparr>"

definition key_for_acme :: api_key_request where
  "key_for_acme = \<lparr>kq_tenantId = Some (lit ''t1''), kq_environmentId = Some (lit ''e1''), kq_name = Some (lit ''web''),
     kq_kind = lit ''client''\<rparr>"

definition client_key_text :: js_string where
  "client_key_text = plaintext (generateApiKey (\<lambda>bs. bs) (replicate 32 7) KindClient)"

definition published_server :: server where
  "published_server = example_server\<lparr>sv_db := snd (publishRuleset by_text (\<lambda>bs. bs) (\<lambda>s. []) [] prod_of_acme example_db)\<rparr>"

definition keyed_server :: server where
  "keyed_server = snd (api_key_route example_config 0 (lit ''k1'') (replicate 32 7) key_for_acme published_server)"

lemma published_server_db:
  "\<exists>n. db_ok (sv_db published_server) \<and> db_api_keys (sv_db published_server) = []
     \<and> db_snapshots (sv_db published_server) = [n] \<and> n_environment n = lit ''e1''
     \<and> db_tenants (sv_db published_server) = db_tenants example_db
     \<and> environment_exists (sv_db published_server) (lit ''e1'')"
proof -
  obtain r db' where pub: "publishRuleset by_text (\<lambda>bs. bs) (\<lambda>s. []) [] prod_of_acme example_db = (Inr r, db')"
    using example_publish by (metis prod.collapse)
  have ok: "db_ok db'" using example_db_ok pub by (rule publish_ok)
  from pub show ?thesis
  proof (cases rule: publish_cases)
    case (committed e c entry)
    have "environment_exists db' (lit ''e1'')"
      by (simp add: committed(7)) (simp add: environment_exists_def example_db_def)
    moreover have "db_api_keys db' = []" "db_snapshots db' = [entry]" "db_tenants db' = db_tenants example_db"
      by (simp_all add: committed(7)) (simp_all add: example_db_def)
    moreover have "n_environment entry = lit ''e1''" by (simp add: committed(5)) (simp add: prod_of_acme_def)
    moreover have "sv_db published_server = db'" by (simp add: published_server_def pub)
    ultimately show ?thesis using ok by (intro exI [of _ entry]) simp
  qed simp
qed

lemma keyed_reply:
  "reply_body (fst (api_key_route example_config 0 (lit ''k1'') (replicate 32 7) key_for_acme published_server))
     = KeyBody (lit ''k1'') client_key_text KindClient (key_prefix (generateApiKey (\<lambda>bs. bs) (replicate 32 7) KindClient))"
proof -
  obtain n where n: "db_api_keys (sv_db published_server) = []" "db_tenants (sv_db published_server) = db_tenants example_db"
      "environment_exists (sv_db published_server) (lit ''e1'')"
    using published_server_db by blast
  have t: "tenant_exists (sv_db published_server) (lit ''t1'')"
    by (simp add: tenant_exists_def n(2)) (simp add: example_db_def)
  show ?thesis
    using n t by (simp add: api_key_route_def key_for_acme_def missing_def required_def kind_of_text_def example_config_def
        Let_def insertApiKey_def insert_key_row_def writeAudit_def insert_audit_def reply_with_def client_key_text_def)
qed

theorem created_key_authenticates_witness:
  "\<exists>scope. authenticateKey (sc_sha256 example_config) (sv_db keyed_server) client_key_text = Some scope
     \<and> scope_kind scope = KindClient \<and> environmentId scope = lit ''e1'' \<and> apiKeyId scope = lit ''k1''"
proof -
  let ?r = "api_key_route example_config 0 (lit ''k1'') (replicate 32 7) key_for_acme published_server"
  have route: "?r = (fst ?r, keyed_server)" by (simp add: keyed_server_def)
  have "\<forall>k \<in> set (db_api_keys (sv_db published_server)). \<not> verifyApiKey (sc_sha256 example_config) client_key_text (k_hash k)"
      "db_ok (sv_db published_server)"
    using published_server_db by auto
  from created_key_authenticates [OF this(2) route keyed_reply this(1)]
  show ?thesis by (auto simp: key_for_acme_def required_def)
qed

lemma keyed_server_authenticates:
  "\<exists>scope. authenticateKey (sc_sha256 example_config) (sv_db keyed_server) client_key_text = Some scope
     \<and> scope_kind scope = KindClient \<and> environmentId scope = lit ''e1''"
proof -
  have n: "db_ok (sv_db published_server)" "db_api_keys (sv_db published_server) = []"
    using published_server_db by blast+
  then have ok: "db_ok (sv_db keyed_server)" unfolding keyed_server_def by (intro api_key_route_ok)
  have k: "db_api_keys (sv_db keyed_server) = [\<lparr>k_id = lit ''k1'', k_tenant = lit ''t1'', k_environment = lit ''e1'',
      k_name = lit ''web'', k_kind = KindClient, k_prefix = key_prefix (generateApiKey (\<lambda>bs. bs) (replicate 32 7) KindClient),
      k_hash = key_hash (generateApiKey (\<lambda>bs. bs) (replicate 32 7) KindClient), k_last_used = None, k_revoked = False\<rparr>]"
    using keyed_reply n(2)
    by (auto simp: keyed_server_def api_key_route_def key_for_acme_def missing_def required_def kind_of_text_def
        example_config_def Let_def insertApiKey_def insert_key_row_def writeAudit_def insert_audit_def reply_with_def
        internal_error_def split: if_splits)
  obtain e where e: "e \<in> set (db_environments (sv_db keyed_server))" "e_id e = lit ''e1''"
    using ok by (auto simp: db_ok_def references_hold_def environment_exists_def k)
  have key: "8 \<le> length (keyPrefix client_key_text)"
      "key_prefix (generateApiKey (\<lambda>bs. bs) (replicate 32 7) KindClient) = keyPrefix client_key_text"
      "verifyApiKey (\<lambda>bs. bs) client_key_text (key_hash (generateApiKey (\<lambda>bs. bs) (replicate 32 7) KindClient))"
    by (simp_all add: client_key_text_def generateApiKey_def Let_def keyPrefix_def PREFIX_LENGTH_def label_def lit_def
        verifyApiKey_iff hashApiKey_def hex_roundtrip)
  have "distinct (map e_id (db_environments (sv_db keyed_server)))" using ok by (simp add: db_ok_def keys_unique_def)
  from authenticate_inserted [OF e(1) this, of "hd (db_api_keys (sv_db keyed_server))" client_key_text "\<lambda>bs. bs" "[]"] key e(2)
  have "authenticateKey (sc_sha256 example_config) (sv_db keyed_server) client_key_text
      = Some (scope_of (hd (db_api_keys (sv_db keyed_server)), e))"
    by (simp add: authenticateKey_def k example_config_def)
  then show ?thesis by (simp add: k scope_of_def)
qed

lemma keyed_server_serves:
  "\<exists>s. fst (snapshot_route example_config now (Some (bearer @ client_key_text)) ifNoneMatch keyed_server)
     = (if ifNoneMatch = Some (sv_etag s)
        then \<lparr>code = 304, headers = [(lit ''ETag'', sv_etag s), (lit ''X-Flagship-Version'', number_to_string (sv_version s)),
               (lit ''Cache-Control'', lit ''no-cache, must-revalidate'')], reply_body = NoBody\<rparr>
        else \<lparr>code = 200, headers = [(lit ''ETag'', sv_etag s), (lit ''X-Flagship-Version'', number_to_string (sv_version s)),
               (lit ''Cache-Control'', lit ''no-cache, must-revalidate'')], reply_body = SnapshotBody (sv_payload s)\<rparr>)
     \<and> latestSnapshot (sv_db keyed_server) (lit ''e1'') KindClient = Some s"
proof -
  let ?r = "api_key_route example_config 0 (lit ''k1'') (replicate 32 7) key_for_acme published_server"
  obtain n where n: "db_ok (sv_db published_server)" "db_api_keys (sv_db published_server) = []"
      "db_snapshots (sv_db published_server) = [n]" "n_environment n = lit ''e1''"
    using published_server_db by blast
  have snaps: "db_snapshots (sv_db keyed_server) = [n]" by (simp add: keyed_server_def route_snapshots(2) n)
  then obtain s where s: "latestSnapshot (sv_db keyed_server) (lit ''e1'') KindClient = Some s"
    by (simp add: latestSnapshot_def newest_snapshot_def n(4))
  obtain scope where scope: "authenticateKey (sc_sha256 example_config) (sv_db keyed_server) client_key_text = Some scope"
      "scope_kind scope = KindClient" "environmentId scope = lit ''e1''"
    using keyed_server_authenticates by blast
  have "latestSnapshot (touchKeyUsage now (apiKeyId scope) (sv_db keyed_server)) (lit ''e1'') KindClient = Some s"
    using s by (simp add: latestSnapshot_def)
  then show ?thesis
    using scope s by (intro exI [of _ s]) (simp add: snapshot_route_def requireSdkKey_def starts_with_iff Let_def)
qed

theorem snapshot_route_is_safe_witness:
  "\<exists>payload. reply_body (fst (snapshot_route example_config 5 (Some (bearer @ client_key_text)) None keyed_server)) = SnapshotBody payload
     \<and> (\<forall>f \<in> set (flags payload). \<not> is_error (reason (evaluateFlag no_regex (fkey f) example_context (indexSnapshot payload) JNull)))"
proof -
  have ok: "db_ok (sv_db keyed_server)"
    unfolding keyed_server_def using published_server_db by (intro api_key_route_ok) blast
  have run: "keyed_server = handle_all example_config [] keyed_server" by (simp add: handle_all_def)
  have "code (fst (snapshot_route example_config 5 (Some (bearer @ client_key_text)) None keyed_server)) = 200"
    using keyed_server_serves [of 5 None] by auto
  from snapshot_route_is_safe [OF ok run refl this, of no_regex example_context JNull] show ?thesis by blast
qed

theorem not_modified_means_unchanged_witness:
  "\<exists>tag. code (fst (snapshot_route example_config 6 (Some (bearer @ client_key_text)) (Some tag) keyed_server)) = 304
     \<and> reply_body (fst (snapshot_route example_config 6 (Some (bearer @ client_key_text)) None keyed_server))
       = reply_body (fst (snapshot_route example_config 5 (Some (bearer @ client_key_text)) None keyed_server))"
proof -
  let ?h = "Some (bearer @ client_key_text)"
  have ok: "db_ok (sv_db keyed_server)"
    unfolding keyed_server_def using published_server_db by (intro api_key_route_ok) blast
  have run: "keyed_server = handle_all example_config [] keyed_server" by (simp add: handle_all_def)
  obtain n where "db_snapshots (sv_db keyed_server) = [n]"
    using published_server_db by (auto simp: keyed_server_def route_snapshots(2))
  then have apart: "\<forall>m \<in> set (db_snapshots (sv_db keyed_server)). \<forall>n \<in> set (db_snapshots (sv_db keyed_server)).
      n_etag m = n_etag n \<longrightarrow> n_server m = n_server n" by simp
  obtain s where s: "latestSnapshot (sv_db keyed_server) (lit ''e1'') KindClient = Some s"
    using keyed_server_serves by blast
  have full: "code (fst (snapshot_route example_config 5 ?h None keyed_server)) = 200"
      "map_of (headers (fst (snapshot_route example_config 5 ?h None keyed_server))) (lit ''ETag'') = Some (sv_etag s)"
      "reply_body (fst (snapshot_route example_config 5 ?h None keyed_server)) = SnapshotBody (sv_payload s)"
    using keyed_server_serves [of 5 None] s by auto
  have again: "code (fst (snapshot_route example_config 6 ?h (Some (sv_etag s)) keyed_server)) = 304"
    using keyed_server_serves [of 6 "Some (sv_etag s)"] s by auto
  from not_modified_means_unchanged [OF ok run apart refl full again] again full(3) show ?thesis by auto
qed

lemma admin_routes_need_the_token_witness:
  "admin_route example_config 0 (Some (lit ''Bearer guess'')) ListTenants example_server
     = (reply_with 401 (ErrorBody (lit ''unauthorized'')), example_server)"
  by (rule admin_routes_need_the_token) (simp add: example_config_def bearer_def lit_def)

definition checkout_for_other :: create_flag_request where
  "checkout_for_other = \<lparr>cq_tenantId = Some (lit ''t2''), cq_key = Some (lit ''checkout''), cq_description = None,
     cq_variations = None, cq_defaultVariationKey = None, cq_offVariationKey = None\<rparr>"

definition creation :: "int \<times> request" where
  "creation = (7, AdminRequest (Some (lit ''Bearer secret'')) (CreateFlagRequest (lit ''f2'') (lit ''s2'') checkout_for_other))"

lemma creation_adds_a_flag:
  "map f_tenant (db_flags (sv_db (handle_all example_config [creation] example_server))) = [lit ''t1'', lit ''t2'']"
proof -
  define inp where "inp = \<lparr>ci_tenantId = lit ''t2'', ci_key = lit ''checkout'', ci_description = [],
    ci_variations = default_variations, ci_defaultVariationKey = lit ''off'', ci_offVariationKey = lit ''off''\<rparr>"
  have "fst (createFlag 7 (lit ''f2'') (lit ''s2'') inp example_db) = Inr ()"
    by (rule create_succeeds [OF example_db_ok]) (simp_all add: inp_def example_db_def exists_defs)
  then obtain db where made: "createFlag 7 (lit ''f2'') (lit ''s2'') inp example_db = (Inr (), db)"
    by (metis prod.collapse)
  then have flags: "map f_tenant (db_flags db) = [lit ''t1'', lit ''t2'']"
    by (cases rule: create_cases) (simp_all add: inp_def example_db_def)
  have "valid_flag_key (lit ''checkout'')" "requireAdmin example_config (Some (lit ''Bearer secret''))"
    "JStr (lit ''off'') \<in> set (map (\<lambda>v. get_prop v (lit ''key'')) default_variations)"
    by code_simp+
  then have "db_flags (sv_db (handle_all example_config [creation] example_server)) = db_flags db"
    using made flags_kept(4)
    by (simp add: handle_all_def creation_def admin_route_def create_flag_route_def checkout_for_other_def missing_def
      required_def or_else_def example_server_def inp_def Let_def split_beta split: sum.split)
  with flags show ?thesis by simp
qed

theorem served_flags_bucket_apart_witness:
  "case db_flags (sv_db (handle_all example_config [creation] example_server)) of
     [f, g] \<Rightarrow> f_tenant f = lit ''t1'' \<and> f_tenant g = lit ''t2''
       \<and> (\<forall>u v. bucketingInput (f_key f) (f_salt f) u \<noteq> bucketingInput (f_key g) (f_salt g) v)
   | _ \<Rightarrow> False"
proof -
  obtain f g where fg: "db_flags (sv_db (handle_all example_config [creation] example_server)) = [f, g]"
      "f_tenant f = lit ''t1''" "f_tenant g = lit ''t2''"
    using creation_adds_a_flag by (auto simp: map_eq_Cons_conv)
  have sep: "separable (sv_db example_server)" "fresh_salts [creation] (sv_db example_server)"
    by (simp_all add: separable_def fresh_salts_def creation_def bucket_parts_def example_server_def example_db_def colon_def lit_def)
  have "f \<noteq> g" using fg(2,3) by (auto simp: lit_def)
  then have "bucketingInput (f_key f) (f_salt f) u \<noteq> bucketingInput (f_key g) (f_salt g) v" for u v
    using served_flags_bucket_apart [OF sep, of f example_config g u v] fg(1) by auto
  with fg show ?thesis by simp
qed

section \<open>What the routes do not check\<close>

text \<open>
  A publish stores and pushes under the environment key of the request, which is not compared with the
  key of the environment that is published, and what is pushed is the payload for server keys.
\<close>

lemma publish_trusts_environment_key:
  assumes "publishRuleset collate sha256 stringify now opts db = (Inr r, db')"
  shows "environmentKey (cr_server (pr_compiled r)) = po_environmentKey opts"
  using assms by (cases rule: publish_cases) (auto dest: compile_accepted(5))

lemma server_payload_is_pushed:
  assumes "publish_route cfg now req srv = (reply, srv')" "sv_pushes srv' = sv_pushes srv @ [msg]"
  shows "\<exists>e r. publishRuleset (sc_collate cfg) (sc_sha256 cfg) (sc_stringify cfg) (toISOString now)
      \<lparr>po_tenantId = required (pq_tenantId req), po_environmentId = required (pq_environmentId req),
       po_environmentKey = required (pq_environmentKey req),
       po_publishedBy = or_else (pq_actorEmail req) (lit ''unknown'')\<rparr> (sv_db srv) = (Inr r, e)
    \<and> pm_payload msg = cr_server (pr_compiled r) \<and> pm_environment msg = required (pq_environmentKey req)"
  using assms by (auto simp: publish_route_def push_to_data_plane_def Let_def reply_with_def
      split: if_splits prod.splits sum.splits option.splits db_error.splits compile_error.splits)

text \<open>
  Nor does the creation of a key check that the environment is one of the tenant: the key of one tenant
  then reads the payloads of another.
\<close>

lemma cross_tenant_key:
  "fst (insertApiKey (lit ''k9'') \<lparr>ki_tenantId = lit ''t1'', ki_environmentId = lit ''e2'', ki_name = lit ''web'',
      ki_kind = KindServer, ki_prefix = [], ki_hash = []\<rparr> example_db) = Inr (lit ''k9'')
    \<and> (\<exists>e \<in> set (db_environments example_db). e_id e = lit ''e2'' \<and> e_tenant e \<noteq> lit ''t1'')"
  by (simp add: insertApiKey_def insert_key_row_def exists_defs example_db_def)

text \<open>
  The creation of a flag checks that the default variations are declared, not that the keys of the
  variations differ; every publish of the tenant is then rejected.
\<close>

definition doubled_flag :: create_flag_input where
  "doubled_flag = beta_flag\<lparr>ci_variations := default_variations @ default_variations\<rparr>"

lemma duplicate_variations_block_publishing:
  "fst (createFlag 7 (lit ''f2'') (lit ''s2'') doubled_flag example_db) = Inr ()
    \<and> ruleset_problems
       (fst (loadRulesetInputs by_text (snd (createFlag 7 (lit ''f2'') (lit ''s2'') doubled_flag example_db)) (lit ''t1'') (lit ''e1'')))
       (snd (loadRulesetInputs by_text (snd (createFlag 7 (lit ''f2'') (lit ''s2'') doubled_flag example_db)) (lit ''t1'') (lit ''e1'')))
       \<noteq> Some []"
proof
  show "fst (createFlag 7 (lit ''f2'') (lit ''s2'') doubled_flag example_db) = Inr ()"
    by (rule create_succeeds [OF example_db_ok]) (simp_all add: doubled_flag_def beta_flag_def example_db_def exists_defs)
qed code_simp

end
