(* ===== verification/Sequential.thy ===== *)
theory Sequential
  imports Frequentist
begin

text \<open>
  \<open>packages/core/src/stats/sequential.ts\<close>: the mixture sequential test, and the monitor that keeps the
  smallest p-value. Nothing is assumed of the functions of \<open>Math\<close>: what is proved holds whatever
  approximations they are.
\<close>

section \<open>The test\<close>

record sequential_result =
  sq_effect :: js_number
  sq_standardError :: js_number
  sq_likelihoodRatio :: js_number
  sq_alwaysValidPValue :: js_number
  sq_confidenceInterval :: "js_number \<times> js_number"
  sq_significant :: bool

record sequential_options =
  so_alpha :: "js_number option"
  so_tau :: "js_number option"

definition mixtureLikelihoodRatio :: "math \<Rightarrow> js_number \<Rightarrow> js_number \<Rightarrow> js_number \<Rightarrow> js_number" where
  "mixtureLikelihoodRatio m effect variance tau =
     (if variance \<le> Fin 0 \<or> \<not> is_finite_number variance then Fin 0
      else
        let tauSquared = tau * tau;
            scale = math_sqrt m (variance / (variance + tauSquared));
            exponent = (tauSquared * effect * effect) / (Fin 2 * variance * (variance + tauSquared)) in
        scale * math_exp m exponent)"

definition alwaysValidInterval ::
    "math \<Rightarrow> js_number \<Rightarrow> js_number \<Rightarrow> js_number \<Rightarrow> js_number \<Rightarrow> js_number \<times> js_number" where
  "alwaysValidInterval m effect variance tau alpha =
     (let tauSquared = tau * tau in
      if variance \<le> Fin 0 \<or> tauSquared \<le> Fin 0 then (effect, effect)
      else
        let ratio = (variance + tauSquared) / variance;
            inner = (Fin 2 * variance * (variance + tauSquared) * math_log m (math_sqrt m ratio / alpha)) / tauSquared in
        if inner \<le> Fin 0 then (effect, effect)
        else let halfWidth = math_sqrt m inner in (effect - halfWidth, effect + halfWidth))"

definition build_result :: "math \<Rightarrow> js_number \<Rightarrow> js_number \<Rightarrow> sequential_options \<Rightarrow> sequential_result" where
  "build_result m effect variance opts =
     (let alpha = or_default (so_alpha opts) default_alpha;
          tau = or_default (so_tau opts) (math_sqrt m (math_max variance number_EPSILON));
          ratio = mixtureLikelihoodRatio m effect variance tau in
      \<lparr>sq_effect = effect, sq_standardError = math_sqrt m (math_max variance (Fin 0)),
       sq_likelihoodRatio = ratio,
       sq_alwaysValidPValue = math_min (Fin 1) (if Fin 0 < ratio then Fin 1 / ratio else Fin 1),
       sq_confidenceInterval = alwaysValidInterval m effect variance tau alpha,
       sq_significant = Fin 1 / alpha \<le> ratio\<rparr>)"

definition sequentialTTest ::
    "math \<Rightarrow> continuous_sample \<Rightarrow> continuous_sample \<Rightarrow> sequential_options \<Rightarrow> sequential_result" where
  "sequentialTTest m control treatment opts =
     (let variance = cont_variance control / cont_n control + cont_variance treatment / cont_n treatment in
      build_result m (cont_mean treatment - cont_mean control) variance opts)"

definition sequentialProportionTest ::
    "math \<Rightarrow> binary_sample \<Rightarrow> binary_sample \<Rightarrow> sequential_options \<Rightarrow> sequential_result" where
  "sequentialProportionTest m control treatment opts =
     (let pc = sample_conversions control / sample_n control;
          pt = sample_conversions treatment / sample_n treatment;
          variance = (pc * (Fin 1 - pc)) / sample_n control + (pt * (Fin 1 - pt)) / sample_n treatment in
      build_result m (pt - pc) variance opts)"

section \<open>The monitor\<close>

text \<open>The state of a \<open>SequentialMonitor\<close> is its minimum.\<close>

definition new_monitor :: js_number where
  "new_monitor = Fin 1"

definition monitor_update :: "sequential_result \<Rightarrow> js_number \<Rightarrow> js_number" where
  "monitor_update result minimum = math_min minimum (sq_alwaysValidPValue result)"

definition hasCrossed :: "js_number option \<Rightarrow> js_number \<Rightarrow> bool" where
  "hasCrossed alpha minimum = (minimum < or_default alpha default_alpha)"

section \<open>P-values\<close>

definition probability :: "js_number \<Rightarrow> bool" where
  "probability p \<longleftrightarrow> Fin 0 \<le> p \<and> p \<le> Fin 1"

lemma probability_not_NaN: "probability p \<Longrightarrow> p \<noteq> NaN"
  by (auto simp: probability_def)

lemma probability_build: "probability (sq_alwaysValidPValue (build_result m effect variance opts))"
proof -
  have pos: "Fin 0 \<le> Fin 1 / r" if "Fin 0 < r" for r
  proof (cases r)
    case (Fin a)
    with that have "num_le (Fin (of_int 0)) (round_double (1 / a))" by (intro round_double_ge_int) simp_all
    then show ?thesis using Fin that by (simp add: js_arith)
  qed (use that in \<open>simp_all add: js_arith\<close>)
  have "probability (math_min (Fin 1) (if Fin 0 < r then Fin 1 / r else Fin 1))" for r
  proof (cases "Fin 0 < r")
    case True
    define q where "q = Fin 1 / r"
    have q: "Fin 0 \<le> q" using pos [OF True] by (simp add: q_def)
    then have "q \<noteq> NaN" by auto
    with q js_min_le [of "Fin 1" q] have "probability (math_min (Fin 1) q)" by (auto simp: probability_def)
    then show ?thesis using True by (simp add: q_def)
  next
    case False
    have "math_min (Fin 1) (Fin 1) = Fin 1" by (simp add: math_min_def)
    with False show ?thesis by (simp add: probability_def)
  qed
  then show ?thesis by (simp add: build_result_def Let_def)
qed

lemma probability_tests:
  "probability (sq_alwaysValidPValue (sequentialTTest m c t opts))"
  "probability (sq_alwaysValidPValue (sequentialProportionTest m c' t' opts))"
  by (simp_all add: sequentialTTest_def sequentialProportionTest_def Let_def probability_build)

lemma monitor_run:
  assumes "probability p" "\<forall>r \<in> set rs. probability (sq_alwaysValidPValue r)"
  shows "probability (fold monitor_update rs p) \<and> fold monitor_update rs p \<le> p
    \<and> (\<forall>r \<in> set rs. fold monitor_update rs p \<le> sq_alwaysValidPValue r)
    \<and> fold monitor_update rs p \<in> insert p (sq_alwaysValidPValue ` set rs)"
  using assms
proof (induction rs arbitrary: p)
  case Nil
  then show ?case by (simp add: js_le_refl probability_not_NaN)
next
  case (Cons r rs)
  define q where "q = monitor_update r p"
  have nn: "p \<noteq> NaN" "sq_alwaysValidPValue r \<noteq> NaN" using Cons.prems by (auto dest: probability_not_NaN)
  have q: "q \<le> p" "q \<le> sq_alwaysValidPValue r" "q \<in> {p, sq_alwaysValidPValue r}"
    using js_min_le [OF nn] by (simp_all add: q_def monitor_update_def)
  then have "probability q" using Cons.prems by auto
  with Cons.IH [of q] Cons.prems q show ?case by (auto simp: q_def [symmetric] intro: js_le_trans)
qed

text \<open>The results a caller can pass to the monitor.\<close>

definition from_test :: "math \<Rightarrow> sequential_result \<Rightarrow> bool" where
  "from_test m r \<longleftrightarrow>
     (\<exists>c t opts. r = sequentialTTest m c t opts) \<or> (\<exists>c t opts. r = sequentialProportionTest m c t opts)"

lemma from_test_intros [intro, simp]:
  "from_test m (sequentialTTest m c t opts)" "from_test m (sequentialProportionTest m c' t' opts)"
  unfolding from_test_def by blast+

lemma from_test_probability: "from_test m r \<Longrightarrow> probability (sq_alwaysValidPValue r)"
  unfolding from_test_def by (elim disjE exE) (simp_all add: probability_tests)

text \<open>
  C25: the monitor never takes a result back: over any sequence of tests its p-value is a probability, the
  smallest that was seen (or 1), and once it has crossed a threshold it has crossed it for all later data.
\<close>

theorem monitor_keeps_the_minimum:
  assumes "\<forall>r \<in> set (rs @ later). from_test m r"
  shows "probability (fold monitor_update rs new_monitor)
    \<and> (\<forall>r \<in> set rs. fold monitor_update rs new_monitor \<le> sq_alwaysValidPValue r)
    \<and> fold monitor_update rs new_monitor \<in> insert (Fin 1) (sq_alwaysValidPValue ` set rs)
    \<and> (hasCrossed alpha (fold monitor_update rs new_monitor)
        \<longrightarrow> hasCrossed alpha (fold monitor_update (rs @ later) new_monitor))"
proof -
  have ps: "\<forall>r \<in> set (rs @ later). probability (sq_alwaysValidPValue r)"
    using assms from_test_probability by blast
  have one: "probability new_monitor" by (simp add: probability_def new_monitor_def)
  have run: "probability (fold monitor_update rs new_monitor)
      \<and> (\<forall>r \<in> set rs. fold monitor_update rs new_monitor \<le> sq_alwaysValidPValue r)
      \<and> fold monitor_update rs new_monitor \<in> insert (Fin 1) (sq_alwaysValidPValue ` set rs)"
    using monitor_run [OF one, of rs] ps by (auto simp: new_monitor_def)
  moreover have "fold monitor_update (rs @ later) new_monitor \<le> fold monitor_update rs new_monitor"
    using monitor_run [of "fold monitor_update rs new_monitor" later] run ps by simp
  then have "hasCrossed alpha (fold monitor_update rs new_monitor)
      \<longrightarrow> hasCrossed alpha (fold monitor_update (rs @ later) new_monitor)"
    unfolding hasCrossed_def by (blast intro: js_le_less_trans)
  ultimately show ?thesis by blast
qed

text \<open>Concrete functions for the examples.\<close>

definition example_math :: math where
  "example_math =
     \<lparr>math_exp = \<lambda>x. Fin 4, math_log = \<lambda>x. Fin 0, math_sqrt = \<lambda>x. Fin 1, math_sin = \<lambda>x. Fin 1,
      math_pow = \<lambda>x y. Fin 1\<rparr>"

definition arm_sample :: "rat \<Rightarrow> continuous_sample" where
  "arm_sample mean = \<lparr>cont_n = Fin 1, cont_mean = Fin mean, cont_variance = Fin (1 / 2)\<rparr>"

definition example_options :: sequential_options where
  "example_options = \<lparr>so_alpha = Some (Fin (1 / 2)), so_tau = Some (Fin 1)\<rparr>"

lemma example_result:
  "sq_likelihoodRatio (sequentialTTest example_math (arm_sample 0) (arm_sample 1) example_options) = Fin 4"
  "sq_alwaysValidPValue (sequentialTTest example_math (arm_sample 0) (arm_sample 1) example_options) = Fin (1 / 4)"
proof -
  have q: "round_double (1 / 4) = Fin (1 / 4)"
    using round_double_dyadic [of 1 "- 2"] by (simp add: power_int_minus_divide)
  have "Fin (1 / 2) / Fin 1 + Fin (1 / 2) / Fin 1 = Fin 1"
    by (simp add: js_div_one representable_def) (simp add: plus_js_number_def)
  then have "sequentialTTest example_math (arm_sample 0) (arm_sample 1) example_options
      = build_result example_math (Fin 1 - Fin 0) (Fin 1) example_options"
    by (simp add: sequentialTTest_def arm_sample_def)
  moreover have "mixtureLikelihoodRatio example_math e (Fin 1) (Fin 1) = Fin 4" for e
    by (simp add: mixtureLikelihoodRatio_def example_math_def times_js_number_def)
  ultimately show "sq_likelihoodRatio (sequentialTTest example_math (arm_sample 0) (arm_sample 1) example_options) = Fin 4"
    "sq_alwaysValidPValue (sequentialTTest example_math (arm_sample 0) (arm_sample 1) example_options) = Fin (1 / 4)"
    using q by (simp_all add: build_result_def example_options_def or_default_def math_min_def divide_js_number_def
      Let_def)
qed

theorem monitor_keeps_the_minimum_witness:
  "hasCrossed (Some (Fin (1 / 2))) (fold monitor_update
     ([sequentialTTest example_math (arm_sample 0) (arm_sample 1) example_options] @
      [sequentialTTest example_math (arm_sample 0) (arm_sample 0) example_options]) new_monitor)"
proof -
  have "hasCrossed (Some (Fin (1 / 2))) (fold monitor_update
      [sequentialTTest example_math (arm_sample 0) (arm_sample 1) example_options] new_monitor)"
    by (simp add: hasCrossed_def or_default_def monitor_update_def new_monitor_def math_min_def example_result)
  moreover have "\<forall>r \<in> set ([sequentialTTest example_math (arm_sample 0) (arm_sample 1) example_options] @
      [sequentialTTest example_math (arm_sample 0) (arm_sample 0) example_options]).
      from_test example_math r" by simp
  from monitor_keeps_the_minimum [OF this] have
    "hasCrossed alpha (fold monitor_update [sequentialTTest example_math (arm_sample 0) (arm_sample 1) example_options] new_monitor)
      \<Longrightarrow> hasCrossed alpha (fold monitor_update
        ([sequentialTTest example_math (arm_sample 0) (arm_sample 1) example_options] @
         [sequentialTTest example_math (arm_sample 0) (arm_sample 0) example_options]) new_monitor)" for alpha by blast
  ultimately show ?thesis by blast
qed

text \<open>
  The result of a test and the monitor disagree at the threshold: a likelihood ratio of exactly
  \<open>1 / alpha\<close> is significant, and the monitor has not crossed \<open>alpha\<close>.
\<close>

lemma threshold_not_crossed:
  assumes "mixtureLikelihoodRatio m effect variance tau = Fin 2"
  shows "sq_significant (build_result m effect variance \<lparr>so_alpha = Some (Fin (1 / 2)), so_tau = Some tau\<rparr>)"
    and "\<not> hasCrossed (Some (Fin (1 / 2)))
      (monitor_update (build_result m effect variance \<lparr>so_alpha = Some (Fin (1 / 2)), so_tau = Some tau\<rparr>) new_monitor)"
  using assms
  by (simp_all add: build_result_def or_default_def hasCrossed_def monitor_update_def new_monitor_def math_min_def
    divide_js_number_def Let_def)

section \<open>The arms are treated alike\<close>

definition seq_mirrored :: "sequential_result \<Rightarrow> sequential_result \<Rightarrow> bool" where
  "seq_mirrored r r' \<longleftrightarrow>
     sq_effect r' = - sq_effect r \<and> sq_standardError r' = sq_standardError r
     \<and> sq_likelihoodRatio r' = sq_likelihoodRatio r \<and> sq_alwaysValidPValue r' = sq_alwaysValidPValue r
     \<and> sq_confidenceInterval r' = (- snd (sq_confidenceInterval r), - fst (sq_confidenceInterval r))
     \<and> (sq_significant r' \<longleftrightarrow> sq_significant r)"

lemma build_mirrored: "seq_mirrored (build_result m effect variance opts) (build_result m (- effect) variance opts)"
proof -
  have "c * - effect * - effect = c * effect * effect" for c
    by (metis js_minus_mult js_mult_commute js_mult_minus_minus)
  then have "mixtureLikelihoodRatio m (- effect) v tau = mixtureLikelihoodRatio m effect v tau" for v tau
    by (simp add: mixtureLikelihoodRatio_def Let_def)
  then show ?thesis
    by (simp add: seq_mirrored_def build_result_def alwaysValidInterval_def Let_def mirrored_interval)
qed

text \<open>
  C26: the analysis treats the arms alike: exchanging control and treatment in any of the four tests
  negates the effect and the statistic, reflects the interval about zero, and changes neither the
  standard error nor the p-value nor the verdict.
\<close>

theorem tests_treat_arms_alike:
  "mirrored (welchTTest m c t alpha) (welchTTest m t c alpha)
   \<and> mirrored (twoProportionZTest m c' t' alpha) (twoProportionZTest m t' c' alpha)
   \<and> seq_mirrored (sequentialTTest m c t opts) (sequentialTTest m t c opts)
   \<and> seq_mirrored (sequentialProportionTest m c' t' opts) (sequentialProportionTest m t' c' opts)"
proof (intro conjI welch_mirrored proportions_mirrored)
  have e: "cont_mean c - cont_mean t = - (cont_mean t - cont_mean c)" by (simp add: js_minus_diff)
  show "seq_mirrored (sequentialTTest m c t opts) (sequentialTTest m t c opts)"
    unfolding sequentialTTest_def Let_def e js_add_commute [of "cont_variance t / _"] by (rule build_mirrored)
  have e': "sample_conversions c' / sample_n c' - sample_conversions t' / sample_n t'
      = - (sample_conversions t' / sample_n t' - sample_conversions c' / sample_n c')"
    by (simp add: js_minus_diff)
  show "seq_mirrored (sequentialProportionTest m c' t' opts) (sequentialProportionTest m t' c' opts)"
    unfolding sequentialProportionTest_def Let_def e'
      js_add_commute [of "sample_conversions t' / sample_n t' * _ / _"] by (rule build_mirrored)
qed

end
