(* ===== verification/Console_Api.thy ===== *)
theory Console_Api
  imports Service
begin

text \<open>
  The way of a request of the console to the control plane: \<open>request\<close> of \<open>lib/api.ts\<close> in the browser,
  the route handlers under \<open>app/api\<close>, and \<open>forward\<close> of \<open>app/api/proxy.ts\<close>, which adds the token.
  A request is the one that the server reads; its text is the subject of \<open>Urls\<close>. What the network
  does to a call is an argument.
\<close>

section \<open>The proxy\<close>

datatype 'a fetched =
    Answered 'a
  | TimedOut
  | Unreachable

text \<open>A response with one of these codes must not have a body, and \<open>NextResponse.json\<close> throws.\<close>

definition null_body_status :: "nat \<Rightarrow> bool" where
  "null_body_status n \<longleftrightarrow> n \<in> {101, 103, 204, 205, 304}"

text \<open>
  The token is taken to be a legal value of a header without white space around it: for another one \<open>fetch\<close>
  would raise before the call, or send it trimmed.
\<close>

definition forward :: "js_string \<Rightarrow> (js_string option \<Rightarrow> http_reply fetched) \<Rightarrow> http_reply" where
  "forward adminToken call =
     (if adminToken = [] then reply_with 503 (ErrorBody (lit ''ADMIN_TOKEN is not configured on the console server''))
      else case call (Some (bearer @ adminToken)) of
        Answered r \<Rightarrow>
          (if null_body_status (code r) then reply_with 502 (ErrorBody (lit ''control plane unreachable''))
           else reply_with (code r) (reply_body r))
      | TimedOut \<Rightarrow> reply_with 502 (ErrorBody (lit ''control plane timed out''))
      | Unreachable \<Rightarrow> reply_with 502 (ErrorBody (lit ''control plane unreachable'')))"

text \<open>The requests that a route handler under \<open>app/api\<close> passes on.\<close>

definition proxied :: "admin_request \<Rightarrow> bool" where
  "proxied req = (case req of ApiKeyRequest i bs q \<Rightarrow> False | _ \<Rightarrow> True)"

section \<open>The client\<close>

datatype cause =
    ApiError js_string nat "js_string list"
  | OtherError js_string
  | NotAnError

fun error_of :: "reply_body \<Rightarrow> js_string option" where
  "error_of (ErrorBody m) = Some m"
| "error_of (ProblemsBody m problems) = Some m"
| "error_of b = None"

fun problems_of :: "reply_body \<Rightarrow> js_string list" where
  "problems_of (ProblemsBody m problems) = problems"
| "problems_of b = []"

definition ok_code :: "nat \<Rightarrow> bool" where
  "ok_code n \<longleftrightarrow> 200 \<le> n \<and> n \<le> 299"

definition received :: "http_reply \<Rightarrow> cause + reply_body" where
  "received r =
     (if \<not> ok_code (code r)
      then Inl (ApiError (or_else (error_of (reply_body r)) (lit ''request failed with '' @ show_nat (code r)))
             (code r) (problems_of (reply_body r)))
      else if code r = 204 then Inr NoBody else Inr (reply_body r))"

definition describe :: "cause \<Rightarrow> js_string" where
  "describe c =
     (case c of
        ApiError m n problems \<Rightarrow>
          (if problems \<noteq> [] then m @ lit '': '' @ join (lit ''; '') problems else m)
      | OtherError m \<Rightarrow> m
      | NotAnError \<Rightarrow> lit ''Something went wrong'')"

section \<open>From the browser to the server\<close>

text \<open>
  What the network does: it may lose a request before it arrives, or lose the answer, with or without a
  timeout.
\<close>

datatype network = Delivered | Lost bool | AnswerLost bool

definition call_server ::
    "network \<Rightarrow> server_config \<Rightarrow> int \<Rightarrow> admin_request \<Rightarrow> js_string option \<Rightarrow> server \<Rightarrow> http_reply fetched \<times> server" where
  "call_server net cfg now req header srv =
     (case net of
        Lost timeout \<Rightarrow> (if timeout then TimedOut else Unreachable, srv)
      | Delivered \<Rightarrow> (let (r, srv') = handle cfg (now, AdminRequest header req) srv in (Answered r, srv'))
      | AnswerLost timeout \<Rightarrow>
          (if timeout then TimedOut else Unreachable, snd (handle cfg (now, AdminRequest header req) srv)))"

definition console_request ::
    "network \<Rightarrow> server_config \<Rightarrow> js_string \<Rightarrow> int \<Rightarrow> admin_request \<Rightarrow> server \<Rightarrow> (cause + reply_body) \<times> server" where
  "console_request net cfg adminToken now req srv =
     (received (forward adminToken (\<lambda>header. fst (call_server net cfg now req header srv))),
      if adminToken = [] then srv else snd (call_server net cfg now req (Some (bearer @ adminToken)) srv))"

text \<open>The codes of the administration routes all carry a body.\<close>

lemma admin_code_has_body: "\<not> null_body_status (code (fst (admin_route cfg now header req srv)))"
  by (cases req)
    (auto simp: admin_route_def null_body_status_def reply_with_def publish_route_def api_key_route_def
      create_flag_route_def patch_flag_route_def bad_request_def internal_error_def Let_def
      split: sum.splits prod.splits option.splits db_error.splits compile_error.splits)

lemma console_request_delivered:
  assumes "adminToken \<noteq> []"
  shows "console_request Delivered cfg adminToken now req srv =
    (received (reply_with (code (fst (handle cfg (now, AdminRequest (Some (bearer @ adminToken)) req) srv)))
        (reply_body (fst (handle cfg (now, AdminRequest (Some (bearer @ adminToken)) req) srv)))),
     snd (handle cfg (now, AdminRequest (Some (bearer @ adminToken)) req) srv))"
  using assms admin_code_has_body [of cfg now "Some (bearer @ adminToken)" req srv]
  by (simp add: console_request_def forward_def call_server_def split: prod.splits) (auto simp: Let_def split: prod.splits)

lemma lost_reply:
  assumes "adminToken = [] \<or> net \<noteq> Delivered"
  obtains m n where "forward adminToken (\<lambda>header. fst (call_server net cfg now req header srv)) = reply_with n (ErrorBody m)"
    and "n \<in> {502, 503}"
proof (cases "adminToken = []")
  case True
  then show ?thesis using that by (simp add: forward_def)
next
  case False
  with assms obtain timeout where "net = Lost timeout \<or> net = AnswerLost timeout" by (cases net) auto
  with False show ?thesis using that by (cases timeout) (auto simp: forward_def call_server_def)
qed

lemma received_error: "n \<in> {502, 503} \<Longrightarrow> received (reply_with n (ErrorBody m)) = Inl (ApiError m n [])"
  by (auto simp: received_def ok_code_def reply_with_def or_else_def)

lemma lost_request:
  assumes "adminToken = [] \<or> net \<noteq> Delivered"
  shows "\<exists>m n. fst (console_request net cfg adminToken now req srv) = Inl (ApiError m n []) \<and> n \<in> {502, 503}"
proof -
  obtain m n where r: "forward adminToken (\<lambda>header. fst (call_server net cfg now req header srv)) = reply_with n (ErrorBody m)"
    and n: "n \<in> {502, 503}" using lost_reply [OF assms] .
  from received_error [OF n, of m] n show ?thesis by (simp add: console_request_def r) 
qed

lemma console_success:
  assumes ok: "fst (console_request net cfg adminToken now req srv) = Inr body"
  shows "net = Delivered \<and> adminToken \<noteq> []
      \<and> ok_code (code (fst (handle cfg (now, AdminRequest (Some (bearer @ adminToken)) req) srv)))
      \<and> body = reply_body (fst (handle cfg (now, AdminRequest (Some (bearer @ adminToken)) req) srv))
      \<and> snd (console_request net cfg adminToken now req srv)
          = snd (handle cfg (now, AdminRequest (Some (bearer @ adminToken)) req) srv)"
proof -
  have token: "adminToken \<noteq> []" and net: "net = Delivered"
    using ok lost_request [of adminToken net cfg now req srv] by (metis Inr_Inl_False)+
  have "code (fst (handle cfg (now, AdminRequest (Some (bearer @ adminToken)) req) srv)) \<noteq> 204"
    using admin_code_has_body [of cfg now "Some (bearer @ adminToken)" req srv] by (auto simp: null_body_status_def)
  then show ?thesis
    using ok console_request_delivered [OF token, of cfg now req srv] token net
    by (auto simp: received_def reply_with_def split: if_splits)
qed

text \<open>
  C28: the console reports nothing that the server did not answer: a request that succeeds in the browser
  was answered with a success code and that very content, under the token of the console and with the
  state of the server that follows; and without a token, or when the request is lost, the server is as
  it was and the browser is told of a failure of the console, not of the server.
\<close>

theorem console_reports_what_was_answered:
  "(fst (console_request net cfg adminToken now req srv) = Inr body \<longrightarrow>
      net = Delivered \<and> adminToken \<noteq> []
      \<and> ok_code (code (fst (handle cfg (now, AdminRequest (Some (bearer @ adminToken)) req) srv)))
      \<and> body = reply_body (fst (handle cfg (now, AdminRequest (Some (bearer @ adminToken)) req) srv))
      \<and> snd (console_request net cfg adminToken now req srv)
          = snd (handle cfg (now, AdminRequest (Some (bearer @ adminToken)) req) srv))
   \<and> (adminToken = [] \<or> (\<exists>timeout. net = Lost timeout) \<longrightarrow>
      snd (console_request net cfg adminToken now req srv) = srv
      \<and> (\<exists>m n. fst (console_request net cfg adminToken now req srv) = Inl (ApiError m n []) \<and> n \<in> {502, 503}))"
proof (intro conjI impI)
  assume "fst (console_request net cfg adminToken now req srv) = Inr body"
  from console_success [OF this] show "net = Delivered" "adminToken \<noteq> []"
    "ok_code (code (fst (handle cfg (now, AdminRequest (Some (bearer @ adminToken)) req) srv)))"
    "body = reply_body (fst (handle cfg (now, AdminRequest (Some (bearer @ adminToken)) req) srv))"
    "snd (console_request net cfg adminToken now req srv)
      = snd (handle cfg (now, AdminRequest (Some (bearer @ adminToken)) req) srv)"
    by blast+
next
  assume none: "adminToken = [] \<or> (\<exists>timeout. net = Lost timeout)"
  then show "snd (console_request net cfg adminToken now req srv) = srv"
    by (auto simp: console_request_def call_server_def)
  show "\<exists>m n. fst (console_request net cfg adminToken now req srv) = Inl (ApiError m n []) \<and> n \<in> {502, 503}"
    using none by (intro lost_request) auto
qed

theorem console_reports_what_was_answered_witness:
  "\<exists>ts. fst (console_request Delivered example_config (lit ''secret'') 0 ListTenants example_server) = Inr (TenantsBody ts)
     \<and> TenantsBody ts = reply_body (fst (handle example_config (0, AdminRequest (Some (bearer @ lit ''secret'')) ListTenants) example_server))
     \<and> snd (console_request (Lost True) example_config (lit ''secret'') 0 ListTenants example_server) = example_server"
proof -
  have "requireAdmin example_config (Some (bearer @ lit ''secret''))"
    by (simp add: requireAdmin_def example_config_def lit_def)
  then have "fst (console_request Delivered example_config (lit ''secret'') 0 ListTenants example_server)
      = Inr (TenantsBody (listTenants (sc_collate example_config) (sv_db example_server)))"
    by (simp add: console_request_def forward_def call_server_def admin_route_def lit_def null_body_status_def
      received_def ok_code_def reply_with_def)
  with console_reports_what_was_answered [of Delivered example_config "lit ''secret''" 0 ListTenants example_server]
    console_reports_what_was_answered [of "Lost True" example_config "lit ''secret''" 0 ListTenants example_server]
  show ?thesis by blast
qed

section \<open>A successful update\<close>

lemma read_cong:
  assumes "db_flags db' = db_flags db" "db_configs db' = db_configs db"
  shows "flags_in db' tenant env = flags_in db tenant env" "getFlag db' tenant env key = getFlag db tenant env key"
    "listFlags collate db' tenant env = listFlags collate db tenant env"
    "has_config db' tenant env key = has_config db tenant env key"
  using assms by (simp_all add: flags_in_def getFlag_def listFlags_def has_config_def)

lemma audit_keeps:
  "writeAudit now a db = (Inr (), db') \<Longrightarrow> db_flags db' = db_flags db \<and> db_configs db' = db_configs db"
  by (auto simp: writeAudit_def insert_audit_def split: if_splits)

lemma patch_flag_route_success:
  assumes "patch_flag_route cfg now key req srv = (r, srv')" "ok_code (code r)"
    and "uq_tenantId req = Some tenant" "uq_environmentId req = Some env"
  shows "\<exists>previous audit.
    updateFlagConfig now \<lparr>uf_tenantId = tenant, uf_environmentId = env, uf_key = key, uf_enabled = uq_enabled req,
       uf_defaultVariationKey = uq_defaultVariationKey req, uf_offVariationKey = uq_offVariationKey req,
       uf_rules = uq_rules req\<rparr> (sv_db srv) = (Some previous, fst audit)
    \<and> writeAudit now (snd audit) (fst audit) = (Inr (), sv_db srv')
    \<and> reply_body r = FlagBody (getFlag (sv_db srv') tenant env key)"
  using assms
  by (fastforce simp: patch_flag_route_def ok_code_def reply_with_def bad_request_def internal_error_def missing_def
    required_def Let_def split: if_splits option.splits prod.splits sum.splits)

lemma console_patch_succeeds:
  assumes "console_request net cfg adminToken now (PatchFlagRequest key req) srv = (Inr body, srv')"
    and "uq_tenantId req = Some tenant" "uq_environmentId req = Some env"
  obtains previous where "getFlag (sv_db srv) tenant env key = Some previous"
    and "flags_in (sv_db srv') = flags_in (write_config now
          \<lparr>uf_tenantId = tenant, uf_environmentId = env, uf_key = key, uf_enabled = uq_enabled req,
           uf_defaultVariationKey = uq_defaultVariationKey req, uf_offVariationKey = uq_offVariationKey req,
           uf_rules = uq_rules req\<rparr> previous (sv_db srv))"
    and "getFlag (sv_db srv') = getFlag (write_config now
          \<lparr>uf_tenantId = tenant, uf_environmentId = env, uf_key = key, uf_enabled = uq_enabled req,
           uf_defaultVariationKey = uq_defaultVariationKey req, uf_offVariationKey = uq_offVariationKey req,
           uf_rules = uq_rules req\<rparr> previous (sv_db srv))"
    and "body = FlagBody (getFlag (sv_db srv') tenant env key)"
proof -
  define reply where "reply = handle cfg (now, AdminRequest (Some (bearer @ adminToken)) (PatchFlagRequest key req)) srv"
  have r: "ok_code (code (fst reply))" "body = reply_body (fst reply)" "srv' = snd reply"
    using console_success [of net cfg adminToken now "PatchFlagRequest key req" srv body] assms(1)
    by (simp_all add: reply_def)
  define inp where "inp = \<lparr>uf_tenantId = tenant, uf_environmentId = env, uf_key = key, uf_enabled = uq_enabled req,
    uf_defaultVariationKey = uq_defaultVariationKey req, uf_offVariationKey = uq_offVariationKey req,
    uf_rules = uq_rules req\<rparr>"
  have "reply = patch_flag_route cfg now key req srv"
    using r(1) by (auto simp: reply_def admin_route_def reply_with_def ok_code_def split: if_splits)
  then have "patch_flag_route cfg now key req srv = (fst reply, srv')" using r(3) by simp
  from patch_flag_route_success [OF this r(1) assms(2,3)] obtain previous audit where
      up: "updateFlagConfig now inp (sv_db srv) = (Some previous, fst audit)"
        "writeAudit now (snd audit) (fst audit) = (Inr (), sv_db srv')"
      and body: "body = FlagBody (getFlag (sv_db srv') tenant env key)"
    unfolding inp_def r(2) by blast
  from up(1) have "getFlag (sv_db srv) tenant env key = Some previous" "fst audit = write_config now inp previous (sv_db srv)"
    by (auto simp: updateFlagConfig_def inp_def split: option.splits)
  then have p: "getFlag (sv_db srv) tenant env key = Some previous"
      "writeAudit now (snd audit) (write_config now inp previous (sv_db srv)) = (Inr (), sv_db srv')"
    using up(2) by simp_all
  have "db_flags (sv_db srv') = db_flags (write_config now inp previous (sv_db srv))"
    "db_configs (sv_db srv') = db_configs (write_config now inp previous (sv_db srv))"
    using audit_keeps [OF p(2)] by simp_all
  from read_cong [OF this] have "flags_in (sv_db srv') = flags_in (write_config now inp previous (sv_db srv))"
      "getFlag (sv_db srv') = getFlag (write_config now inp previous (sv_db srv))"
    by (auto simp: fun_eq_iff)
  with p(1) body that [of previous] show ?thesis unfolding inp_def by blast
qed

text \<open>An update that the server of the example accepts.\<close>

lemma example_patch_succeeds:
  assumes "uq_tenantId req = Some (lit ''t1'')" "uq_environmentId req = Some (lit ''e1'')"
  shows "\<exists>body srv'. console_request Delivered example_config (lit ''secret'') 0 (PatchFlagRequest (lit ''checkout'') req) example_server
    = (Inr body, srv')"
proof -
  have admin: "requireAdmin example_config (Some (bearer @ lit ''secret''))"
    by (simp add: requireAdmin_def example_config_def lit_def)
  have "getFlag example_db (lit ''t1'') (lit ''e1'') (lit ''checkout'') \<noteq> None"
    by (simp add: getFlag_def flags_in_def left_join_def example_db_def)
  then obtain previous where previous: "getFlag example_db (lit ''t1'') (lit ''e1'') (lit ''checkout'') = Some previous" by blast
  have exists: "tenant_exists (write_config now inp p example_db) (lit ''t1'')"
    "environment_exists (write_config now inp p example_db) (lit ''e1'')" for now inp p
    by (simp_all add: tenant_exists_def environment_exists_def write_config_def Let_def example_db_def)
  have texts: "lit ''t1'' \<noteq> []" "lit ''e1'' \<noteq> []" by (simp_all add: lit_def)
  have "\<exists>d srv'. patch_flag_route example_config 0 (lit ''checkout'') req example_server = (reply_with 200 (FlagBody d), srv')"
    using previous exists assms texts
    by (simp add: patch_flag_route_def missing_def required_def updateFlagConfig_def example_server_def writeAudit_def
      insert_audit_def Let_def reply_with_def)
  then show ?thesis
    using console_request_delivered [of "lit ''secret''" example_config 0 "PatchFlagRequest (lit ''checkout'') req" example_server]
      admin by (auto simp: admin_route_def received_def reply_with_def ok_code_def)
qed

end
