(* ===== verification/Flag_List.thy ===== *)
theory Flag_List
  imports Console_Api
begin

text \<open>
  \<open>apps/console/src/components/FlagList.tsx\<close>: the state of the page, its handlers and the effects that
  React runs after a change of what they depend on. An event is a click, an answer that arrives, or a
  frame of the stream; a step gives the new state and the requests it sends. Answers arrive in any
  order, each to the handler that was waiting for it.
\<close>

record flag_list =
  fl_tenants :: "tenant_row list"
  fl_environments :: "environment_summary list"
  fl_tenantId :: js_string
  fl_environmentId :: js_string
  fl_flags :: "flag_summary list"
  fl_filter :: js_string
  fl_error :: "js_string option"
  fl_busy :: bool
  fl_loading :: bool
  fl_publishNote :: "js_string option"

definition new_flag_list :: flag_list where
  "new_flag_list = \<lparr>fl_tenants = [], fl_environments = [], fl_tenantId = [], fl_environmentId = [], fl_flags = [],
     fl_filter = [], fl_error = None, fl_busy = False, fl_loading = True, fl_publishNote = None\<rparr>"

datatype list_event =
    TenantsArrived "cause + tenant_row list"
  | EnvironmentsArrived "cause + environment_summary list"
  | FlagsArrived "cause + flag_summary list"
  | StreamFrame
  | ChooseTenant js_string
  | ChooseEnvironment js_string
  | TypeFilter js_string
  | ToggleClicked flag_summary bool
  | ToggleSettled flag_summary "cause option"
  | PublishClicked
  | PublishSettled "cause + js_number \<times> bool"

definition first_id :: "('a \<Rightarrow> js_string) \<Rightarrow> 'a list \<Rightarrow> js_string" where
  "first_id f xs = (case xs of [] \<Rightarrow> [] | x # ys \<Rightarrow> f x)"

definition set_enabled :: "js_string \<Rightarrow> bool \<Rightarrow> flag_summary list \<Rightarrow> flag_summary list" where
  "set_enabled key b = map (\<lambda>s. if fs_key s = key then s\<lparr>fs_enabled := b\<rparr> else s)"

definition current_environment :: "flag_list \<Rightarrow> environment_summary option" where
  "current_environment s = find (\<lambda>e. es_id e = fl_environmentId s) (fl_environments s)"

definition published_note :: "js_number \<Rightarrow> bool \<Rightarrow> js_string" where
  "published_note v pushed =
     (if pushed then lit ''Published v'' @ number_to_string v @ lit '' and pushed to the data plane.''
      else lit ''Published v'' @ number_to_string v @
        lit ''. The data plane did not confirm the push; SDKs will reconcile by polling.'')"

definition toggle_request :: "flag_list \<Rightarrow> flag_summary \<Rightarrow> bool \<Rightarrow> admin_request" where
  "toggle_request s f b = PatchFlagRequest (fs_key f)
     \<lparr>uq_tenantId = Some (fl_tenantId s), uq_environmentId = Some (fl_environmentId s), uq_enabled = Some b,
      uq_defaultVariationKey = None, uq_offVariationKey = None, uq_rules = JUndefined\<rparr>"

text \<open>The handlers. A disabled control has none.\<close>

fun list_handler :: "list_event \<Rightarrow> flag_list \<Rightarrow> flag_list \<times> admin_request list" where
  "list_handler (TenantsArrived (Inr ts)) s =
     (s\<lparr>fl_tenants := ts, fl_tenantId := (if fl_tenantId s = [] then first_id t_id ts else fl_tenantId s),
        fl_loading := False\<rparr>, [])"
| "list_handler (TenantsArrived (Inl c)) s = (s\<lparr>fl_error := Some (describe c), fl_loading := False\<rparr>, [])"
| "list_handler (EnvironmentsArrived (Inr es)) s =
     (s\<lparr>fl_environments := es,
        fl_environmentId := (if \<exists>e \<in> set es. es_id e = fl_environmentId s then fl_environmentId s else first_id es_id es)\<rparr>, [])"
| "list_handler (EnvironmentsArrived (Inl c)) s = (s\<lparr>fl_error := Some (describe c)\<rparr>, [])"
| "list_handler (FlagsArrived (Inr fs)) s = (s\<lparr>fl_flags := fs\<rparr>, [])"
| "list_handler (FlagsArrived (Inl c)) s = (s\<lparr>fl_error := Some (describe c)\<rparr>, [])"
| "list_handler StreamFrame s = (s, [])"
| "list_handler (ChooseTenant t) s = (s\<lparr>fl_tenantId := t\<rparr>, [])"
| "list_handler (ChooseEnvironment e) s = (s\<lparr>fl_environmentId := e\<rparr>, [])"
| "list_handler (TypeFilter x) s = (s\<lparr>fl_filter := x\<rparr>, [])"
| "list_handler (ToggleClicked f b) s =
     (if fl_busy s then (s, [])
      else (s\<lparr>fl_busy := True, fl_error := None, fl_flags := set_enabled (fs_key f) b (fl_flags s)\<rparr>, [toggle_request s f b]))"
| "list_handler (ToggleSettled f None) s = (s\<lparr>fl_busy := False\<rparr>, [])"
| "list_handler (ToggleSettled f (Some c)) s =
     (s\<lparr>fl_flags := set_enabled (fs_key f) (fs_enabled f) (fl_flags s), fl_error := Some (describe c), fl_busy := False\<rparr>, [])"
| "list_handler PublishClicked s =
     (case current_environment s of
        None \<Rightarrow> (s, [])
      | Some e \<Rightarrow>
          (if fl_busy s then (s, [])
           else (s\<lparr>fl_busy := True, fl_error := None, fl_publishNote := None\<rparr>,
             [PublishRequest \<lparr>pq_tenantId = Some (fl_tenantId s), pq_environmentId = Some (fl_environmentId s),
                pq_environmentKey = Some (es_key e), pq_actorEmail = None\<rparr>])))"
| "list_handler (PublishSettled (Inr (v, pushed))) s = (s\<lparr>fl_publishNote := Some (published_note v pushed), fl_busy := False\<rparr>, [])"
| "list_handler (PublishSettled (Inl c)) s = (s\<lparr>fl_error := Some (describe c), fl_busy := False\<rparr>, [])"

text \<open>The effects: the environments of a chosen tenant, and the flags of a chosen environment.\<close>

definition reload_request :: "flag_list \<Rightarrow> admin_request list" where
  "reload_request s =
     (if fl_tenantId s = [] \<or> fl_environmentId s = [] then []
      else [ListFlags (Some (fl_tenantId s)) (Some (fl_environmentId s))])"

definition list_effects :: "list_event \<Rightarrow> flag_list \<Rightarrow> flag_list \<Rightarrow> admin_request list" where
  "list_effects ev old new =
     (if fl_tenantId new \<noteq> fl_tenantId old \<and> fl_tenantId new \<noteq> [] then [ListEnvironments (Some (fl_tenantId new))] else []) @
     (if fl_tenantId new \<noteq> fl_tenantId old \<or> fl_environmentId new \<noteq> fl_environmentId old \<or> ev = StreamFrame
      then reload_request new else [])"

definition list_step :: "list_event \<Rightarrow> flag_list \<Rightarrow> flag_list \<times> admin_request list" where
  "list_step ev s = (let (s', sent) = list_handler ev s in (s', sent @ list_effects ev s s'))"

definition list_run :: "list_event list \<Rightarrow> flag_list \<Rightarrow> flag_list" where
  "list_run evs s = fold (\<lambda>ev s. fst (list_step ev s)) evs s"

text \<open>The rows that are shown.\<close>

definition visible_flags :: "(js_string \<Rightarrow> js_string) \<Rightarrow> flag_list \<Rightarrow> flag_summary list" where
  "visible_flags toLowerCase s =
     filter (\<lambda>f. has_substring (toLowerCase (fs_key f)) (toLowerCase (fl_filter s))
        \<or> has_substring (toLowerCase (fs_description f)) (toLowerCase (fl_filter s))) (fl_flags s)"

section \<open>The switch shows what the server holds\<close>

lemma insert_by_map: "insert_by le key (h x) (map h xs) = map h (insert_by le (key \<circ> h) x xs)"
  by (induction xs) auto

lemma order_by_map: "order_by le key (map h xs) = map h (order_by le (key \<circ> h) xs)"
  by (induction xs) (simp_all add: order_by_def insert_by_map [unfolded o_def])

definition timeless :: "flag_summary \<Rightarrow> flag_summary" where
  "timeless s = s\<lparr>fs_updatedAt := []\<rparr>"

text \<open>What an update that only sets \<open>enabled\<close> does to the list that the server gives.\<close>

lemma listFlags_toggled:
  assumes ok: "db_ok db"
    and inp: "inp = \<lparr>uf_tenantId = tenant, uf_environmentId = env, uf_key = key, uf_enabled = Some b,
      uf_defaultVariationKey = None, uf_offVariationKey = None, uf_rules = JUndefined\<rparr>"
    and flags: "flags_in db' = flags_in (write_config now inp previous db)"
  shows "map timeless (listFlags collate db' tenant env) 
    = map timeless (if has_config db tenant env key then set_enabled key b (listFlags collate db tenant env)
        else listFlags collate db tenant env)"
proof -
  let ?h = "\<lambda>(f, c). (if f_tenant f = tenant \<and> f_key f = key then f\<lparr>f_updated_at := now\<rparr> else f,
      if f_key f = key then map_option (updated_config inp previous) c else c)"
  let ?s = "\<lambda>(f, c). \<lparr>fs_key = f_key f, fs_description = f_description f, fs_enabled = coalesce c_enabled False c,
      fs_variations = f_variations f, fs_updatedAt = toISOString (f_updated_at f)\<rparr>"
  have rows: "flags_in db' tenant env = map ?h (flags_in db tenant env)"
    unfolding flags flags_in_write [OF ok] by (simp add: inp)
  have keys: "(\<lambda>(f, c). f_key f) \<circ> ?h = (\<lambda>(f, c). f_key f)" by (rule ext) auto
  have row: "timeless (?s (?h fc)) = timeless (if has_config db tenant env key
      then (\<lambda>s. if fs_key s = key then s\<lparr>fs_enabled := b\<rparr> else s) (?s fc) else ?s fc)"
    if "fc \<in> set (flags_in db tenant env)" for fc
  proof -
    obtain f c where fc: "fc = (f, c)" by (rule prod.exhaust)
    have mem: "(f, c) \<in> set (flags_in db tenant env)" using that fc by simp
    show ?thesis
    proof (cases "f_key f = key")
      case True
      with has_config_row [OF ok mem] in_flags_in [OF mem] show ?thesis
        by (cases c) (simp_all add: fc timeless_def coalesce_def updated_config_def inp or_else_def)
    next
      case False
      then show ?thesis by (simp add: fc)
    qed
  qed
  show ?thesis
    unfolding listFlags_def rows order_by_map keys set_enabled_def map_map
    using row by (cases "has_config db tenant env key") (simp_all add: o_def)
qed

lemma listFlags_keys_unique:
  assumes "db_ok db" "f \<in> set (listFlags collate db tenant env)" "g \<in> set (listFlags collate db tenant env)" "fs_key f = fs_key g"
  shows "f = g"
proof -
  let ?s = "\<lambda>(f, c). \<lparr>fs_key = f_key f, fs_description = f_description f, fs_enabled = coalesce c_enabled False c,
      fs_variations = f_variations f, fs_updatedAt = toISOString (f_updated_at f)\<rparr>"
  have unique: "keys_unique db" using assms(1) by (simp add: db_ok_def)
  obtain h k where h: "f = ?s h" "h \<in> set (flags_in db tenant env)" and k: "g = ?s k" "k \<in> set (flags_in db tenant env)"
    using assms(2,3) by (auto simp: listFlags_def)
  have "fst h = fst k"
    using h k assms(4) in_flags_in [of "fst h" "snd h" db tenant env] in_flags_in [of "fst k" "snd k" db tenant env] unique
    by (auto simp: keys_unique_def distinct_map inj_on_def split_beta)
  moreover have "\<forall>x \<in> set (flags_in db tenant env).
      snd x = find (\<lambda>c. c_flag c = f_id (fst x) \<and> c_environment c = env) (db_configs db)"
    unfolding flags_in_unique [OF unique] by simp
  ultimately have "h = k" using h(2) k(2) by (simp add: prod_eq_iff)
  with h k show ?thesis by simp
qed

lemma set_enabled_rows:
  assumes "\<And>g. g \<in> set fs \<Longrightarrow> fs_key g = fs_key f \<Longrightarrow> g = f"
  shows "set_enabled (fs_key f) (fs_enabled f) fs = fs"
  unfolding set_enabled_def using assms by (intro map_idI) (auto dest: assms)

lemma timeless_set_enabled:
  assumes "f \<in> set fs" "map timeless (set_enabled (fs_key f) b fs) = map timeless fs"
  shows "fs_enabled f = b"
proof -
  have "timeless (f\<lparr>fs_enabled := b\<rparr>) = timeless f" using assms by (auto simp: set_enabled_def)
  then have "fs_enabled (timeless (f\<lparr>fs_enabled := b\<rparr>)) = fs_enabled (timeless f)" by (rule arg_cong)
  then show ?thesis by (simp add: timeless_def)
qed

text \<open>
  C30: the switch of a flag follows the answer: when the list was up to date, the rows after an update that
  succeeds are what the server would now send (timestamps apart) exactly when the environment has a row of
  configuration for the flag, or the switch has not been changed; in an environment that was created
  after the flag there is no such row, and the server still sends the list from before. An update that fails puts
  the rows back as they were, with a message; it says nothing about the server, which may have taken an
  update whose answer was lost.
\<close>

theorem switch_shows_what_the_server_holds:
  assumes "\<not> fl_busy s" and "fl_flags s = listFlags (sc_collate cfg) (sv_db srv) (fl_tenantId s) (fl_environmentId s)"
    and "f \<in> set (fl_flags s)" and "db_ok (sv_db srv)"
    and "list_step (ToggleClicked f b) s = (s', [req])"
    and "console_request net cfg adminToken now req srv = (outcome, srv')"
  shows "(outcome \<in> range Inr \<longrightarrow>
      (let shown = map timeless (fl_flags (fst (list_step (ToggleSettled f None) s')));
           held = map timeless (listFlags (sc_collate cfg) (sv_db srv') (fl_tenantId s) (fl_environmentId s));
           configured = has_config (sv_db srv) (fl_tenantId s) (fl_environmentId s) (fs_key f) in
        (shown = held \<longleftrightarrow> configured \<or> fs_enabled f = b) \<and> (\<not> configured \<longrightarrow> held = map timeless (fl_flags s))))
    \<and> (\<forall>c. outcome = Inl c \<longrightarrow>
      fl_flags (fst (list_step (ToggleSettled f (Some c)) s')) = fl_flags s
      \<and> fl_error (fst (list_step (ToggleSettled f (Some c)) s')) = Some (describe c))"
proof (intro conjI allI impI)
  have s': "fl_flags s' = set_enabled (fs_key f) b (fl_flags s)" "fl_tenantId s' = fl_tenantId s"
    "fl_environmentId s' = fl_environmentId s" and req: "req = toggle_request s f b"
    using assms(1,5) by (auto simp: list_step_def list_effects_def)
  have same: "g = f" if "g \<in> set (fl_flags s)" "fs_key g = fs_key f" for g
    using that assms(2,3) listFlags_keys_unique [OF assms(4)] by (metis)
  show "let shown = map timeless (fl_flags (fst (list_step (ToggleSettled f None) s')));
           held = map timeless (listFlags (sc_collate cfg) (sv_db srv') (fl_tenantId s) (fl_environmentId s));
           configured = has_config (sv_db srv) (fl_tenantId s) (fl_environmentId s) (fs_key f) in
        (shown = held \<longleftrightarrow> configured \<or> fs_enabled f = b) \<and> (\<not> configured \<longrightarrow> held = map timeless (fl_flags s))"
    if ok: "outcome \<in> range Inr"
  proof -
    obtain body where "outcome = Inr body" using ok by blast
    then obtain previous where "flags_in (sv_db srv') = flags_in (write_config now
        \<lparr>uf_tenantId = fl_tenantId s, uf_environmentId = fl_environmentId s, uf_key = fs_key f, uf_enabled = Some b,
         uf_defaultVariationKey = None, uf_offVariationKey = None, uf_rules = JUndefined\<rparr> previous (sv_db srv))"
      using console_patch_succeeds [OF assms(6) [unfolded req toggle_request_def \<open>outcome = Inr body\<close>]] by fastforce
    from listFlags_toggled [OF assms(4) refl this, of "sc_collate cfg", folded assms(2)]
      timeless_set_enabled [OF assms(3), of b] set_enabled_rows [OF same]
    show ?thesis by (auto simp: list_step_def s' Let_def)
  qed
  fix c
  have "set_enabled (fs_key f) (fs_enabled f) (set_enabled (fs_key f) b (fl_flags s)) = fl_flags s"
    unfolding set_enabled_def map_map by (rule map_idI) (auto dest: same)
  then show "fl_flags (fst (list_step (ToggleSettled f (Some c)) s')) = fl_flags s"
    by (simp add: list_step_def s')
  show "fl_error (fst (list_step (ToggleSettled f (Some c)) s')) = Some (describe c)" by (simp add: list_step_def)
qed

definition example_list :: flag_list where
  "example_list = new_flag_list\<lparr>fl_tenantId := lit ''t1'', fl_environmentId := lit ''e1'',
     fl_flags := listFlags by_text example_db (lit ''t1'') (lit ''e1'')\<rparr>"

text \<open>The witness: the switch of a flag is turned off, once with an answer and once without.\<close>

theorem switch_shows_what_the_server_holds_witness:
  "\<exists>f s' req body srv'. f \<in> set (fl_flags example_list) \<and> list_step (ToggleClicked f False) example_list = (s', [req])
     \<and> console_request Delivered example_config (lit ''secret'') 0 req example_server = (Inr body, srv')
     \<and> map timeless (fl_flags (fst (list_step (ToggleSettled f None) s')))
        = map timeless (listFlags by_text (sv_db srv') (lit ''t1'') (lit ''e1''))
     \<and> console_request (Lost True) example_config (lit ''secret'') 0 req example_server
        = (Inl (ApiError (lit ''control plane timed out'') 502 []), example_server)
     \<and> fl_flags (fst (list_step (ToggleSettled f (Some (ApiError (lit ''control plane timed out'') 502 []))) s'))
        = fl_flags example_list"
proof -
  have "\<exists>f \<in> set (listFlags by_text example_db (lit ''t1'') (lit ''e1'')). fs_key f = lit ''checkout''"
    by (simp add: listFlags_def flags_in_def left_join_def example_db_def)
  then obtain f where f: "f \<in> set (fl_flags example_list)" "fs_key f = lit ''checkout''"
    by (auto simp: example_list_def)
  define s' where "s' = fst (list_step (ToggleClicked f False) example_list)"
  have step: "list_step (ToggleClicked f False) example_list = (s', [toggle_request example_list f False])"
    by (simp add: s'_def list_step_def list_effects_def example_list_def new_flag_list_def)
  have lost: "console_request (Lost True) example_config (lit ''secret'') 0 req example_server
      = (Inl (ApiError (lit ''control plane timed out'') 502 []), example_server)" for req
    by (simp add: console_request_def forward_def call_server_def received_def reply_with_def ok_code_def or_else_def lit_def)
  obtain body srv' where taken: "console_request Delivered example_config (lit ''secret'') 0
      (toggle_request example_list f False) example_server = (Inr body, srv')"
    using example_patch_succeeds f(2) by (fastforce simp: toggle_request_def example_list_def)
  have start: "\<not> fl_busy example_list" "fl_flags example_list
      = listFlags (sc_collate example_config) (sv_db example_server) (fl_tenantId example_list) (fl_environmentId example_list)"
    "db_ok (sv_db example_server)"
    using example_db_ok by (simp_all add: example_list_def new_flag_list_def example_config_def example_server_def)
  have "has_config (sv_db example_server) (fl_tenantId example_list) (fl_environmentId example_list) (fs_key f)"
    by (simp add: has_config_def example_db_def example_server_def example_list_def f(2))
  then have "map timeless (fl_flags (fst (list_step (ToggleSettled f None) s')))
        = map timeless (listFlags by_text (sv_db srv') (lit ''t1'') (lit ''e1''))"
    using switch_shows_what_the_server_holds [OF start(1,2) f(1) start(3) step taken]
    by (simp add: Let_def example_list_def example_config_def)
  moreover have "fl_flags (fst (list_step (ToggleSettled f (Some (ApiError (lit ''control plane timed out'') 502 []))) s'))
      = fl_flags example_list"
    using switch_shows_what_the_server_holds [OF start(1,2) f(1) start(3) step lost] by blast
  ultimately show ?thesis using f(1) step lost taken by blast
qed

text \<open>
  An answer is taken whatever it was asked for: flags of the environment that was shown before arrive
  after another was chosen, and are shown, and toggled, as those of the new one.
\<close>

lemma stale_flags_shown:
  assumes "fl_tenantId s = tenant" "\<not> fl_busy s" "f \<in> set old_flags"
  shows "fl_flags (list_run [ChooseEnvironment other, FlagsArrived (Inr new_flags), FlagsArrived (Inr old_flags)] s) = old_flags"
    and "\<exists>body. snd (list_step (ToggleClicked f b)
        (list_run [ChooseEnvironment other, FlagsArrived (Inr new_flags), FlagsArrived (Inr old_flags)] s))
      = [PatchFlagRequest (fs_key f) body] \<and> uq_environmentId body = Some other"
  using assms by (simp_all add: list_run_def list_step_def list_effects_def toggle_request_def)

end
