(* ===== verification/Js_Text.thy ===== *)
theory Js_Text
  imports Prelude
begin

text \<open>
  \<open>trim\<close>, \<open>trimStart\<close>, and \<open>split\<close> with a separator of one code unit, which the value fields of the
  console and the migration and row texts of the control plane are read with.
\<close>

definition is_white :: "16 word \<Rightarrow> bool" where
  "is_white c \<longleftrightarrow>
     0x9 \<le> c \<and> c \<le> 0xD \<or> 0x2000 \<le> c \<and> c \<le> 0x200A \<or>
     c \<in> {0x20, 0xA0, 0x1680, 0x2028, 0x2029, 0x202F, 0x205F, 0x3000, 0xFEFF}"

definition trim_start :: "js_string \<Rightarrow> js_string" where
  "trim_start s = dropWhile is_white s"

definition js_trim :: "js_string \<Rightarrow> js_string" where
  "js_trim s = rev (dropWhile is_white (rev (trim_start s)))"

fun js_split :: "16 word \<Rightarrow> js_string \<Rightarrow> js_string list" where
  "js_split c [] = [[]]"
| "js_split c (d # s) =
     (if d = c then [] # js_split c s
      else case js_split c s of [] \<Rightarrow> [[d]] | p # ps \<Rightarrow> (d # p) # ps)"

lemma js_split_not_Nil [simp]: "js_split c s \<noteq> []"
  by (cases s) (auto split: list.split)

lemma js_split_plain: "c \<notin> set s \<Longrightarrow> js_split c s = [s]"
  by (induction s) auto

lemma js_split_append: "js_split c (s @ c # t) = js_split c s @ js_split c t"
proof (induction s)
  case (Cons d s)
  then show ?case by (cases "js_split c s") auto
qed simp

text \<open>Splitting takes apart what joining puts together, and the other way round.\<close>

lemma js_split_join:
  "ss \<noteq> [] \<Longrightarrow> \<forall>s \<in> set ss. c \<notin> set s \<Longrightarrow> js_split c (join [c] ss) = ss"
  by (induction ss rule: induct_list012) (simp_all add: js_split_plain js_split_append)

lemma join_append: "ss \<noteq> [] \<Longrightarrow> ts \<noteq> [] \<Longrightarrow> join sep (ss @ ts) = join sep ss @ sep @ join sep ts"
  by (induction ss rule: induct_list012) (auto simp: neq_Nil_conv)

lemma join_js_split: "join [c] (js_split c s) = s"
proof (induction s)
  case (Cons d s)
  then show ?case by (cases "js_split c s" rule: remdups_adj.cases) auto
qed simp

text \<open>A text without white space at its ends is not trimmed.\<close>

definition trimmed :: "js_string \<Rightarrow> bool" where
  "trimmed s \<longleftrightarrow> s \<noteq> [] \<and> \<not> is_white (hd s) \<and> \<not> is_white (last s)"

lemma js_trim_trimmed: "trimmed s \<Longrightarrow> js_trim s = s"
proof -
  assume c: "trimmed s"
  then have "dropWhile is_white s = s" by (cases s) (simp_all add: trimmed_def)
  moreover have "dropWhile is_white (rev s) = rev s"
    using c by (cases s rule: rev_cases) (simp_all add: trimmed_def)
  ultimately show ?thesis by (simp add: js_trim_def trim_start_def)
qed

lemma js_trim_white: "is_white c \<Longrightarrow> js_trim (c # s) = js_trim s"
  by (simp add: js_trim_def trim_start_def)

lemma js_trim_Nil [simp]: "js_trim [] = []"
  by (simp add: js_trim_def trim_start_def)

end
