(* ===== verification/Rule_Builder.thy ===== *)
theory Rule_Builder
  imports Ruleset Js_Text "HOL-Library.Sublist"
begin

text \<open>
  \<open>apps/console/src/components/RuleBuilder.tsx\<close>: the rule tree editor. Its handlers are the edits, its
  state is the tree and the draft texts of the value fields; which control a node offers is part of the
  model, how it is rendered is not. React keeps the draft of a field by the position of the field.
\<close>

section \<open>Paths\<close>

definition emptyCondition :: rule_node where
  "emptyCondition = Condition [] Eq [AString []] ServerOnly"

text \<open>A boolean node with its list of children changed; other nodes have none and stay.\<close>

fun on_children :: "(rule_node list \<Rightarrow> rule_node list) \<Rightarrow> rule_node \<Rightarrow> rule_node" where
  "on_children f (AndNode cs) = AndNode (f cs)"
| "on_children f (OrNode cs) = OrNode (f cs)"
| "on_children f (NotNode cs) = NotNode (f cs)"
| "on_children f n = n"

definition map_at :: "nat \<Rightarrow> ('a \<Rightarrow> 'a) \<Rightarrow> 'a list \<Rightarrow> 'a list" where
  "map_at index f xs = map (\<lambda>(i, x). if i = index then f x else x) (enumerate 0 xs)"

definition filter_out :: "nat \<Rightarrow> 'a list \<Rightarrow> 'a list" where
  "filter_out index xs = map snd (filter (\<lambda>(i, x). i \<noteq> index) (enumerate 0 xs))"

fun replaceAt :: "rule_node \<Rightarrow> nat list \<Rightarrow> rule_node \<Rightarrow> rule_node" where
  "replaceAt n [] next' = next'"
| "replaceAt n (index # rest) next' =
     on_children (map_at index (\<lambda>child. replaceAt child rest next')) n"

fun removeAt :: "rule_node \<Rightarrow> nat list \<Rightarrow> rule_node" where
  "removeAt n [] = n"
| "removeAt n [index] = on_children (filter_out index) n"
| "removeAt n (index # rest) = on_children (map_at index (\<lambda>child. removeAt child rest)) n"

text \<open>The node that a \<open>NodeEditor\<close> with this path was given.\<close>

fun children_of :: "rule_node \<Rightarrow> rule_node list" where
  "children_of (AndNode cs) = cs"
| "children_of (OrNode cs) = cs"
| "children_of (NotNode cs) = cs"
| "children_of n = []"

fun node_at :: "rule_node \<Rightarrow> nat list \<Rightarrow> rule_node option" where
  "node_at n [] = Some n"
| "node_at n (index # rest) =
     (if index < length (children_of n) then node_at (children_of n ! index) rest else None)"

section \<open>Value fields\<close>

definition comma :: "16 word" where
  "comma = 0x2C"

definition multi_value :: "operator \<Rightarrow> bool" where
  "multi_value op \<longleftrightarrow> op = In \<or> op = NotIn"

definition parse_values :: "operator \<Rightarrow> js_string \<Rightarrow> attribute_value list" where
  "parse_values op raw =
     (if multi_value op then map AString (filter (\<lambda>part. part \<noteq> []) (map js_trim (js_split comma raw)))
      else [AString raw])"

fun attribute_text :: "attribute_value \<Rightarrow> js_string" where
  "attribute_text (AString s) = s"
| "attribute_text (ANumber n) = number_to_string n"
| "attribute_text (ABoolean b) = bool_to_string b"
| "attribute_text ANull = lit ''null''"
| "attribute_text (AObject s) = s"

definition joined_values :: "operator \<Rightarrow> attribute_value list \<Rightarrow> js_string" where
  "joined_values op vs = join (if multi_value op then lit '', '' else []) (map attribute_text vs)"

section \<open>Edits\<close>

datatype group_kind = AndKind | OrKind | NotKind

datatype edit =
    ChooseSegment js_string
  | ToggleNegate
  | ChooseKind group_kind
  | AddCondition
  | AddGroup
  | AddSegment
  | SetAttribute js_string
  | SetOperator operator
  | SetValues js_string
  | ToggleVisibility
  | RemoveNode

definition OPERATORS :: "operator list" where
  "OPERATORS = [Eq, Neq, In, NotIn, Contains, StartsWith, EndsWith, Matches, Gt, Gte, Lt, Lte, SemverGt, SemverLt]"

fun group_of :: "group_kind \<Rightarrow> rule_node list \<Rightarrow> rule_node" where
  "group_of AndKind cs = AndNode cs"
| "group_of OrKind cs = OrNode cs"
| "group_of NotKind cs = NotNode cs"

fun is_group :: "rule_node \<Rightarrow> bool" where
  "is_group (AndNode cs) = True"
| "is_group (OrNode cs) = True"
| "is_group (NotNode cs) = True"
| "is_group n = False"

text \<open>What a handler passes to \<open>onUpdate\<close>; \<open>None\<close> when the node does not offer the control.\<close>

definition first_segment :: "js_string list \<Rightarrow> js_string" where
  "first_segment available = (case available of [] \<Rightarrow> [] | k # ks \<Rightarrow> k)"

fun edit_condition :: "edit \<Rightarrow> rule_node \<Rightarrow> rule_node option" where
  "edit_condition (SetAttribute a') (Condition a op vs vis) = Some (Condition a' op vs vis)"
| "edit_condition (SetOperator op') (Condition a op vs vis) =
     (if op' \<in> set OPERATORS then Some (Condition a op' vs vis) else None)"
| "edit_condition (SetValues raw) (Condition a op vs vis) = Some (Condition a op (parse_values op raw) vis)"
| "edit_condition ToggleVisibility (Condition a op vs vis) =
     Some (Condition a op vs (if vis = ServerOnly then ClientVisible else ServerOnly))"
| "edit_condition e n = None"

fun edit_segment :: "js_string list \<Rightarrow> edit \<Rightarrow> rule_node \<Rightarrow> rule_node option" where
  "edit_segment available (ChooseSegment k') (SegmentRef k negated) =
     (if k' = [] \<or> k' \<in> set available then Some (SegmentRef k' negated) else None)"
| "edit_segment available ToggleNegate (SegmentRef k negated) = Some (SegmentRef k (\<not> negated))"
| "edit_segment available e n = None"

fun edit_group :: "js_string list \<Rightarrow> nat \<Rightarrow> edit \<Rightarrow> rule_node \<Rightarrow> rule_node option" where
  "edit_group available depth (ChooseKind kind) n = Some (group_of kind (children_of n))"
| "edit_group available depth AddCondition n = Some (on_children (\<lambda>cs. cs @ [emptyCondition]) n)"
| "edit_group available depth AddGroup n =
     (if depth < 8 then Some (on_children (\<lambda>cs. cs @ [AndNode [emptyCondition]]) n) else None)"
| "edit_group available depth AddSegment n =
     Some (on_children (\<lambda>cs. cs @ [SegmentRef (first_segment available) False]) n)"
| "edit_group available depth e n = None"

definition edit_node :: "js_string list \<Rightarrow> nat \<Rightarrow> edit \<Rightarrow> rule_node \<Rightarrow> rule_node option" where
  "edit_node available depth e n =
     (if is_group n then edit_group available depth e n
      else case n of Condition a op vs vis \<Rightarrow> edit_condition e n | _ \<Rightarrow> edit_segment available e n)"

text \<open>The tree that \<open>onChange\<close> is given; an edit that is not offered cannot be made.\<close>

definition edit_tree :: "js_string list \<Rightarrow> nat list \<times> edit \<Rightarrow> rule_node \<Rightarrow> rule_node" where
  "edit_tree available pe tree =
     (let (path, e) = pe in
      case node_at tree path of
        None \<Rightarrow> tree
      | Some n \<Rightarrow>
          if e = RemoveNode then (if path = [] then tree else removeAt tree path)
          else case edit_node available (length path) e n of
            None \<Rightarrow> tree
          | Some n' \<Rightarrow> replaceAt tree path n')"

text \<open>The drafts of the value fields. A field that is no longer rendered loses its state.\<close>

record builder =
  b_tree :: rule_node
  b_drafts :: "(nat list, js_string) js_map"

fun is_condition :: "rule_node \<Rightarrow> bool" where
  "is_condition (Condition a op vs vis) = True"
| "is_condition n = False"

definition rendered :: "rule_node \<Rightarrow> nat list \<Rightarrow> bool" where
  "rendered tree path = (case node_at tree path of None \<Rightarrow> False | Some n \<Rightarrow> is_condition n)"

fun draft_after :: "nat list \<times> edit \<Rightarrow> (nat list, js_string) js_map \<Rightarrow> (nat list, js_string) js_map" where
  "draft_after (path, SetValues raw) drafts = map_set path raw drafts"
| "draft_after (path, SetOperator op) drafts = filter (\<lambda>(p, raw). p \<noteq> path) drafts"
| "draft_after pe drafts = drafts"

definition builder_step :: "js_string list \<Rightarrow> nat list \<times> edit \<Rightarrow> builder \<Rightarrow> builder" where
  "builder_step available pe b =
     (let tree = edit_tree available pe (b_tree b) in
      \<lparr>b_tree = tree, b_drafts = filter (\<lambda>(p, raw). rendered tree p) (draft_after pe (b_drafts b))\<rparr>)"

definition shown_text :: "builder \<Rightarrow> nat list \<Rightarrow> js_string option" where
  "shown_text b path =
     (case node_at (b_tree b) path of
        Some (Condition a op vs vis) \<Rightarrow>
          Some (case map_get (b_drafts b) path of None \<Rightarrow> joined_values op vs | Some raw \<Rightarrow> raw)
      | _ \<Rightarrow> None)"

section \<open>Positions\<close>

text \<open>The contract of reading and replacing at a position, and what follows for any such structure.\<close>

locale positions =
  fixes look :: "'s \<Rightarrow> nat list \<Rightarrow> 's option"
    and put :: "'s \<Rightarrow> nat list \<Rightarrow> 's \<Rightarrow> 's"
  assumes at_root: "look s [] = Some s"
    and at_append: "look s (p @ q) = Option.bind (look s p) (\<lambda>t. look t q)"
    and at_put: "look s p = Some t \<Longrightarrow> look (put s p n) p = Some n"
    and at_put_parallel: "p \<parallel> q \<Longrightarrow> look (put s p n) q = look s q"
begin

lemma at_put_below: "look s p = Some t \<Longrightarrow> look (put s p n) (p @ q) = look n q"
  by (simp add: at_append at_put)

end

lemma map_at_update: "map_at i f xs = (if i < length xs then xs[i := f (xs ! i)] else xs)"
  by (rule nth_equalityI) (auto simp: map_at_def nth_enumerate_eq nth_list_update)

lemma filter_out_eq: "filter_out i xs = take i xs @ drop (Suc i) xs"
proof -
  have "map snd (filter (\<lambda>(j, x). j \<noteq> i + k) (enumerate k xs)) = take i xs @ drop (Suc i) xs" for k
  proof (induction xs arbitrary: i k)
    case (Cons x xs)
    show ?case
    proof (cases i)
      case 0
      have "filter (\<lambda>(j, x). j \<noteq> k) (enumerate (Suc k) xs) = enumerate (Suc k) xs"
        by (rule filter_True) (auto simp: enumerate_eq_zip dest: set_zip_leftD)
      with 0 show ?thesis by simp
    next
      case (Suc i')
      with Cons.IH [of i' "Suc k"] show ?thesis by simp
    qed
  qed simp
  from this [of 0] show ?thesis by (simp add: filter_out_def)
qed

lemma children_on_children [simp]:
  "children_of (on_children f n) = (if is_group n then f (children_of n) else [])"
  "is_group (on_children f n) = is_group n"
  by (cases n; simp)+

lemma not_group [simp]: "\<not> is_group n \<Longrightarrow> children_of n = []" "\<not> is_group n \<Longrightarrow> on_children f n = n"
  by (cases n; simp)+

lemma children_replaceAt:
  "children_of (replaceAt n (i # p) m) =
    (if i < length (children_of n) then (children_of n)[i := replaceAt (children_of n ! i) p m] else children_of n)"
  by (simp add: map_at_update)

interpretation rule_tree: positions node_at replaceAt
proof
  show "node_at s (p @ q) = Option.bind (node_at s p) (\<lambda>t. node_at t q)" for s p q
    by (induction s p rule: node_at.induct) auto
  show "node_at s p = Some t \<Longrightarrow> node_at (replaceAt s p n) p = Some n" for s p t n
    by (induction s p rule: node_at.induct) (auto simp: children_replaceAt simp del: replaceAt.simps(2) split: if_splits)
  show "p \<parallel> q \<Longrightarrow> node_at (replaceAt s p n) q = node_at s q" for p q s n
  proof (induction s p arbitrary: q rule: node_at.induct)
    case (2 s i p)
    then obtain j q' where q: "q = j # q'" by (cases q) auto
    with "2.prems" have "i \<noteq> j \<or> p \<parallel> q'" by (auto simp: parallel_def)
    then show ?case using "2.IH" [of q'] by (cases "i = j") (simp_all add: q children_replaceAt del: replaceAt.simps(2))
  qed simp
qed (simp_all)

text \<open>Removing a child is replacing its parent.\<close>

lemma removeAt_replaceAt:
  "node_at n p = Some parent \<Longrightarrow> removeAt n (p @ [i]) = replaceAt n p (on_children (filter_out i) parent)"
proof (induction n p rule: node_at.induct)
  case (2 n k p)
  have "removeAt n ((k # p) @ [i]) = on_children (map_at k (\<lambda>c. removeAt c (p @ [i]))) n" by (cases p) simp_all
  also have "\<dots> = on_children (map_at k (\<lambda>c. replaceAt c p (on_children (filter_out i) parent))) n"
    using "2.IH" "2.prems" by (cases n) (auto simp: map_at_update split: if_splits)
  finally show ?case by simp
qed simp

text \<open>
  An edit changes what it is about and nothing else: after an edit at a path, the node there is the
  edited one and every node at an unrelated path is the same; after the removal of a child, its later
  siblings, with all that is below them, have moved up by one, and its earlier ones are where they were.
\<close>

lemma edit_is_local:
  "(node_at tree path = Some n \<and> e \<noteq> RemoveNode \<and> edit_node available (length path) e n = Some n' \<longrightarrow>
      node_at (edit_tree available (path, e) tree) path = Some n'
      \<and> (\<forall>q. path \<parallel> q \<longrightarrow> node_at (edit_tree available (path, e) tree) q = node_at tree q))
   \<and> (node_at tree (path @ [i]) \<noteq> None \<longrightarrow>
      (\<forall>j q. node_at (edit_tree available (path @ [i], RemoveNode) tree) (path @ j # q)
          = node_at tree (path @ (if j < i then j else Suc j) # q))
      \<and> (\<forall>q. path \<parallel> q \<longrightarrow> node_at (edit_tree available (path @ [i], RemoveNode) tree) q = node_at tree q))"
proof (intro conjI impI)
  assume "node_at tree path = Some n \<and> e \<noteq> RemoveNode \<and> edit_node available (length path) e n = Some n'"
  then have "edit_tree available (path, e) tree = replaceAt tree path n'" "node_at tree path = Some n"
    by (simp_all add: edit_tree_def)
  then show "node_at (edit_tree available (path, e) tree) path = Some n'"
    "\<forall>q. path \<parallel> q \<longrightarrow> node_at (edit_tree available (path, e) tree) q = node_at tree q"
    by (simp_all add: rule_tree.at_put rule_tree.at_put_parallel)
next
  assume removed: "node_at tree (path @ [i]) \<noteq> None"
  then obtain parent where parent: "node_at tree path = Some parent" "i < length (children_of parent)"
    by (auto simp: rule_tree.at_append bind_eq_Some_conv split: if_splits)
  have tree': "edit_tree available (path @ [i], RemoveNode) tree = replaceAt tree path (on_children (filter_out i) parent)"
    using removed removeAt_replaceAt [OF parent(1)] by (auto simp: edit_tree_def)
  have grp: "is_group parent" using parent(2) by (cases parent) simp_all
  have "node_at (on_children (filter_out i) parent) (j # q) = node_at parent ((if j < i then j else Suc j) # q)" for j q
    using parent(2) grp by (auto simp: filter_out_eq nth_append min_def)
  then show "\<forall>j q. node_at (edit_tree available (path @ [i], RemoveNode) tree) (path @ j # q)
      = node_at tree (path @ (if j < i then j else Suc j) # q)"
    using parent(1) rule_tree.at_put [OF parent(1)]
    by (simp add: tree' rule_tree.at_append del: node_at.simps(2))
  show "\<forall>q. path \<parallel> q \<longrightarrow> node_at (edit_tree available (path @ [i], RemoveNode) tree) q = node_at tree q"
    by (simp add: tree' rule_tree.at_put_parallel)
qed

section \<open>Trees of the editor\<close>

text \<open>Known nodes, and boolean nodes only in the first \<open>n\<close> levels.\<close>

fun nested :: "nat \<Rightarrow> rule_node \<Rightarrow> bool" where
  "nested n (AndNode cs) \<longleftrightarrow> 0 < n \<and> list_all (nested (n - 1)) cs"
| "nested n (OrNode cs) \<longleftrightarrow> 0 < n \<and> list_all (nested (n - 1)) cs"
| "nested n (NotNode cs) \<longleftrightarrow> 0 < n \<and> list_all (nested (n - 1)) cs"
| "nested n (UnknownNode kind) \<longleftrightarrow> False"
| "nested n m \<longleftrightarrow> True"

text \<open>No field is left empty.\<close>

fun filled :: "rule_node \<Rightarrow> bool" where
  "filled (Condition a op vs vis) \<longleftrightarrow> a \<noteq> [] \<and> vs \<noteq> []"
| "filled (SegmentRef k negated) \<longleftrightarrow> k \<noteq> []"
| "filled (AndNode cs) \<longleftrightarrow> list_all filled cs"
| "filled (OrNode cs) \<longleftrightarrow> list_all filled cs"
| "filled (NotNode cs) \<longleftrightarrow> list_all filled cs"
| "filled (UnknownNode kind) \<longleftrightarrow> True"

lemma well_formed_filled: "nested n t \<Longrightarrow> filled t \<Longrightarrow> n \<le> m \<Longrightarrow> well_formed_node m t"
proof (induction n t arbitrary: m rule: nested.induct)
  case (1 n cs)
  have "\<forall>c \<in> set cs. well_formed_node (m - 1) c"
    using 1 by (auto simp: list_all_iff)
  with 1 show ?case by (auto simp: list_all_iff)
next
  case (2 n cs)
  have "\<forall>c \<in> set cs. well_formed_node (m - 1) c"
    using 2 by (auto simp: list_all_iff)
  with 2 show ?case by (auto simp: list_all_iff)
next
  case (3 n cs)
  have "\<forall>c \<in> set cs. well_formed_node (m - 1) c"
    using 3 by (auto simp: list_all_iff)
  with 3 show ?case by (auto simp: list_all_iff)
qed simp_all

text \<open>A type of trees: what holds of a boolean node depends on its children alone.\<close>

definition typed :: "nat \<Rightarrow> rule_node \<Rightarrow> bool" where
  "typed n t \<longleftrightarrow> nested n t \<and> contract_node t"

lemma typed_group:
  "is_group t \<Longrightarrow> typed n t \<longleftrightarrow> 0 < n \<and> (\<forall>c \<in> set (children_of t). typed (n - 1) c)"
  by (cases t) (auto simp: typed_def list_all_iff)

lemma typed_on_children:
  "typed n t \<Longrightarrow> (\<And>c. c \<in> set (f (children_of t)) \<Longrightarrow> 0 < n \<Longrightarrow> typed (n - 1) c) \<Longrightarrow> typed n (on_children f t)"
  by (cases "is_group t") (auto simp: typed_group)

lemma typed_node_at: "typed n t \<Longrightarrow> node_at t p = Some m \<Longrightarrow> length p \<le> n \<and> typed (n - length p) m"
proof (induction t p arbitrary: n rule: node_at.induct)
  case (2 t i p)
  then have i: "i < length (children_of t)" "node_at (children_of t ! i) p = Some m" by (auto split: if_splits)
  then have "is_group t" by (cases t) simp_all
  with "2.prems"(1) i have n: "0 < n" "typed (n - 1) (children_of t ! i)" by (auto simp: typed_group)
  from "2.IH" [OF i(1) n(2) i(2)] n(1) show ?case by auto
qed simp

lemma typed_replaceAt:
  "typed n t \<Longrightarrow> node_at t p = Some m \<Longrightarrow> typed (n - length p) m' \<Longrightarrow> typed n (replaceAt t p m')"
proof (induction t p arbitrary: n rule: node_at.induct)
  case (2 t i p)
  then have i: "i < length (children_of t)" "node_at (children_of t ! i) p = Some m" by (auto split: if_splits)
  then have g: "is_group t" by (cases t) simp_all
  with "2.prems"(1) i have n: "0 < n" "typed (n - 1) (children_of t ! i)"
    "\<forall>c \<in> set (children_of t). typed (n - 1) c" by (auto simp: typed_group)
  have "typed (n - 1) (replaceAt (children_of t ! i) p m')"
    using "2.IH" [OF i(1) n(2) i(2)] "2.prems"(3) by simp
  then show ?case using n g i(1)
    by (auto simp: typed_group map_at_update dest: set_update_subset_insert [THEN subsetD])
qed simp

lemma typed_known_operator: "op \<in> set OPERATORS \<Longrightarrow> operator_of (JStr (operator_name op)) = op"
  by (rule operator_name_inverse) (auto simp: OPERATORS_def)

lemma typed_parse: "list_all (\<lambda>v. attribute_of (attribute_json v) = v) (parse_values op raw)"
  by (auto simp: parse_values_def list_all_iff)

lemma typed_empty [simp]: "typed n emptyCondition"
  by (simp add: typed_def emptyCondition_def operator_name_inverse)

lemma typed_segment [simp]: "typed n (SegmentRef k negated)"
  by (simp add: typed_def)

lemma edit_condition_typed: "typed n t \<Longrightarrow> edit_condition e t = Some t' \<Longrightarrow> typed n t'"
  by (cases t; cases e)
    (auto simp: typed_def typed_known_operator typed_parse simp del: operator_of.simps operator_name.simps
      split: if_splits)

lemma edit_segment_typed: "edit_segment available e t = Some t' \<Longrightarrow> typed n t'"
  by (cases t; cases e) (auto split: if_splits)

lemma group_of_children [simp]: "children_of (group_of kind cs) = cs" "is_group (group_of kind cs)"
  by (cases kind; simp)+

lemma edit_group_typed:
  assumes "typed (9 - depth) t" "is_group t" "edit_group available depth e t = Some t'"
  shows "typed (9 - depth) t'"
proof -
  have d: "depth < 9" "\<forall>c \<in> set (children_of t). typed (8 - depth) c"
    using assms(1,2) by (auto simp: typed_group)
  have grp: "typed (8 - depth) (AndNode [emptyCondition])" if "depth < 8"
    using that by (simp add: typed_group)
  show ?thesis
    using assms(2,3) d grp by (cases e) (auto simp: typed_group split: if_splits)
qed

lemma edit_node_typed:
  assumes "typed (9 - depth) t" "edit_node available depth e t = Some t'"
  shows "typed (9 - depth) t'"
proof (cases "is_group t")
  case True
  with assms show ?thesis by (simp add: edit_node_def) (rule edit_group_typed)
next
  case False
  with assms(2) have "edit_condition e t = Some t' \<or> edit_segment available e t = Some t'"
    by (simp add: edit_node_def split: rule_node.splits)
  with assms(1) show ?thesis by (blast intro: edit_condition_typed edit_segment_typed)
qed

lemma removeAt_typed:
  assumes "typed 9 t" "node_at t path = Some m" "path \<noteq> []"
  shows "typed 9 (removeAt t path)"
proof -
  obtain p i where path: "path = p @ [i]" using assms(3) by (metis append_butlast_last_id)
  then obtain parent where parent: "node_at t p = Some parent"
    using assms(2) by (auto simp: rule_tree.at_append bind_eq_Some_conv)
  have "typed (9 - length p) parent" using typed_node_at [OF assms(1) parent] by simp
  moreover have "set (filter_out i xs) \<subseteq> set xs" for xs :: "rule_node list"
    by (auto simp: filter_out_eq dest: in_set_takeD in_set_dropD)
  ultimately have "typed (9 - length p) (on_children (filter_out i) parent)"
    by (cases "is_group parent") (auto simp: typed_group)
  then show ?thesis unfolding path removeAt_replaceAt [OF parent] by (rule typed_replaceAt [OF assms(1) parent])
qed

lemma edit_tree_typed: "typed 9 t \<Longrightarrow> typed 9 (edit_tree available pe t)"
proof -
  assume t: "typed 9 t"
  obtain path e where pe: "pe = (path, e)" by fastforce
  show ?thesis
  proof (cases "node_at t path")
    case None
    then show ?thesis using t by (simp add: edit_tree_def pe)
  next
    case (Some n)
    then have n: "typed (9 - length path) n" using typed_node_at [OF t] by simp
    show ?thesis
      using t Some removeAt_typed [OF t Some] edit_node_typed [OF n] typed_replaceAt [OF t Some]
      by (auto simp: edit_tree_def pe split: option.splits)
  qed
qed

lemma edits_typed: "typed 9 t \<Longrightarrow> typed 9 (fold (edit_tree available) edits t)"
  by (induction edits arbitrary: t) (simp_all add: edit_tree_typed)

text \<open>
  C29: the editor can only build trees that can be published: starting from a tree of the contract whose
  boolean nodes are in the first nine levels (the empty tree of the page is one), any edits lead to such
  a tree; and when no attribute, value list or segment is left empty, the validation of the server
  accepts it, and what the server reads is the very tree that was shown.
\<close>

theorem editor_trees_are_accepted:
  assumes "typed 9 tree"
  shows "typed 9 (fold (edit_tree available) edits tree)
    \<and> (filled (fold (edit_tree available) edits tree) \<longrightarrow>
        validateRuleNode (rule_node_json (fold (edit_tree available) edits tree)) place 0 = []
        \<and> rule_node_of (rule_node_json (fold (edit_tree available) edits tree)) = fold (edit_tree available) edits tree)"
proof -
  have t: "typed 9 (fold (edit_tree available) edits tree)" by (rule edits_typed [OF assms])
  then show ?thesis
    using well_formed_filled [of 9 _ 32] rule_node_json_accepted [of 0 _ place] by (simp add: typed_def)
qed

definition started_tree :: rule_node where
  "started_tree = AndNode
     [Condition (lit ''plan'') Eq [AString (lit ''pro'')] ServerOnly,
      Condition (lit ''region'') Eq [AString (lit ''us'')] ServerOnly]"

lemma edit_is_local_witness:
  "node_at (edit_tree [] ([0], ToggleVisibility) started_tree) [1] = node_at started_tree [1]
   \<and> node_at (edit_tree [] ([0], RemoveNode) started_tree) [0] = node_at started_tree [1]"
proof -
  have "node_at started_tree [0] = Some (Condition (lit ''plan'') Eq [AString (lit ''pro'')] ServerOnly)"
    by (simp add: started_tree_def)
  moreover have "edit_node [] (length [0]) ToggleVisibility (Condition (lit ''plan'') Eq [AString (lit ''pro'')] ServerOnly)
      = Some (Condition (lit ''plan'') Eq [AString (lit ''pro'')] ClientVisible)" by (simp add: edit_node_def)
  moreover have "[0 :: nat] \<parallel> [1]" by (simp add: parallel_def)
  ultimately have first: "node_at (edit_tree [] ([0], ToggleVisibility) started_tree) [1] = node_at started_tree [1]"
    using edit_is_local [of started_tree "[0]" "Condition (lit ''plan'') Eq [AString (lit ''pro'')] ServerOnly"
        ToggleVisibility "[]" "Condition (lit ''plan'') Eq [AString (lit ''pro'')] ClientVisible" 0] by blast
  have "node_at started_tree ([] @ [0]) \<noteq> None" by (simp add: started_tree_def)
  with edit_is_local [of started_tree "[]" started_tree RemoveNode "[]" started_tree 0]
  have "node_at (edit_tree [] ([] @ [0], RemoveNode) started_tree) ([] @ 0 # [])
      = node_at started_tree ([] @ (if 0 < (0 :: nat) then 0 else Suc 0) # [])" by blast
  then have "node_at (edit_tree [] ([0], RemoveNode) started_tree) [0] = node_at started_tree [1]"
    by (simp del: node_at.simps(2))
  with first show ?thesis by blast
qed

theorem editor_trees_are_accepted_witness:
  "validateRuleNode (rule_node_json (fold (edit_tree [])
      [([], AddCondition), ([0], SetAttribute (lit ''plan'')), ([0], SetValues (lit ''pro''))] (AndNode []))) [] 0 = []"
proof -
  have "typed 9 (AndNode [])" by (simp add: typed_group)
  moreover have "fold (edit_tree [])
      [([], AddCondition), ([0], SetAttribute (lit ''plan'')), ([0], SetValues (lit ''pro''))] (AndNode [])
    = AndNode [Condition (lit ''plan'') Eq [AString (lit ''pro'')] ServerOnly]"
    by (simp add: edit_tree_def edit_node_def emptyCondition_def map_at_update parse_values_def multi_value_def)
  ultimately show ?thesis
    using editor_trees_are_accepted [of "AndNode []" "[]"
      "[([], AddCondition), ([0], SetAttribute (lit ''plan'')), ([0], SetValues (lit ''pro''))]" "[]"] by simp
qed

section \<open>The value field\<close>

definition clean_value :: "js_string \<Rightarrow> bool" where
  "clean_value s \<longleftrightarrow> trimmed s \<and> comma \<notin> set s"

lemma clean_valueD: "clean_value s \<Longrightarrow> comma \<notin> set s \<and> comma \<notin> set (0x20 # s) \<and> js_trim s = s \<and> s \<noteq> []"
  by (auto simp: clean_value_def js_trim_trimmed comma_def trimmed_def)

lemma js_trim_space: "js_trim (0x20 # s) = js_trim s"
  by (rule js_trim_white) (simp add: is_white_def)

lemma separator: "lit '', '' = [comma, 0x20]"
  by (simp add: lit_def comma_def)

lemma split_joined:
  "list_all clean_value ss \<Longrightarrow> ss \<noteq> [] \<Longrightarrow> map js_trim (js_split comma (join (lit '', '') ss)) = ss
    \<and> map js_trim (js_split comma (0x20 # join (lit '', '') ss)) = ss"
proof (induction ss rule: induct_list012)
  case (2 s)
  then show ?case using clean_valueD [of s] by (simp add: js_split_plain js_trim_space del: js_split.simps)
next
  case (3 s t ss)
  then have s: "comma \<notin> set s" "comma \<notin> set (0x20 # s)" "js_trim s = s"
    using clean_valueD [of s] by simp_all
  have j: "join (lit '', '') (s # t # ss) = s @ comma # 0x20 # join (lit '', '') (t # ss)"
    by (simp add: separator)
  show ?case
    using 3 js_split_append [of comma s] js_split_append [of comma "0x20 # s"] s
    unfolding j by (simp add: js_split_plain js_trim_space del: js_split.simps)
qed simp

text \<open>
  The value field shows what it reads: the values of a condition with a list operator, written with
  commas as the field shows them, are read back as the same values, when they have neither commas nor
  white space at their ends; and a single value is read back as it is, whatever it contains.
\<close>

lemma shown_values_are_read_back:
  assumes "multi_value op \<longrightarrow> list_all clean_value ss" "\<not> multi_value op \<longrightarrow> length ss = 1"
  shows "parse_values op (joined_values op (map AString ss)) = map AString ss"
proof (cases "multi_value op")
  case True
  have texts: "map attribute_text (map AString ss) = ss" by (induction ss) simp_all
  show ?thesis
  proof (cases "ss = []")
    case False
    have "filter (\<lambda>part. part \<noteq> []) ss = ss"
      using assms(1) True by (intro filter_True) (auto simp: list_all_iff dest: clean_valueD)
    then show ?thesis
      using split_joined [of ss] False True assms(1) by (simp add: parse_values_def joined_values_def texts del: map_map)
  qed (use True in \<open>simp add: parse_values_def joined_values_def\<close>)
next
  case False
  then obtain s where "ss = [s]" using assms(2) by (cases ss) auto
  with False show ?thesis by (simp add: parse_values_def joined_values_def)
qed

lemma shown_values_are_read_back_witness:
  "parse_values In (joined_values In (map AString [lit ''eu'', lit ''us''])) = map AString [lit ''eu'', lit ''us'']"
  by (rule shown_values_are_read_back) (simp_all add: multi_value_def clean_value_def trimmed_def lit_def comma_def is_white_def)

text \<open>
  The drafts are kept by position, so that of a removed condition shows up in the field of the sibling
  that takes its place, whose values are others.
\<close>

lemma removed_text_reappears:
  defines "b \<equiv> fold (builder_step []) [([0], SetValues (lit ''eu'')), ([0], RemoveNode)]
    \<lparr>b_tree = started_tree, b_drafts = []\<rparr>"
  shows "node_at (b_tree b) [0] = Some (Condition (lit ''region'') Eq [AString (lit ''us'')] ServerOnly)"
    and "shown_text b [0] = Some (lit ''eu'')"
  unfolding b_def
  by (simp_all add: builder_step_def edit_tree_def edit_node_def started_tree_def map_at_update filter_out_eq
    rendered_def shown_text_def parse_values_def multi_value_def Let_def)

text \<open>
  A group that the editor calls NONE of negates the conjunction: with two conditions it matches a
  context that satisfies one of them.
\<close>

lemma none_of_is_not_all:
  assumes "matchNode regex context' env [] a" "\<not> matchNode regex context' env [] b"
  shows "matchNode regex context' env [] (NotNode [a, b])"
  using assms by simp

end
