(* ===== verification/Preview.thy ===== *)
theory Preview
  imports Rule_Builder Console_Api
begin

text \<open>
  The local evaluations of the console, with the engine of the SDKs: \<open>PayloadPlayground.tsx\<close> and
  \<open>usePreview\<close> of \<open>FlagDetailView.tsx\<close>. The attributes are the JSON that the user typed, parsed, or
  none when it does not parse. Two variations with equal objects count as one value.
\<close>

section \<open>The playground\<close>

definition SEGMENTS :: "js_string list" where
  "SEGMENTS = [lit ''internal-staff'', lit ''beta-testers'', lit ''enterprise-accounts'']"

definition INITIAL_TREE :: rule_node where
  "INITIAL_TREE = AndNode
     [Condition (lit ''plan'') Eq [AString (lit ''enterprise'')] ClientVisible,
      Condition (lit ''email'') EndsWith [AString (lit ''@competitor.com'')] ServerOnly]"

definition one_rule :: "js_string \<Rightarrow> rule_node \<Rightarrow> js_string \<Rightarrow> targeting_rule" where
  "one_rule i tree served = \<lparr>rule_id = i, description = [], rule_when = tree, rule_serve = ServeVariation served\<rparr>"

definition playground_flag :: "rule_node \<Rightarrow> flag" where
  "playground_flag tree =
     \<lparr>fkey = lit ''checkout-redesign'', enabled = True, salt = lit ''salt-a'',
      variations = [\<lparr>vkey = lit ''on'', vvalue = JBool True\<rparr>, \<lparr>vkey = lit ''off'', vvalue = JBool False\<rparr>],
      defaultVariationKey = lit ''off'', offVariationKey = lit ''off'', prerequisites = [],
      rules = [one_rule (lit ''rule-1'') tree (lit ''on'')], bucketBy = lit ''key''\<rparr>"

definition playground_segment :: "js_string \<Rightarrow> segment" where
  "playground_segment k = \<lparr>skey = k, seg_when = Condition (lit ''group'') Eq [AString k] ClientVisible\<rparr>"

definition serverSnapshot :: "rule_node \<Rightarrow> ruleset_snapshot" where
  "serverSnapshot tree =
     \<lparr>environmentKey = lit ''production'', version = Fin 1, flags = [playground_flag tree],
      segments = map playground_segment SEGMENTS, servedAt = toISOString 0\<rparr>"

definition evaluation_pair ::
    "regex_engine \<Rightarrow> js_string \<Rightarrow> evaluation_context \<Rightarrow> ruleset_snapshot \<Rightarrow> evaluation_result \<times> evaluation_result" where
  "evaluation_pair regex key context' snapshot =
     (evaluateFlag regex key context' (indexSnapshot snapshot) (JBool False),
      evaluateFlag regex key context' (indexSnapshot (filterSnapshotForKey snapshot KindClient)) (JBool False))"

definition playground_evaluation ::
    "regex_engine \<Rightarrow> rule_node \<Rightarrow> js_string \<Rightarrow> (js_string, attribute_value) js_map option
     \<Rightarrow> (evaluation_result \<times> evaluation_result) option" where
  "playground_evaluation regex tree contextKey parsed =
     map_option (\<lambda>as. evaluation_pair regex (lit ''checkout-redesign'') \<lparr>ckey = contextKey, attributes = as\<rparr> (serverSnapshot tree))
       parsed"

definition stripped :: "rule_node \<Rightarrow> bool" where
  "stripped tree = (case flags (filterSnapshotForKey (serverSnapshot tree) KindClient) of
     [] \<Rightarrow> True | f # fs \<Rightarrow> length (rules f) = 0)"

section \<open>The preview of a flag\<close>

definition firstNonOff :: "flag_detail \<Rightarrow> js_string" where
  "firstNonOff d =
     (case elements_of variation_of (fd_variations d) of
        None \<Rightarrow> fd_defaultVariationKey d
      | Some vs \<Rightarrow>
          (case find (\<lambda>v. vkey v \<noteq> fd_offVariationKey d) vs of
             None \<Rightarrow> fd_defaultVariationKey d | Some v \<Rightarrow> vkey v))"

definition preview_flag :: "flag_detail \<Rightarrow> rule_node \<Rightarrow> flag" where
  "preview_flag d tree =
     \<lparr>fkey = fd_key d, enabled = fd_enabled d, salt = fd_salt d,
      variations = asArray (elements_of variation_of (fd_variations d)),
      defaultVariationKey = fd_defaultVariationKey d, offVariationKey = fd_offVariationKey d, prerequisites = [],
      rules = [one_rule (lit ''preview'') tree (firstNonOff d)], bucketBy = fd_bucketBy d\<rparr>"

definition preview_snapshot :: "flag_detail \<Rightarrow> rule_node \<Rightarrow> ruleset_snapshot" where
  "preview_snapshot d tree =
     \<lparr>environmentKey = lit ''preview'', version = Fin 1, flags = [preview_flag d tree], segments = [],
      servedAt = toISOString 0\<rparr>"

record preview =
  pv_server :: js_string
  pv_client :: js_string
  pv_diverges :: bool

definition dash :: js_string where
  "dash = [0x2014]"

definition on_off :: "evaluation_result \<Rightarrow> js_string" where
  "on_off r = (if rvalue r = JBool True then lit ''ON'' else lit ''OFF'')"

definition usePreview ::
    "regex_engine \<Rightarrow> flag_detail option \<Rightarrow> rule_node \<Rightarrow> js_string \<Rightarrow> (js_string, attribute_value) js_map option \<Rightarrow> preview" where
  "usePreview regex shown tree contextKey parsed =
     (case (shown, parsed) of
        (Some d, Some as) \<Rightarrow>
          (let (server, client) = evaluation_pair regex (fd_key d) \<lparr>ckey = contextKey, attributes = as\<rparr> (preview_snapshot d tree) in
           \<lparr>pv_server = on_off server, pv_client = on_off client, pv_diverges = rvalue server \<noteq> rvalue client\<rparr>)
      | _ \<Rightarrow> \<lparr>pv_server = dash, pv_client = dash, pv_diverges = False\<rparr>)"

section \<open>What the filter does to one rule\<close>

lemma filter_one_flag:
  assumes "flags s = [f]" "rules f = [r]"
  shows "filterSnapshotForKey s KindClient =
    s\<lparr>flags := [f\<lparr>rules := (if isRuleClientSafe (clientSafeSegments (segments s)) r then [r] else [])\<rparr>],
      segments := filter (\<lambda>x. skey x \<in> set (clientSafeSegments (segments s))) (segments s)\<rparr>"
  using assms by (simp add: filterSnapshotForKey_def filterFlag_def Let_def)

lemma playground_segments_safe: "clientSafeSegments (map playground_segment SEGMENTS) = SEGMENTS"
  unfolding clientSafeSegments_def
  by (simp add: safe_loop.simps playground_segment_def SEGMENTS_def set_add_def lit_def)

lemma playground_filtered:
  "filterSnapshotForKey (serverSnapshot tree) KindClient =
    (if isRuleClientSafe SEGMENTS (one_rule (lit ''rule-1'') tree (lit ''on'')) then serverSnapshot tree
     else serverSnapshot tree\<lparr>flags := [(playground_flag tree)\<lparr>rules := []\<rparr>]\<rparr>)"
proof -
  have "filter (\<lambda>x. skey x \<in> set SEGMENTS) (map playground_segment SEGMENTS) = map playground_segment SEGMENTS"
    by (rule filter_True) (auto simp: playground_segment_def)
  moreover have "flags (serverSnapshot tree) = [playground_flag tree]"
    "segments (serverSnapshot tree) = map playground_segment SEGMENTS"
    "rules (playground_flag tree) = [one_rule (lit ''rule-1'') tree (lit ''on'')]"
    by (simp_all add: serverSnapshot_def playground_flag_def)
  ultimately show ?thesis
    using filter_one_flag [of "serverSnapshot tree"] by (simp add: playground_segments_safe)
qed

text \<open>A flag with no rule and no prerequisite serves its default variation, when it is on.\<close>

lemma evaluate_no_rules:
  assumes "map_get (env_flags env) key = Some c" "enabled (cf_flag c)" "prerequisites (cf_flag c) = []" "rules (cf_flag c) = []"
  shows "evaluateFlag regex key context' env fallback = resultFor c (defaultVariationKey (cf_flag c)) RDefault fallback None"
  using assms by (simp add: evaluateFlag_def evaluateInternal.simps)

text \<open>
  C31: what the playground says of the two payloads is true: the browser is never more included than the
  server, and the two only differ when the rule was removed from the payload of the browser, which is
  when it has a server-only condition or refers to a segment that the page does not have.
\<close>

theorem playground_client_never_more_included:
  assumes "playground_evaluation regex tree contextKey parsed = Some (server, client)"
  shows "(rvalue client = JBool True \<longrightarrow> rvalue server = JBool True)
    \<and> (rvalue server \<noteq> rvalue client \<longrightarrow> stripped tree)
    \<and> (stripped tree \<longleftrightarrow> containsServerOnly tree \<or> \<not> set (referencedSegments tree []) \<subseteq> set SEGMENTS)"
proof -
  define r where "r = one_rule (lit ''rule-1'') tree (lit ''on'')"
  have safe: "isRuleClientSafe SEGMENTS r \<longleftrightarrow> \<not> containsServerOnly tree \<and> set (referencedSegments tree []) \<subseteq> set SEGMENTS"
    by (auto simp: isRuleClientSafe_def r_def one_rule_def list_all_iff)
  have strip: "stripped tree \<longleftrightarrow> \<not> isRuleClientSafe SEGMENTS r"
    by (simp add: stripped_def playground_filtered r_def [symmetric]) (simp add: serverSnapshot_def playground_flag_def)
  have "client = server" if "isRuleClientSafe SEGMENTS r"
    using assms that by (auto simp: playground_evaluation_def evaluation_pair_def playground_filtered r_def [symmetric])
  moreover have "rvalue client = JBool False" if "\<not> isRuleClientSafe SEGMENTS r"
  proof -
    let ?f = "(playground_flag tree)\<lparr>rules := []\<rparr>"
    let ?env = "indexSnapshot (serverSnapshot tree\<lparr>flags := [?f]\<rparr>)"
    have "map_get (env_flags ?env) (lit ''checkout-redesign'') = Some (compile_flag ?f)"
      by (simp add: indexSnapshot_def index_by_def playground_flag_def)
    from evaluate_no_rules [OF this] have "rvalue (evaluateFlag regex (lit ''checkout-redesign'') c ?env (JBool False)) = JBool False" for c
      by (simp add: compile_flag_def playground_flag_def resultFor_def index_by_def lit_def)
    then show ?thesis
      using assms that by (auto simp: playground_evaluation_def evaluation_pair_def playground_filtered r_def [symmetric])
  qed
  ultimately show ?thesis using safe strip by (cases "isRuleClientSafe SEGMENTS r") simp_all
qed

theorem playground_client_never_more_included_witness:
  "stripped INITIAL_TREE \<and> \<not> stripped (SegmentRef (lit ''beta-testers'') True)"
proof -
  have eval: "playground_evaluation regex tree [] (Some []) = Some
      (fst (the (playground_evaluation regex tree [] (Some []))), snd (the (playground_evaluation regex tree [] (Some []))))"
    for regex tree by (simp add: playground_evaluation_def)
  from playground_client_never_more_included [OF eval [of "\<lambda>s. None" INITIAL_TREE]]
    playground_client_never_more_included [OF eval [of "\<lambda>s. None" "SegmentRef (lit ''beta-testers'') True"]]
  show ?thesis by (simp add: INITIAL_TREE_def SEGMENTS_def set_add_def)
qed

section \<open>Where the preview is wrong\<close>

text \<open>
  The preview of a flag shows the same sentence, and there it can be false: when the first variation that
  is not the off variation is false and the default is true, a context that a server-only rule keeps out
  is let in by the browser.
\<close>

definition opt_out_flag :: flag_detail where
  "opt_out_flag =
     \<lparr>fd_key = lit ''f'', fd_description = [], fd_salt = lit ''s'', fd_bucketBy = lit ''key'',
      fd_variations = JArr
        [JObj [(lit ''key'', JStr (lit ''old'')), (lit ''value'', JBool False)],
         JObj [(lit ''key'', JStr (lit ''new'')), (lit ''value'', JBool True)]],
      fd_enabled = True, fd_defaultVariationKey = lit ''new'', fd_offVariationKey = lit ''none'',
      fd_rules = JArr [], fd_prerequisites = JArr [], fd_updatedAt = []\<rparr>"

definition opt_out_tree :: rule_node where
  "opt_out_tree = Condition (lit ''key'') Eq [AString (lit ''u'')] ServerOnly"

lemma preview_client_more_included:
  "pv_server (usePreview regex (Some opt_out_flag) opt_out_tree (lit ''u'') (Some [])) = lit ''OFF''
   \<and> pv_client (usePreview regex (Some opt_out_flag) opt_out_tree (lit ''u'') (Some [])) = lit ''ON''"
  by (simp add: usePreview_def evaluation_pair_def preview_snapshot_def preview_flag_def opt_out_flag_def opt_out_tree_def
    filterSnapshotForKey_def filterFlag_def isRuleClientSafe_def one_rule_def indexSnapshot_def index_by_def compile_flag_def
    evaluateFlag_def evaluateInternal.simps elements_of_def variation_of_def firstNonOff_def resolveAttribute_def
    resultFor_def on_off_def Let_def lit_def error_result_def applyOperator_def)

text \<open>The preview has no segments, so that it shows every reference to one as not matching, negated or not.\<close>

lemma preview_ignores_segments:
  "\<not> matchNode regex context' (indexSnapshot (preview_snapshot d tree)) [] (SegmentRef k negated)"
  by (simp add: preview_snapshot_def indexSnapshot_def index_by_def)

end
