(* ===== verification/Flag_Detail.thy ===== *)
theory Flag_Detail
  imports Preview
begin

text \<open>
  \<open>apps/console/src/components/FlagDetailView.tsx\<close>: the state of the page of one flag, its handlers and
  effects, as in \<open>Flag_List\<close>. A tree is sent as its JSON; what arrives is read as the editor and the
  evaluator read it.
\<close>

section \<open>State and events\<close>

record detail_view =
  dv_tenant :: "tenant_row option"
  dv_environments :: "environment_summary list"
  dv_environmentId :: js_string
  dv_segments :: "segment_summary list"
  dv_flag :: "flag_detail option"
  dv_tree :: rule_node
  dv_dirty :: bool
  dv_status :: "js_string option"
  dv_error :: "js_string option"
  dv_busy :: bool

definition EMPTY_TREE :: rule_node where
  "EMPTY_TREE = AndNode []"

definition new_detail_view :: detail_view where
  "new_detail_view =
     \<lparr>dv_tenant = None, dv_environments = [], dv_environmentId = [], dv_segments = [], dv_flag = None,
      dv_tree = EMPTY_TREE, dv_dirty = False, dv_status = None, dv_error = None, dv_busy = False\<rparr>"

datatype detail_event =
    TenantsLoaded "cause + tenant_row list"
  | EnvironmentsLoaded "environment_summary list"
  | SegmentsLoaded "segment_summary list"
  | FlagLoaded "cause + flag_detail"
  | PickEnvironment js_string
  | TreeEdited rule_node
  | SaveClicked
  | SaveSettled "cause + flag_detail option"
  | SwitchClicked bool
  | SwitchSettled flag_detail bool "cause option"
  | PublishFlagClicked
  | PublishFlagSettled "cause + js_number"

section \<open>What is sent and read\<close>

text \<open>\<open>rules[0]\<close> of a value that is neither \<open>null\<close> nor \<open>undefined\<close>; an index past the end gives \<open>undefined\<close>.\<close>

definition first_rule :: "flag_detail \<Rightarrow> js_value" where
  "first_rule d = (case fd_rules d of JArr (r # rs) \<Rightarrow> r | _ \<Rightarrow> JUndefined)"

definition loaded_tree :: "flag_detail \<Rightarrow> rule_node" where
  "loaded_tree d =
     (let when' = get_prop (first_rule d) (lit ''when'') in
      if when' = JUndefined \<or> when' = JNull then EMPTY_TREE else rule_node_of when')"

definition saved_rules :: "flag_detail \<Rightarrow> rule_node \<Rightarrow> js_value" where
  "saved_rules d tree =
     JArr [JObj
       [(lit ''id'', nullish_else (get_prop (first_rule d) (lit ''id'')) (JStr (lit ''rule-1''))),
        (lit ''description'', nullish_else (get_prop (first_rule d) (lit ''description'')) (JStr [])),
        (lit ''when'', rule_node_json tree),
        (lit ''serve'', nullish_else (get_prop (first_rule d) (lit ''serve''))
            (JObj [(lit ''variationKey'', JStr (firstNonOff d))]))]]"

definition patch_of :: "tenant_row \<Rightarrow> js_string \<Rightarrow> bool option \<Rightarrow> js_value \<Rightarrow> patch_flag_request" where
  "patch_of tenant env enabled' rules' =
     \<lparr>uq_tenantId = Some (t_id tenant), uq_environmentId = Some env, uq_enabled = enabled',
      uq_defaultVariationKey = None, uq_offVariationKey = None, uq_rules = rules'\<rparr>"

section \<open>Handlers\<close>

fun detail_handler :: "js_string \<Rightarrow> detail_event \<Rightarrow> detail_view \<Rightarrow> detail_view \<times> admin_request list" where
  "detail_handler key (TenantsLoaded (Inr ts)) s =
     (case ts of
        [] \<Rightarrow> (s\<lparr>dv_tenant := None\<rparr>, [])
      | t # us \<Rightarrow> (s\<lparr>dv_tenant := Some t\<rparr>, [ListEnvironments (Some (t_id t)), ListSegments (Some (t_id t))]))"
| "detail_handler key (TenantsLoaded (Inl c)) s = (s\<lparr>dv_error := Some (describe c)\<rparr>, [])"
| "detail_handler key (EnvironmentsLoaded es) s =
     (s\<lparr>dv_environments := es,
        dv_environmentId := (if dv_environmentId s = [] then (case es of [] \<Rightarrow> [] | e # fs \<Rightarrow> es_id e) else dv_environmentId s)\<rparr>, [])"
| "detail_handler key (SegmentsLoaded ss) s = (s\<lparr>dv_segments := ss\<rparr>, [])"
| "detail_handler key (FlagLoaded (Inr d)) s =
     (s\<lparr>dv_flag := Some d, dv_tree := loaded_tree d, dv_dirty := False\<rparr>, [])"
| "detail_handler key (FlagLoaded (Inl c)) s = (s\<lparr>dv_error := Some (describe c)\<rparr>, [])"
| "detail_handler key (PickEnvironment e) s = (s\<lparr>dv_environmentId := e\<rparr>, [])"
| "detail_handler key (TreeEdited tree) s = (s\<lparr>dv_tree := tree, dv_dirty := True\<rparr>, [])"
| "detail_handler key SaveClicked s =
     (case (dv_tenant s, dv_flag s) of
        (Some t, Some d) \<Rightarrow>
          (if dv_busy s \<or> \<not> dv_dirty s then (s, [])
           else (s\<lparr>dv_busy := True, dv_error := None, dv_status := None\<rparr>,
             [PatchFlagRequest key (patch_of t (dv_environmentId s) None (saved_rules d (dv_tree s)))]))
      | _ \<Rightarrow> (s, []))"
| "detail_handler key (SaveSettled (Inr updated)) s =
     (s\<lparr>dv_flag := updated, dv_dirty := False, dv_status := Some (lit ''Saved. Publish to send it to SDKs.''), dv_busy := False\<rparr>, [])"
| "detail_handler key (SaveSettled (Inl c)) s = (s\<lparr>dv_error := Some (describe c), dv_busy := False\<rparr>, [])"
| "detail_handler key (SwitchClicked b) s =
     (case (dv_tenant s, dv_flag s) of
        (Some t, Some d) \<Rightarrow>
          (if dv_busy s then (s, [])
           else (s\<lparr>dv_busy := True, dv_flag := Some (d\<lparr>fd_enabled := b\<rparr>)\<rparr>,
             [PatchFlagRequest key (patch_of t (dv_environmentId s) (Some b) JUndefined)]))
      | _ \<Rightarrow> (s, []))"
| "detail_handler key (SwitchSettled d b None) s = (s\<lparr>dv_busy := False\<rparr>, [])"
| "detail_handler key (SwitchSettled d b (Some c)) s =
     (s\<lparr>dv_flag := Some (d\<lparr>fd_enabled := \<not> b\<rparr>), dv_error := Some (describe c), dv_busy := False\<rparr>, [])"
| "detail_handler key PublishFlagClicked s =
     (case (dv_tenant s, find (\<lambda>e. es_id e = dv_environmentId s) (dv_environments s)) of
        (Some t, Some e) \<Rightarrow>
          (if dv_busy s then (s, [])
           else (s\<lparr>dv_busy := True, dv_error := None\<rparr>,
             [PublishRequest \<lparr>pq_tenantId = Some (t_id t), pq_environmentId = Some (dv_environmentId s),
                pq_environmentKey = Some (es_key e), pq_actorEmail = None\<rparr>]))
      | _ \<Rightarrow> (s, []))"
| "detail_handler key (PublishFlagSettled (Inr v)) s =
     (s\<lparr>dv_status := Some (lit ''Published v'' @ number_to_string v @ lit ''.''), dv_busy := False\<rparr>, [])"
| "detail_handler key (PublishFlagSettled (Inl c)) s = (s\<lparr>dv_error := Some (describe c), dv_busy := False\<rparr>, [])"

text \<open>The effect \<open>load\<close>, after a change of the tenant or the environment.\<close>

definition load_request :: "js_string \<Rightarrow> detail_view \<Rightarrow> admin_request list" where
  "load_request key s =
     (case dv_tenant s of
        None \<Rightarrow> []
      | Some t \<Rightarrow> if dv_environmentId s = [] then [] else [GetFlag key (Some (t_id t)) (Some (dv_environmentId s))])"

definition detail_step :: "js_string \<Rightarrow> detail_event \<Rightarrow> detail_view \<Rightarrow> detail_view \<times> admin_request list" where
  "detail_step key ev s =
     (let (s', sent) = detail_handler key ev s in
      (s', sent @ (if dv_tenant s' \<noteq> dv_tenant s \<or> dv_environmentId s' \<noteq> dv_environmentId s then load_request key s' else [])))"

section \<open>What is saved is what is loaded\<close>

lemma rule_node_json_present: "rule_node_json tree \<noteq> JUndefined \<and> rule_node_json tree \<noteq> JNull"
  by (cases tree) (simp_all add: boolean_json_def)

lemma first_saved_rule:
  "fd_rules d = saved_rules e tree \<Longrightarrow> get_prop (first_rule d) (lit ''when'') = rule_node_json tree"
  by (simp add: first_rule_def saved_rules_def lit_def)

text \<open>
  C32: what is saved is what is edited next: when the tree of the page is one that the editor can build (typed,
  with at most nine levels) with no field left empty, and its save succeeds, and the environment has a row
  of configuration for the flag, then the flag that the server holds has the tree as the JSON of its first
  rule, that JSON passes the validation of a publish, and loading the flag again shows the very tree that
  was saved. In an environment that was created after the flag there is no such row: the save succeeds all
  the same, and the server keeps the rules that it had.
\<close>

theorem saved_tree_is_loaded:
  assumes "db_ok (sv_db srv)" and "dv_tenant s = Some t" "dv_flag s = Some d" "\<not> dv_busy s" "dv_dirty s"
    and "typed 9 (dv_tree s)" "filled (dv_tree s)"
    and "detail_step key SaveClicked s = (s', [req])"
    and "console_request net cfg adminToken now req srv = (Inr body, srv')"
  shows "\<exists>d'. getFlag (sv_db srv') (t_id t) (dv_environmentId s) key = Some d' \<and> body = FlagBody (Some d')
    \<and> \<not> dv_dirty (fst (detail_step key (FlagLoaded (Inr d')) s'))
    \<and> (if has_config (sv_db srv) (t_id t) (dv_environmentId s) key
       then get_prop (first_rule d') (lit ''when'') = rule_node_json (dv_tree s)
         \<and> validateRuleNode (rule_node_json (dv_tree s)) place 0 = []
         \<and> dv_tree (fst (detail_step key (FlagLoaded (Inr d')) s')) = dv_tree s
       else \<exists>before. getFlag (sv_db srv) (t_id t) (dv_environmentId s) key = Some before \<and> fd_rules d' = fd_rules before)"
proof -
  let ?inp = "\<lparr>uf_tenantId = t_id t, uf_environmentId = dv_environmentId s, uf_key = key, uf_enabled = None,
    uf_defaultVariationKey = None, uf_offVariationKey = None, uf_rules = saved_rules d (dv_tree s)\<rparr>"
  have req: "req = PatchFlagRequest key (patch_of t (dv_environmentId s) None (saved_rules d (dv_tree s)))"
    using assms(2-5,8) by (simp add: detail_step_def)
  obtain previous where previous: "getFlag (sv_db srv) (t_id t) (dv_environmentId s) key = Some previous"
    and after: "getFlag (sv_db srv') = getFlag (write_config now ?inp previous (sv_db srv))"
    and body: "body = FlagBody (getFlag (sv_db srv') (t_id t) (dv_environmentId s) key)"
    using console_patch_succeeds [OF assms(9) [unfolded req], of "t_id t" "dv_environmentId s"]
    by (auto simp: patch_of_def)
  show ?thesis
  proof (cases "has_config (sv_db srv) (t_id t) (dv_environmentId s) key")
    case True
    obtain d' where d': "getFlag (sv_db srv') (t_id t) (dv_environmentId s) key = Some d'" "fd_rules d' = saved_rules d (dv_tree s)"
      using write_own_flag [OF assms(1), of ?inp previous now previous] previous True
      by (auto simp: after nullish_else_def saved_rules_def)
    have tree: "validateRuleNode (rule_node_json (dv_tree s)) place 0 = []" "rule_node_of (rule_node_json (dv_tree s)) = dv_tree s"
      using assms(6,7) well_formed_filled [of 9 "dv_tree s" 32] rule_node_json_accepted [of 0 "dv_tree s" place]
      by (simp_all add: typed_def)
    have "loaded_tree d' = dv_tree s"
      using first_saved_rule [OF d'(2)] rule_node_json_present tree(2) by (simp add: loaded_tree_def Let_def)
    then show ?thesis
      using d' first_saved_rule [OF d'(2)] tree(1) body True by (simp add: detail_step_def)
  next
    case False
    then show ?thesis
      using write_unconfigured_flag [OF assms(1), of ?inp previous now previous] previous body
      by (simp add: after detail_step_def)
  qed
qed

definition open_page :: "flag_detail \<Rightarrow> detail_view" where
  "open_page d = new_detail_view\<lparr>dv_tenant := Some \<lparr>t_id = lit ''t1'', t_slug = [], t_name = []\<rparr>, dv_environmentId := lit ''e1'',
     dv_flag := Some d, dv_tree := AndNode [SegmentRef (lit ''staff'') False], dv_dirty := True\<rparr>"

theorem saved_tree_is_loaded_witness:
  "\<exists>d s' body srv' d'. detail_step (lit ''checkout'') SaveClicked (open_page d)
       = (s', [PatchFlagRequest (lit ''checkout'') (patch_of \<lparr>t_id = lit ''t1'', t_slug = [], t_name = []\<rparr> (lit ''e1'') None
            (saved_rules d (AndNode [SegmentRef (lit ''staff'') False])))])
     \<and> console_request Delivered example_config (lit ''secret'') 0 (PatchFlagRequest (lit ''checkout'')
          (patch_of \<lparr>t_id = lit ''t1'', t_slug = [], t_name = []\<rparr> (lit ''e1'') None
            (saved_rules d (AndNode [SegmentRef (lit ''staff'') False])))) example_server = (Inr body, srv')
     \<and> getFlag (sv_db srv') (lit ''t1'') (lit ''e1'') (lit ''checkout'') = Some d' \<and> body = FlagBody (Some d')
     \<and> dv_tree (fst (detail_step (lit ''checkout'') (FlagLoaded (Inr d')) s')) = AndNode [SegmentRef (lit ''staff'') False]"
proof -
  obtain d where "getFlag example_db (lit ''t1'') (lit ''e1'') (lit ''checkout'') = Some d"
    by (simp add: getFlag_def flags_in_def left_join_def example_db_def)
  define req where "req = patch_of \<lparr>t_id = lit ''t1'', t_slug = [], t_name = []\<rparr> (lit ''e1'') None
      (saved_rules d (AndNode [SegmentRef (lit ''staff'') False]))"
  define s' where "s' = fst (detail_step (lit ''checkout'') SaveClicked (open_page d))"
  have step: "detail_step (lit ''checkout'') SaveClicked (open_page d) = (s', [PatchFlagRequest (lit ''checkout'') req])"
    by (simp add: s'_def req_def detail_step_def open_page_def new_detail_view_def)
  obtain body srv' where answered: "console_request Delivered example_config (lit ''secret'') 0
      (PatchFlagRequest (lit ''checkout'') req) example_server = (Inr body, srv')"
    using example_patch_succeeds [of req] by (auto simp: req_def patch_of_def)
  have config: "has_config (sv_db example_server) (lit ''t1'') (lit ''e1'') (lit ''checkout'')"
    by (simp add: has_config_def example_db_def example_server_def)
  have db: "db_ok (sv_db example_server)" using example_db_ok by (simp add: example_server_def)
  have page: "dv_tenant (open_page d) = Some \<lparr>t_id = lit ''t1'', t_slug = [], t_name = []\<rparr>" "dv_flag (open_page d) = Some d"
    "\<not> dv_busy (open_page d)" "dv_dirty (open_page d)" "dv_environmentId (open_page d) = lit ''e1''"
    "dv_tree (open_page d) = AndNode [SegmentRef (lit ''staff'') False]"
    by (simp_all add: open_page_def new_detail_view_def)
  have tree: "typed 9 (dv_tree (open_page d))" "filled (dv_tree (open_page d))"
    by (simp_all add: page typed_group lit_def)
  have "has_config (sv_db example_server) (t_id \<lparr>t_id = lit ''t1'', t_slug = [], t_name = []\<rparr>) (dv_environmentId (open_page d))
      (lit ''checkout'')" using config by (simp add: page)
  from saved_tree_is_loaded [OF db page(1-4) tree step answered, of "[]"] this
  obtain d' where "getFlag (sv_db srv') (lit ''t1'') (lit ''e1'') (lit ''checkout'') = Some d'" "body = FlagBody (Some d')"
    "dv_tree (fst (detail_step (lit ''checkout'') (FlagLoaded (Inr d')) s')) = AndNode [SegmentRef (lit ''staff'') False]"
    by (auto simp: page)
  with step answered show ?thesis unfolding req_def by (intro exI conjI)
qed

section \<open>What a save loses\<close>

text \<open>
  The page edits the tree of the first rule, and a save sends that rule alone: every other rule of the
  flag is deleted.
\<close>

lemma save_drops_rules:
  assumes "dv_tenant s = Some t" "dv_flag s = Some d" "\<not> dv_busy s" "dv_dirty s"
    and "db_ok (sv_db srv)" "getFlag (sv_db srv) (t_id t) (dv_environmentId s) key = Some d"
    and "has_config (sv_db srv) (t_id t) (dv_environmentId s) key"
    and "fd_rules d = JArr (r # rs)" "rs \<noteq> []"
    and "console_request net cfg adminToken now (hd (snd (detail_step key SaveClicked s))) srv = (Inr body, srv')"
  shows "\<exists>d' r'. getFlag (sv_db srv') (t_id t) (dv_environmentId s) key = Some d' \<and> fd_rules d' = JArr [r']"
proof -
  have req: "hd (snd (detail_step key SaveClicked s))
      = PatchFlagRequest key (patch_of t (dv_environmentId s) None (saved_rules d (dv_tree s)))"
    using assms(1-4) by (simp add: detail_step_def)
  obtain previous where "getFlag (sv_db srv) (t_id t) (dv_environmentId s) key = Some previous"
    and after: "getFlag (sv_db srv') = getFlag (write_config now
        \<lparr>uf_tenantId = t_id t, uf_environmentId = dv_environmentId s, uf_key = key, uf_enabled = None,
         uf_defaultVariationKey = None, uf_offVariationKey = None, uf_rules = saved_rules d (dv_tree s)\<rparr> previous (sv_db srv))"
    using console_patch_succeeds [OF assms(10) [unfolded req], of "t_id t" "dv_environmentId s"]
    by (auto simp: patch_of_def)
  then show ?thesis
    using write_own_flag [OF assms(5), of "\<lparr>uf_tenantId = t_id t, uf_environmentId = dv_environmentId s, uf_key = key,
        uf_enabled = None, uf_defaultVariationKey = None, uf_offVariationKey = None,
        uf_rules = saved_rules d (dv_tree s)\<rparr>" d now previous] assms(6,7)
    by (auto simp: after nullish_else_def saved_rules_def)
qed

text \<open>
  After another environment was chosen and before its flag has arrived, a save of unsaved edits sends the
  tree of the old environment to the new one.
\<close>

lemma save_after_switch_writes_old_rules:
  assumes "dv_tenant s = Some t" "dv_flag s = Some d" "\<not> dv_busy s" "dv_dirty s"
  shows "snd (detail_step key SaveClicked (fst (detail_step key (PickEnvironment other) s)))
    = [PatchFlagRequest key (patch_of t other None (saved_rules d (dv_tree s)))]"
  using assms by (simp add: detail_step_def)

end
