(* ===== verification/Migrations.thy ===== *)
theory Migrations
  imports Database Js_Text
begin

text \<open>
  The migration runners: \<open>migrate\<close> of \<open>db.ts\<close> for Postgres, which records what has run, and
  \<open>migrateClickHouse\<close> with \<open>splitStatements\<close> of \<open>clickhouse.ts\<close>, which runs everything again. What
  a text of SQL does to the schema is the business of the servers and a parameter: it gives a new schema
  or the message of an error. A directory is the list of its files with their texts.
\<close>

type_synonym directory = "(js_string \<times> js_string) list"

definition sql_files :: "directory \<Rightarrow> directory" where
  "sql_files dir = order_by (\<lambda>a b. \<not> string_less b a) fst (filter (\<lambda>f. ends_with (fst f) (lit ''.sql'')) dir)"

section \<open>Postgres\<close>

text \<open>\<open>mg_names\<close> is the table \<open>schema_migrations\<close>, \<open>None\<close> before it is created.\<close>

record 's migrated =
  mg_names :: "js_string list option"
  mg_schema :: 's

definition recorded_names :: "'s migrated \<Rightarrow> js_string list" where
  "recorded_names s = (case mg_names s of None \<Rightarrow> [] | Some names \<Rightarrow> names)"

definition create_table :: "'s migrated \<Rightarrow> 's migrated" where
  "create_table s = s\<lparr>mg_names := Some (recorded_names s)\<rparr>"

text \<open>The transaction of one file: its text, then its name, under the primary key of the table.\<close>

definition apply_file ::
    "(js_string \<Rightarrow> 's \<Rightarrow> js_string + 's) \<Rightarrow> js_string \<times> js_string \<Rightarrow> 's migrated \<Rightarrow> js_string + 's migrated" where
  "apply_file run f s =
     (case run (snd f) (mg_schema s) of
        Inl e \<Rightarrow> Inl e
      | Inr schema \<Rightarrow>
          (if fst f \<in> set (recorded_names s) then Inl (lit ''duplicate key value violates unique constraint'')
           else Inr \<lparr>mg_names = Some (recorded_names s @ [fst f]), mg_schema = schema\<rparr>))"

definition migration_failed :: "js_string \<Rightarrow> js_string \<Rightarrow> js_string" where
  "migration_failed name e = lit ''migration '' @ name @ lit '' failed: '' @ e"

fun migrate_loop ::
    "(js_string \<Rightarrow> 's \<Rightarrow> js_string + 's) \<Rightarrow> js_string list \<Rightarrow> directory \<Rightarrow> js_string list \<Rightarrow> 's migrated
     \<Rightarrow> (js_string + js_string list) \<times> 's migrated" where
  "migrate_loop run applied [] names s = (Inr names, s)"
| "migrate_loop run applied (f # fs) names s =
     (if fst f \<in> set applied then migrate_loop run applied fs names s
      else case apply_file run f s of
        Inl e \<Rightarrow> (Inl (migration_failed (fst f) e), s)
      | Inr s' \<Rightarrow> migrate_loop run applied fs (names @ [fst f]) s')"

definition migrate ::
    "(js_string \<Rightarrow> 's \<Rightarrow> js_string + 's) \<Rightarrow> directory \<Rightarrow> 's migrated \<Rightarrow> (js_string + js_string list) \<times> 's migrated" where
  "migrate run dir s =
     (let s' = create_table s in migrate_loop run (recorded_names s') (sql_files dir) [] s')"

section \<open>What has run and what is left\<close>

definition pending_files :: "'s migrated \<Rightarrow> directory \<Rightarrow> directory" where
  "pending_files s dir = filter (\<lambda>f. fst f \<notin> set (recorded_names s)) (sql_files dir)"

text \<open>The schema after some files, when none of them fails.\<close>

fun apply_all :: "(js_string \<Rightarrow> 's \<Rightarrow> js_string + 's) \<Rightarrow> directory \<Rightarrow> 's \<Rightarrow> 's option" where
  "apply_all run [] x = Some x"
| "apply_all run (f # fs) x = (case run (snd f) x of Inl e \<Rightarrow> None | Inr y \<Rightarrow> apply_all run fs y)"

lemma recorded_create [simp]: "recorded_names (create_table s) = recorded_names s" "mg_schema (create_table s) = mg_schema s"
  by (simp_all add: create_table_def recorded_names_def)

lemma distinct_sql_files: "distinct (map fst dir) \<Longrightarrow> distinct (map fst (sql_files dir))"
  by (simp add: sql_files_def distinct_map_filter)

text \<open>\<open>s'\<close> is what remains of \<open>s\<close> when some files have run and been recorded.\<close>

definition progress ::
    "(js_string \<Rightarrow> 's \<Rightarrow> js_string + 's) \<Rightarrow> 's migrated \<Rightarrow> directory \<Rightarrow> 's migrated \<Rightarrow> bool" where
  "progress run s finished s' \<longleftrightarrow> recorded_names s' = recorded_names s @ map fst finished
     \<and> apply_all run finished (mg_schema s) = Some (mg_schema s')"

definition stopped_at ::
    "(js_string \<Rightarrow> 's \<Rightarrow> js_string + 's) \<Rightarrow> 's migrated \<Rightarrow> directory \<Rightarrow> js_string + js_string list \<Rightarrow> bool" where
  "stopped_at run s' rest outcome \<longleftrightarrow>
     (\<exists>f later e. rest = f # later \<and> run (snd f) (mg_schema s') = Inl e \<and> outcome = Inl (migration_failed (fst f) e))"

lemma progress_Nil: "progress run s [] s"
  by (simp add: progress_def)

lemma progress_Cons:
  "run (snd f) (mg_schema s) = Inr (mg_schema t) \<Longrightarrow> recorded_names t = recorded_names s @ [fst f] \<Longrightarrow>
    progress run t finished s' \<Longrightarrow> progress run s (f # finished) s'"
  by (simp add: progress_def)

lemma migrate_loop_skips:
  "migrate_loop run applied fs names s = migrate_loop run applied (filter (\<lambda>f. fst f \<notin> set applied) fs) names s"
  by (induction fs arbitrary: names s) (auto split: sum.split)

text \<open>The loop over files that are all pending.\<close>

lemma migrate_loop_pending:
  assumes "distinct (map fst fs)" "\<forall>f \<in> set fs. fst f \<notin> set applied \<and> fst f \<notin> set (recorded_names s)"
    and "mg_names s \<noteq> None" "migrate_loop run applied fs names s = (outcome, s')"
  shows "\<exists>finished rest. fs = finished @ rest \<and> progress run s finished s' \<and> mg_names s' \<noteq> None
    \<and> (rest = [] \<and> outcome = Inr (names @ map fst finished) \<or> stopped_at run s' rest outcome)"
  using assms
proof (induction fs arbitrary: names s)
  case Nil
  then show ?case using progress_Nil [of run s] by simp
next
  case (Cons f fs)
  have f: "fst f \<notin> set applied" "fst f \<notin> set (recorded_names s)" using Cons.prems(2) by simp_all
  show ?case
  proof (cases "run (snd f) (mg_schema s)")
    case (Inl e)
    then have "s' = s" "stopped_at run s (f # fs) outcome"
      using Cons.prems(4) f by (simp_all add: apply_file_def stopped_at_def)
    with progress_Nil [of run s] Cons.prems(3) show ?thesis by (intro exI [of _ "[]"] exI [of _ "f # fs"]) simp
  next
    case (Inr schema)
    define t where "t = \<lparr>mg_names = Some (recorded_names s @ [fst f]), mg_schema = schema\<rparr>"
    have t: "recorded_names t = recorded_names s @ [fst f]" "mg_schema t = schema" "mg_names t \<noteq> None"
      by (simp_all add: t_def recorded_names_def)
    have "apply_file run f s = Inr t" using Inr f(2) by (simp add: apply_file_def t_def)
    then have loop: "migrate_loop run applied fs (names @ [fst f]) t = (outcome, s')" using Cons.prems(4) f(1) by simp
    have "\<forall>g \<in> set fs. fst g \<notin> set applied \<and> fst g \<notin> set (recorded_names t)"
      using Cons.prems(1,2) by (auto simp: t(1) image_iff)
    from Cons.IH [OF _ this t(3) loop] Cons.prems(1) obtain finished rest where
      ih: "fs = finished @ rest" "progress run t finished s'" "mg_names s' \<noteq> None"
        "rest = [] \<and> outcome = Inr ((names @ [fst f]) @ map fst finished) \<or> stopped_at run s' rest outcome" by auto
    have "progress run s (f # finished) s'" using progress_Cons [OF _ t(1) ih(2)] Inr t(2) by simp
    with ih show ?thesis by (intro exI [of _ "f # finished"] exI [of _ rest]) auto
  qed
qed

lemma pending_after:
  assumes "pending_files s dir = finished @ rest" "distinct (map fst dir)"
    and "recorded_names s' = recorded_names s @ map fst finished"
  shows "pending_files s' dir = rest"
proof -
  have "pending_files s' dir = filter (\<lambda>f. fst f \<notin> set (map fst finished)) (pending_files s dir)"
    by (auto simp: pending_files_def assms(3) intro: filter_cong)
  moreover have "distinct (map fst (finished @ rest))"
    using distinct_sql_files [OF assms(2)] unfolding assms(1) [symmetric]
    by (simp add: pending_files_def distinct_map_filter)
  then have "filter (\<lambda>f. fst f \<notin> set (map fst finished)) (finished @ rest) = rest"
    by (auto simp: filter_empty_conv filter_id_conv)
  ultimately show ?thesis by (simp add: assms(1))
qed

lemma migrate_pending:
  "migrate run dir s = migrate_loop run (recorded_names s) (pending_files s dir) [] (create_table s)"
  unfolding migrate_def Let_def recorded_create pending_files_def by (rule migrate_loop_skips)

text \<open>The files of a run, said without the sort: those with the suffix and no record, each name after the last.\<close>

lemma pending_files_in_order:
  assumes "distinct (map fst dir)"
  shows "sorted_wrt (\<lambda>f g. string_less (fst f) (fst g)) (pending_files s dir)"
    and "set (pending_files s dir) = {f \<in> set dir. ends_with (fst f) (lit ''.sql'') \<and> fst f \<notin> set (recorded_names s)}"
proof -
  have "sorted_wrt (\<lambda>f g. \<not> string_less (fst g) (fst f)) (sql_files dir)"
    unfolding sql_files_def
  proof (rule order_by_sorted)
    show "\<not> string_less b a \<or> \<not> string_less a b" for a b
      using string_less_trans [of a b a] string_less_irrefl [of a] by blast
    show "\<not> string_less b a \<Longrightarrow> \<not> string_less c b \<Longrightarrow> \<not> string_less c a" for a b c
      using string_less_total [of a b] string_less_total [of b c] string_less_trans [of c a b] string_less_trans [of a b c]
        string_less_irrefl by blast
  qed
  then have "sorted_wrt (\<lambda>f g. \<not> string_less (fst g) (fst f)) (pending_files s dir)"
    by (simp add: pending_files_def sorted_wrt_filter)
  moreover have "distinct (map fst (pending_files s dir))"
    using distinct_sql_files [OF assms] by (simp add: pending_files_def distinct_map_filter)
  moreover have "sorted_wrt (\<lambda>f g. string_less (fst f) (fst g)) fs"
    if "sorted_wrt (\<lambda>f g. \<not> string_less (fst g) (fst f)) fs" "distinct (map fst fs)" for fs :: directory
    using that
  proof (induction fs)
    case (Cons f fs)
    have "string_less (fst f) (fst g)" if "g \<in> set fs" for g
      using Cons.prems that string_less_total [of "fst f" "fst g"] by (auto simp: image_iff)
    with Cons show ?case by simp
  qed simp
  ultimately show "sorted_wrt (\<lambda>f g. string_less (fst f) (fst g)) (pending_files s dir)" by blast
  show "set (pending_files s dir) = {f \<in> set dir. ends_with (fst f) (lit ''.sql'') \<and> fst f \<notin> set (recorded_names s)}"
    by (auto simp: pending_files_def sql_files_def)
qed

lemma migrate_parts:
  assumes "distinct (map fst dir)" and "migrate run dir s = (outcome, s')"
  obtains finished rest where "pending_files s dir = finished @ rest" "pending_files s' dir = rest"
    "progress run s finished s'" "create_table s' = s'"
    "rest = [] \<and> outcome = Inr (map fst finished) \<or> stopped_at run s' rest outcome"
proof -
  have d: "distinct (map fst (pending_files s dir))"
    using distinct_sql_files [OF assms(1)] by (simp add: pending_files_def distinct_map_filter)
  have new: "\<forall>f \<in> set (pending_files s dir).
      fst f \<notin> set (recorded_names s) \<and> fst f \<notin> set (recorded_names (create_table s))"
    by (auto simp: pending_files_def)
  have table: "mg_names (create_table s) \<noteq> None" by (simp add: create_table_def)
  have loop: "migrate_loop run (recorded_names s) (pending_files s dir) [] (create_table s) = (outcome, s')"
    using assms(2) by (simp add: migrate_pending)
  from migrate_loop_pending [OF d new table loop] obtain finished rest where parts: "pending_files s dir = finished @ rest"
      "progress run (create_table s) finished s'" "mg_names s' \<noteq> None"
      "rest = [] \<and> outcome = Inr ([] @ map fst finished) \<or> stopped_at run s' rest outcome"
    by blast
  have p: "progress run s finished s'" using parts(2) by (simp add: progress_def)
  then have left: "pending_files s' dir = rest"
    using pending_after [OF parts(1) assms(1), of s'] by (simp add: progress_def)
  have "create_table s' = s'" using parts(3) by (auto simp: create_table_def recorded_names_def)
  from that [OF parts(1) left p this] parts(4) show thesis by simp
qed

lemma nothing_to_migrate: "pending_files s dir = [] \<Longrightarrow> create_table s = s \<Longrightarrow> migrate run dir s = (Inr [], s)"
  by (simp add: migrate_pending)

text \<open>
  C37: every migration is applied once, in order, and an interrupted upgrade is resumed: what is pending are the
  SQL files without a record, in the order of their names; a run applies a first part of them, leaves exactly the schema that these make
  and exactly their names recorded, so that the rest is what a next run starts with, with whatever it
  holds then; it succeeds when nothing is left, after which a run does nothing, and otherwise the first
  file that is left fails on that schema and the error names it; and when no file fails, it succeeds.
\<close>

theorem migrations_apply_once_in_order:
  assumes "distinct (map fst dir)" and "migrate run dir s = (outcome, s')"
  shows "(\<exists>finished rest. pending_files s dir = finished @ rest \<and> pending_files s' dir = rest
      \<and> recorded_names s' = recorded_names s @ map fst finished
      \<and> apply_all run finished (mg_schema s) = Some (mg_schema s')
      \<and> (rest = [] \<and> outcome = Inr (map fst finished) \<and> migrate run dir s' = (Inr [], s')
         \<or> stopped_at run s' rest outcome))
    \<and> sorted_wrt (\<lambda>f g. string_less (fst f) (fst g)) (pending_files s dir)
    \<and> set (pending_files s dir) = {f \<in> set dir. ends_with (fst f) (lit ''.sql'') \<and> fst f \<notin> set (recorded_names s)}
    \<and> ((\<forall>f \<in> set (pending_files s dir). \<forall>x e. run (snd f) x \<noteq> Inl e) \<longrightarrow> outcome = Inr (map fst (pending_files s dir)))"
proof -
  obtain finished rest where parts: "pending_files s dir = finished @ rest" "pending_files s' dir = rest"
      "progress run s finished s'" "create_table s' = s'"
      "rest = [] \<and> outcome = Inr (map fst finished) \<or> stopped_at run s' rest outcome"
    by (rule migrate_parts [OF assms])
  have "outcome = Inr (map fst (pending_files s dir))"
    if "\<forall>f \<in> set (pending_files s dir). \<forall>x e. run (snd f) x \<noteq> Inl e"
    using that parts(1,5) by (auto simp: stopped_at_def)
  moreover have "rest = [] \<and> outcome = Inr (map fst finished) \<and> migrate run dir s' = (Inr [], s')
      \<or> stopped_at run s' rest outcome"
    using parts(5) nothing_to_migrate [OF _ parts(4)] parts(2) by blast
  moreover note pending_files_in_order [OF assms(1), of s]
  ultimately show ?thesis using parts(1-3) unfolding progress_def by blast
qed

text \<open>Two files, of which the second fails until it is repaired.\<close>

definition example_run :: "bool \<Rightarrow> js_string \<Rightarrow> nat \<Rightarrow> js_string + nat" where
  "example_run repaired sql n = (if sql = [] \<and> \<not> repaired then Inl (lit ''syntax error'') else Inr (n + 1))"

definition example_directory :: directory where
  "example_directory = [(lit ''2.sql'', []), (lit ''1.sql'', lit ''a''), (lit ''notes.md'', [])]"

theorem migrations_apply_once_in_order_witness:
  "let s = \<lparr>mg_names = None, mg_schema = 0\<rparr>; (outcome, s') = migrate (example_run False) example_directory s in
     outcome = Inl (lit ''migration 2.sql failed: syntax error'') \<and> recorded_names s' = [lit ''1.sql'']
     \<and> fst (migrate (example_run True) example_directory s') = Inr [lit ''2.sql'']
     \<and> pending_files (snd (migrate (example_run True) example_directory s')) example_directory = []"
proof -
  let ?s = "\<lparr>mg_names = Some [lit ''1.sql''], mg_schema = 1\<rparr>"
  have files: "sql_files example_directory = [(lit ''1.sql'', lit ''a''), (lit ''2.sql'', [])]"
    by (simp add: sql_files_def example_directory_def order_by_def ends_with_def lit_def)
  have first: "migrate (example_run False) example_directory \<lparr>mg_names = None, mg_schema = 0\<rparr>
      = (Inl (lit ''migration 2.sql failed: syntax error''), ?s)"
    by (simp add: migrate_def files create_table_def recorded_names_def apply_file_def example_run_def
        migration_failed_def lit_def)
  have second: "migrate (example_run True) example_directory ?s
      = (Inr [lit ''2.sql''], \<lparr>mg_names = Some [lit ''1.sql'', lit ''2.sql''], mg_schema = 2\<rparr>)"
    by (simp add: migrate_def files create_table_def recorded_names_def apply_file_def example_run_def lit_def)
  have "distinct (map fst example_directory)" by (simp add: example_directory_def lit_def)
  from migrations_apply_once_in_order [OF this second] first second show ?thesis
    by (auto simp: stopped_at_def recorded_names_def)
qed

end
