(* ===== verification/ClickHouse.thy ===== *)
theory ClickHouse
  imports Ingest Json Migrations
begin

text \<open>
  \<open>apps/control-plane/src/clickhouse.ts\<close>: the client of the HTTP interface of ClickHouse. A request is its
  parameters, its credentials and its body; what the server and the network make of it, and \<open>JSON.parse\<close>, are
  parameters. The configured address has no query of its own; the timeout is part of the network.
\<close>

section \<open>Requests\<close>

record ch_options =
  op_url :: "js_string option"
  op_username :: "js_string option"
  op_password :: "js_string option"
  op_database :: "js_string option"

record ch_client =
  ch_url :: js_string
  ch_username :: js_string
  ch_password :: js_string
  ch_database :: js_string

definition setting :: "js_string option \<Rightarrow> js_string option \<Rightarrow> js_string \<Rightarrow> js_string" where
  "setting given env fallback =
     (case given of Some x \<Rightarrow> x | None \<Rightarrow> (case env of Some x \<Rightarrow> x | None \<Rightarrow> fallback))"

text \<open>\<open>replace(/\/+$/, '')\<close>\<close>

definition strip_slashes :: "js_string \<Rightarrow> js_string" where
  "strip_slashes s = rev (dropWhile (\<lambda>c. c = 0x2F) (rev s))"

definition new_ch_client :: "(js_string \<Rightarrow> js_string option) \<Rightarrow> ch_options \<Rightarrow> ch_client" where
  "new_ch_client env options =
     \<lparr>ch_url = strip_slashes (setting (op_url options) (env (lit ''CLICKHOUSE_URL'')) (lit ''http://127.0.0.1:8123'')),
      ch_username = setting (op_username options) (env (lit ''CLICKHOUSE_USER'')) (lit ''flagship''),
      ch_password = setting (op_password options) (env (lit ''CLICKHOUSE_PASSWORD'')) (lit ''flagship''),
      ch_database = setting (op_database options) (env (lit ''CLICKHOUSE_DATABASE'')) (lit ''flagship'')\<rparr>"

record ch_request =
  rq_url :: js_string
  rq_params :: "(js_string, js_string) js_map"
  rq_user :: js_string
  rq_key :: js_string
  rq_body :: js_string

type_synonym query_parameters = "(js_string \<times> js_value) list"

definition search_params :: "ch_client \<Rightarrow> query_parameters \<Rightarrow> (js_string, js_string) js_map" where
  "search_params c parameters =
     fold (\<lambda>(name, v). map_set (lit ''param_'' @ name) (value_to_string v)) parameters
       (map_set (lit ''output_format_json_quote_64bit_integers'') (lit ''0'')
         (map_set (lit ''database'') (ch_database c) []))"

definition send_request :: "ch_client \<Rightarrow> js_string \<Rightarrow> query_parameters \<Rightarrow> js_string option \<Rightarrow> ch_request" where
  "send_request c sql parameters body =
     (let ps = search_params c parameters in
      \<lparr>rq_url = ch_url c,
       rq_params = (case body of None \<Rightarrow> ps | Some b \<Rightarrow> map_set (lit ''query'') sql ps),
       rq_user = ch_username c, rq_key = ch_password c,
       rq_body = (case body of None \<Rightarrow> sql | Some b \<Rightarrow> b)\<rparr>)"

text \<open>What \<open>fetch\<close> gives: a status and a text, or what it throws.\<close>

datatype ch_answer = ChReply nat js_string | ChThrown js_string

datatype ch_error = ClickHouseError js_string nat | OtherFailure js_string

fun error_message :: "ch_error \<Rightarrow> js_string" where
  "error_message (ClickHouseError m n) = m"
| "error_message (OtherFailure m) = m"

definition ch_received :: "ch_answer \<Rightarrow> ch_error + js_string" where
  "ch_received a =
     (case a of
        ChThrown m \<Rightarrow> Inl (OtherFailure m)
      | ChReply n text \<Rightarrow>
          (if 200 \<le> n \<and> n \<le> 299 then Inr text
           else Inl (ClickHouseError (lit ''ClickHouse returned '' @ show_nat n @ lit '': '' @ take 500 text) n)))"

type_synonym 's ch_server = "ch_request \<Rightarrow> 's \<Rightarrow> ch_answer \<times> 's"

definition send ::
    "'s ch_server \<Rightarrow> ch_client \<Rightarrow> js_string \<Rightarrow> query_parameters \<Rightarrow> js_string option \<Rightarrow> 's \<Rightarrow> (ch_error + js_string) \<times> 's" where
  "send server c sql parameters body s =
     (let (a, s') = server (send_request c sql parameters body) s in (ch_received a, s'))"

section \<open>Rows as lines\<close>

definition newline :: "16 word" where
  "newline = 0xA"

definition query_text :: "js_string \<Rightarrow> js_string" where
  "query_text sql = sql @ [newline] @ lit ''FORMAT JSONEachRow''"

definition row_lines :: "js_string \<Rightarrow> js_string list" where
  "row_lines body = filter (\<lambda>line. 0 < length line) (js_split newline body)"

definition ch_query ::
    "(js_string \<Rightarrow> js_value option) \<Rightarrow> 's ch_server \<Rightarrow> ch_client \<Rightarrow> js_string \<Rightarrow> query_parameters \<Rightarrow> 's
     \<Rightarrow> (ch_error + js_value list) \<times> 's" where
  "ch_query json_parse server c sql parameters s =
     (case send server c (query_text sql) parameters None s of
        (Inl e, s') \<Rightarrow> (Inl e, s')
      | (Inr body, s') \<Rightarrow>
          (case those (map json_parse (row_lines body)) of
             None \<Rightarrow> (Inl (OtherFailure (lit ''SyntaxError'')), s')
           | Some rows \<Rightarrow> (Inr rows, s')))"

definition ch_command :: "'s ch_server \<Rightarrow> ch_client \<Rightarrow> js_string \<Rightarrow> query_parameters \<Rightarrow> 's \<Rightarrow> (ch_error + unit) \<times> 's" where
  "ch_command server c sql parameters s =
     (case send server c sql parameters None s of (Inl e, s') \<Rightarrow> (Inl e, s') | (Inr body, s') \<Rightarrow> (Inr (), s'))"

definition insert_sql :: "js_string \<Rightarrow> js_string" where
  "insert_sql table = lit ''INSERT INTO '' @ table @ lit '' FORMAT JSONEachRow''"

text \<open>\<open>JSON.stringify(row)\<close>; a row is an object and has a text.\<close>

definition row_text :: "js_value \<Rightarrow> js_string" where
  "row_text row = (case json_stringify row of None \<Rightarrow> [] | Some t \<Rightarrow> t)"

definition insert_payload :: "js_value list \<Rightarrow> js_string" where
  "insert_payload rows = join [newline] (map row_text rows)"

definition ch_insert ::
    "'s ch_server \<Rightarrow> ch_client \<Rightarrow> js_string \<Rightarrow> js_value list \<Rightarrow> 's \<Rightarrow> (ch_error + unit) \<times> 's" where
  "ch_insert server c table rows s =
     (if rows = [] then (Inr (), s)
      else case send server c (insert_sql table) [] (Some (insert_payload rows)) s of
        (Inl e, s') \<Rightarrow> (Inl e, s') | (Inr body, s') \<Rightarrow> (Inr (), s'))"

definition ping :: "(js_string \<Rightarrow> js_value option) \<Rightarrow> 's ch_server \<Rightarrow> ch_client \<Rightarrow> 's \<Rightarrow> bool \<times> 's" where
  "ping json_parse server c s =
     (case ch_query json_parse server c (lit ''SELECT 1 AS ok'') [] s of
        (Inl e, s') \<Rightarrow> (False, s') | (Inr rows, s') \<Rightarrow> (True, s'))"

text \<open>The row of an exposure, as \<open>validateBatch\<close> builds it.\<close>

definition exposure_row_json :: "exposure_row \<Rightarrow> js_value" where
  "exposure_row_json r = JObj
     [(lit ''tenant_id'', JStr (tenant_id r)), (lit ''environment_key'', JStr (environment_key r)),
      (lit ''flag_key'', JStr (flag_key r)), (lit ''variation_key'', JStr (variation_key r)),
      (lit ''context_key'', JStr (context_key r)), (lit ''ruleset_version'', JNum (ruleset_version r)),
      (lit ''timestamp'', JStr (timestamp r)), (lit ''dedupe_key'', JStr (dedupe_key r))]"

section \<open>JSON texts have no line breaks\<close>

lemma hex_digit_line: "d < 16 \<Longrightarrow> hex_digit d \<noteq> newline"
proof -
  have "list_all (\<lambda>d. hex_digit d \<noteq> newline) [0..<16]" by code_simp
  then show "d < 16 \<Longrightarrow> hex_digit d \<noteq> newline" by (simp add: list_all_iff)
qed

lemma unat_div_16: "unat (c :: 16 word) div 4096 < 16"
  using unsigned_less [of c, where ?'a = nat] by (simp add: less_mult_imp_div_less)

lemma json_char_line: "newline \<notin> set (json_char c)"
proof -
  have "newline \<notin> set (unicode_escape c)"
    using hex_digit_line [of "unat c div 4096"] hex_digit_line [of "unat c div 256 mod 16"]
      hex_digit_line [of "unat c div 16 mod 16"] hex_digit_line [of "unat c mod 16"] unat_div_16 [of c]
    by (auto simp: unicode_escape_def) (simp_all add: lit_def newline_def)
  then show ?thesis by (auto simp: json_char_def lit_def newline_def split: if_splits)
qed

lemma json_chars_line: "newline \<notin> set (json_chars s)"
proof (induction s rule: json_chars.induct)
  case (3 c d cs)
  have "\<not> is_high newline" "\<not> is_low newline" by (simp_all add: is_high_def is_low_def newline_def)
  with 3 json_char_line show ?case by auto
qed (simp_all add: json_char_line)

lemma json_string_line: "newline \<notin> set (json_string s)"
  using json_chars_line [of s] by (auto simp: json_string_def quoted_def lit_def newline_def)

lemma digits_line: "newline \<notin> set (lit (dec_digits n))"
  using show_nat_digits [of n] by (auto simp: show_nat_def is_digit_def newline_def)

lemma lit_take_drop: "newline \<notin> set (lit s) \<Longrightarrow> newline \<notin> set (lit (take k s)) \<and> newline \<notin> set (lit (drop k s))"
  by (auto simp: lit_def dest: in_set_takeD in_set_dropD)

lemma format_digits_line: "newline \<notin> set (lit (format_digits s n k))"
  using digits_line [of "nat s"] digits_line [of "nat \<bar>n - 1\<bar>"] lit_take_drop [of "dec_digits (nat s)"]
  unfolding format_digits_def Let_def by (auto simp: lit_append split: if_splits) (auto simp: lit_def newline_def)

lemma pos_line: "newline \<notin> set (lit (pos_to_string x))"
  by (simp add: pos_to_string_def format_digits_line split: prod.split)

lemma pos_not_Nil: "pos_to_string x \<noteq> []"
proof -
  have "dec_digits n \<noteq> []" for n by (subst dec_digits.simps) simp
  then show ?thesis by (auto simp: pos_to_string_def format_digits_def Let_def split: prod.split)
qed

lemma number_text_line: "newline \<notin> set (number_text n) \<and> number_text n \<noteq> []"
proof -
  have minus: "newline \<notin> set (lit (''-'' @ pos_to_string x))" for x
    using pos_line [of x] unfolding lit_append by (auto simp: lit_def newline_def)
  have "newline \<notin> set (number_to_string n) \<and> number_to_string n \<noteq> []"
  proof (cases n)
    case (Fin x)
    then show ?thesis
      using pos_line [of x] minus [of "- x"] pos_not_Nil [of x] by (auto simp: lit_def newline_def)
  qed (simp_all add: lit_def newline_def)
  moreover have "newline \<notin> set (lit ''null'')" by (simp add: lit_def newline_def)
  ultimately show ?thesis by (simp add: number_text_def)
qed

lemma join_line: "newline \<notin> set sep \<Longrightarrow> \<forall>s \<in> set ss. newline \<notin> set s \<Longrightarrow> newline \<notin> set (join sep ss)"
  by (induction ss rule: induct_list012) auto

lemma stringify_line: "json_stringify v = Some t \<Longrightarrow> newline \<notin> set t \<and> t \<noteq> []"
proof (induction v arbitrary: t)
  case (JNum n)
  then show ?case using number_text_line by auto
next
  case (JArr vs)
  have "newline \<notin> set (case json_stringify v of None \<Rightarrow> lit ''null'' | Some t \<Rightarrow> t)" if "v \<in> set vs" for v
    using JArr.IH [OF that] by (auto simp: lit_def newline_def split: option.splits)
  then have "newline \<notin> set (join (lit '','') (map (\<lambda>v. case json_stringify v of None \<Rightarrow> lit ''null'' | Some t \<Rightarrow> t) vs))"
    by (intro join_line) (auto simp: lit_def newline_def)
  with JArr.prems show ?case by (auto simp: lit_def newline_def)
next
  case (JObj ps)
  let ?f = "\<lambda>(k, v). case json_stringify v of None \<Rightarrow> [] | Some t \<Rightarrow> [json_string k @ lit '':'' @ t]"
  have "newline \<notin> set s" if "p \<in> set ps" "s \<in> set (?f p)" for p s
    using that JObj.IH [of p "snd p"] json_string_line [of "fst p"]
    by (cases p) (auto simp: lit_def newline_def split: option.splits)
  then have "newline \<notin> set (join (lit '','') (concat (map ?f ps)))"
    by (intro join_line) (auto simp: lit_def newline_def)
  with JObj.prems show ?case by (auto simp: lit_def newline_def)
qed (auto simp: json_string_line bool_to_string_def, auto simp: lit_def newline_def json_string_def quoted_def)

section \<open>Framing\<close>

lemma row_text_line: "row \<in> range JObj \<Longrightarrow> newline \<notin> set (row_text row) \<and> row_text row \<noteq> []"
  using stringify_line [of row] by (auto simp: row_text_def)

lemma payload_lines:
  assumes "rows \<noteq> []" "\<forall>row \<in> set rows. row \<in> range JObj"
  shows "row_lines (insert_payload rows) = map row_text rows"
proof -
  have "js_split newline (insert_payload rows) = map row_text rows"
    unfolding insert_payload_def using assms row_text_line by (intro js_split_join) auto
  moreover have "filter (\<lambda>line. 0 < length line) (map row_text rows) = map row_text rows"
    using assms(2) row_text_line by (intro filter_True) auto
  ultimately show ?thesis by (simp add: row_lines_def)
qed

lemma reserved_names:
  "map_get (fold (\<lambda>(name, v). map_set (lit ''param_'' @ name) (value_to_string v)) parameters m) k =
    (case find (\<lambda>p. lit ''param_'' @ fst p = k) (rev parameters) of
       None \<Rightarrow> map_get m k | Some p \<Rightarrow> Some (value_to_string (snd p)))"
  using map_of_index_by_fold [of "\<lambda>p. lit ''param_'' @ fst p" "\<lambda>p. value_to_string (snd p)" parameters m k]
  by (simp add: split_def)

text \<open>A name that a caller cannot give to a parameter.\<close>

definition own_name :: "js_string \<Rightarrow> bool" where
  "own_name k \<longleftrightarrow> \<not> starts_with k (lit ''param_'')"

lemma own_name_find: "own_name k \<Longrightarrow> find (\<lambda>p. lit ''param_'' @ fst p = k) ps = None"
  by (auto simp: own_name_def starts_with_iff find_None_iff_all)

lemma own_name_param:
  "own_name k \<Longrightarrow> map_get (search_params c parameters) k = map_get (search_params c []) k"
  by (simp add: search_params_def reserved_names own_name_find)

text \<open>
  C36: no text from a request can break out of a statement: the body of an insert is one line per row, the
  JSON text of that row, whatever line breaks, quotes or separators its strings contain, and the statement
  beside it is the fixed one; the body of a query is its text whatever the values of its parameters, which
  only reach the server under their own prefixed names; and no parameter can replace the database, the
  output format or the statement.
\<close>

theorem statements_are_injection_free:
  assumes "rows \<noteq> []" "\<forall>row \<in> set rows. row \<in> range JObj" and "own_name k"
  shows "row_lines (rq_body (send_request c (insert_sql table) [] (Some (insert_payload rows)))) = map row_text rows
    \<and> map_get (rq_params (send_request c (insert_sql table) [] (Some (insert_payload rows)))) (lit ''query'')
        = Some (insert_sql table)
    \<and> rq_body (send_request c sql parameters None) = sql
    \<and> map_get (rq_params (send_request c sql parameters None)) k = map_get (rq_params (send_request c sql [] None)) k
    \<and> (distinct (map fst parameters) \<longrightarrow> (\<forall>(name, v) \<in> set parameters.
        map_get (rq_params (send_request c sql parameters None)) (lit ''param_'' @ name) = Some (value_to_string v)))"
proof (intro conjI impI ballI)
  show "row_lines (rq_body (send_request c (insert_sql table) [] (Some (insert_payload rows)))) = map row_text rows"
    using payload_lines [OF assms(1,2)] by (simp add: send_request_def)
  show "map_get (rq_params (send_request c sql parameters None)) k = map_get (rq_params (send_request c sql [] None)) k"
    using own_name_param [OF assms(3), of c parameters] by (simp add: send_request_def)
next
  fix p assume unique: "distinct (map fst parameters)" and p: "p \<in> set parameters"
  obtain name v where nv: "p = (name, v)" by force
  have "find (\<lambda>q. fst q = name) (rev parameters) = Some (name, v)"
    using find_distinct_key [of fst parameters p] unique p nv by simp
  then have "map_get (search_params c parameters) (lit ''param_'' @ name) = Some (value_to_string v)"
    unfolding search_params_def reserved_names by simp
  then show "case p of (name, v) \<Rightarrow>
      map_get (rq_params (send_request c sql parameters None)) (lit ''param_'' @ name) = Some (value_to_string v)"
    by (simp add: send_request_def nv)
qed (simp_all add: send_request_def update_conv')

theorem statements_are_injection_free_witness:
  "let rows = [JObj [(lit ''flag_key'', JStr (lit ''f'' @ [0xA] @ lit ''x''))], JObj []];
       c = new_ch_client (\<lambda>name. None) \<lparr>op_url = Some (lit ''http://ch/''), op_username = None, op_password = None, op_database = None\<rparr>;
       sql = query_text (lit ''SELECT 1''); ps = [(lit ''database'', JStr (lit ''other''))] in
   length (row_lines (rq_body (send_request c (insert_sql (lit ''exposures'')) [] (Some (insert_payload rows))))) = 2
   \<and> map_get (rq_params (send_request c sql ps None)) (lit ''database'') = Some (lit ''flagship'')
   \<and> map_get (rq_params (send_request c sql ps None)) (lit ''param_'' @ lit ''database'') = Some (lit ''other'')"
proof -
  let ?rows = "[JObj [(lit ''flag_key'', JStr (lit ''f'' @ [0xA] @ lit ''x''))], JObj []]"
  let ?c = "new_ch_client (\<lambda>name. None) \<lparr>op_url = Some (lit ''http://ch/''), op_username = None, op_password = None, op_database = None\<rparr>"
  have own: "own_name (lit ''database'')" by (simp add: own_name_def lit_def)
  have "ch_database ?c = lit ''flagship''" by (simp add: new_ch_client_def setting_def)
  then have "map_get (rq_params (send_request ?c sql [] None)) (lit ''database'') = Some (lit ''flagship'')" for sql
    by (simp add: send_request_def search_params_def update_conv')
  with statements_are_injection_free [where rows = ?rows and c = ?c and table = "lit ''exposures''"
      and sql = "query_text (lit ''SELECT 1'')" and parameters = "[(lit ''database'', JStr (lit ''other''))]", OF _ _ own]
  show ?thesis unfolding Let_def by simp
qed

section \<open>Migrations\<close>

definition is_comment :: "js_string \<Rightarrow> bool" where
  "is_comment line \<longleftrightarrow> starts_with (trim_start line) (lit ''--'')"

definition semicolon :: "16 word" where
  "semicolon = 0x3B"

definition splitStatements :: "js_string \<Rightarrow> js_string list" where
  "splitStatements sql =
     filter (\<lambda>statement. 0 < length statement)
       (map js_trim (js_split semicolon
         (join [newline] (filter (\<lambda>line. \<not> is_comment line) (js_split newline sql)))))"

definition ch_migration_failed :: "js_string \<Rightarrow> ch_error \<Rightarrow> ch_error" where
  "ch_migration_failed name e =
     OtherFailure (lit ''ClickHouse migration '' @ name @ lit '' failed: '' @ error_message e)"

text \<open>The statements with their files, in the order in which both loops run them.\<close>

definition all_statements :: "directory \<Rightarrow> (js_string \<times> js_string) list" where
  "all_statements dir = concat (map (\<lambda>(name, sql). map (\<lambda>st. (name, st)) (splitStatements sql)) (sql_files dir))"

fun statements_loop ::
    "'s ch_server \<Rightarrow> ch_client \<Rightarrow> (js_string \<times> js_string) list \<Rightarrow> nat \<Rightarrow> 's \<Rightarrow> (ch_error + nat) \<times> 's" where
  "statements_loop server c [] applied s = (Inr applied, s)"
| "statements_loop server c ((name, st) # sts) applied s =
     (case ch_command server c st [] s of
        (Inl e, s') \<Rightarrow> (Inl (ch_migration_failed name e), s')
      | (Inr u, s') \<Rightarrow> statements_loop server c sts (applied + 1) s')"

definition migrateClickHouse ::
    "'s ch_server \<Rightarrow> ch_client \<Rightarrow> directory \<Rightarrow> 's \<Rightarrow> (ch_error + nat) \<times> 's" where
  "migrateClickHouse server c dir s = statements_loop server c (all_statements dir) 0 s"

text \<open>A migration file: whole lines of comment and statements, each ended by a semicolon.\<close>

datatype sql_item = CommentLine js_string | StatementText js_string

definition item_text :: "sql_item \<Rightarrow> js_string" where
  "item_text i = (case i of CommentLine t \<Rightarrow> lit ''-- '' @ t | StatementText t \<Rightarrow> t @ [semicolon])"

definition file_text :: "sql_item list \<Rightarrow> js_string" where
  "file_text items = concat (map (\<lambda>i. item_text i @ [newline]) items)"

fun statement_of :: "sql_item \<Rightarrow> js_string list" where
  "statement_of (CommentLine t) = []"
| "statement_of (StatementText t) = [t]"

definition plain_item :: "sql_item \<Rightarrow> bool" where
  "plain_item i = (case i of
     CommentLine t \<Rightarrow> newline \<notin> set t
   | StatementText t \<Rightarrow> trimmed t \<and> semicolon \<notin> set t \<and> (\<forall>line \<in> set (js_split newline t). \<not> is_comment line))"

lemma comment_semicolon: "is_comment (line @ [semicolon]) \<longleftrightarrow> is_comment line"
proof -
  have white: "\<not> is_white semicolon" by (simp add: is_white_def semicolon_def)
  show ?thesis
  proof (cases "\<forall>c \<in> set line. is_white c")
    case True
    then have "trim_start (line @ [semicolon]) = [semicolon]" "trim_start line = []"
      using white by (simp_all add: trim_start_def dropWhile_append)
    then show ?thesis by (simp add: is_comment_def lit_def semicolon_def)
  next
    case False
    then have "trim_start (line @ [semicolon]) = trim_start line @ [semicolon]"
      by (auto simp: trim_start_def dropWhile_append)
    moreover have "starts_with (s @ [semicolon]) (lit ''--'') \<longleftrightarrow> starts_with s (lit ''--'')" for s
      by (cases s rule: remdups_adj.cases) (auto simp: lit_def semicolon_def)
    ultimately show ?thesis by (simp add: is_comment_def)
  qed
qed

text \<open>The text that is left when the comment lines are dropped.\<close>

definition code_text :: "js_string \<Rightarrow> js_string" where
  "code_text sql = join [newline] (filter (\<lambda>line. \<not> is_comment line) (js_split newline sql))"

lemma file_text_Cons: "file_text (i # items) = item_text i @ newline # file_text items"
  by (simp add: file_text_def)

lemma code_nonempty: "filter (\<lambda>line. \<not> is_comment line) (js_split newline (file_text items)) \<noteq> []"
proof -
  have "last (js_split newline (file_text items)) = []"
  proof (induction items)
    case (Cons i items)
    then show ?case by (simp add: file_text_Cons js_split_append)
  qed (simp add: file_text_def)
  then have "[] \<in> set (js_split newline (file_text items))" by (metis js_split_not_Nil last_in_set)
  moreover have "\<not> is_comment []" by (simp add: is_comment_def trim_start_def lit_def)
  ultimately show ?thesis by (auto simp: filter_empty_conv)
qed

lemma code_comment: "newline \<notin> set t \<Longrightarrow> code_text (file_text (CommentLine t # items)) = code_text (file_text items)"
proof -
  assume "newline \<notin> set t"
  then have "js_split newline (lit ''-- '' @ t) = [lit ''-- '' @ t]" by (intro js_split_plain) (auto simp: lit_def newline_def)
  moreover have "is_comment (lit ''-- '' @ t)" by (simp add: is_comment_def trim_start_def lit_def is_white_def)
  ultimately show ?thesis
    using js_split_append [of newline "lit ''-- '' @ t" "file_text items"]
    by (simp add: code_text_def file_text_Cons item_text_def)
qed

lemma js_split_snoc:
  "d \<noteq> c \<Longrightarrow> js_split c (s @ [d]) = butlast (js_split c s) @ [last (js_split c s) @ [d]]"
proof (induction s)
  case (Cons e s)
  then show ?case by (cases "js_split c s" rule: remdups_adj.cases) auto
qed simp

lemma code_statement:
  assumes "plain_item (StatementText t)"
  shows "code_text (file_text (StatementText t # items)) = t @ semicolon # newline # code_text (file_text items)"
proof -
  have lines: "\<forall>line \<in> set (js_split newline (t @ [semicolon])). \<not> is_comment line"
    using assms js_split_snoc [of semicolon newline t] comment_semicolon
    by (auto simp: plain_item_def newline_def semicolon_def dest: in_set_butlastD)
  have "js_split newline (file_text (StatementText t # items))
      = js_split newline (t @ [semicolon]) @ js_split newline (file_text items)"
    using js_split_append [of newline "t @ [semicolon]"] by (simp add: file_text_Cons item_text_def)
  then show ?thesis
    using lines code_nonempty [of items] by (simp add: code_text_def join_append join_js_split)
qed

text \<open>The statements of a text, which may follow a line break.\<close>

definition pieces :: "js_string \<Rightarrow> js_string list" where
  "pieces code = filter (\<lambda>st. 0 < length st) (map js_trim (js_split semicolon code))"

lemma pieces_statement:
  assumes "trimmed t" "semicolon \<notin> set t"
  shows "pieces (t @ semicolon # code) = t # pieces code"
    and "pieces (newline # t @ semicolon # code) = t # pieces code"
proof -
  have white: "is_white newline" "newline \<noteq> semicolon" by (simp_all add: is_white_def newline_def semicolon_def)
  have "t \<noteq> []" using assms(1) by (simp add: trimmed_def)
  moreover have "js_split semicolon (t @ semicolon # code) = t # js_split semicolon code"
    using assms(2) by (simp add: js_split_append js_split_plain)
  moreover have "js_split semicolon (newline # t @ semicolon # code) = (newline # t) # js_split semicolon code"
    using assms(2) white(2) js_split_append [of semicolon "newline # t" code] js_split_plain [of semicolon "newline # t"]
    by auto
  ultimately show "pieces (t @ semicolon # code) = t # pieces code"
    "pieces (newline # t @ semicolon # code) = t # pieces code"
    using js_trim_trimmed [OF assms(1)] js_trim_white [OF white(1), of t] by (simp_all add: pieces_def)
qed

lemma code_items:
  "list_all plain_item items \<Longrightarrow> pieces (code_text (file_text items)) = concat (map statement_of items)
    \<and> pieces (newline # code_text (file_text items)) = concat (map statement_of items)"
proof (induction items)
  case Nil
  have "is_white newline" "newline \<noteq> semicolon" "\<not> is_comment []"
    by (simp_all add: is_white_def newline_def semicolon_def is_comment_def trim_start_def lit_def)
  then show ?case by (simp add: file_text_def code_text_def pieces_def js_trim_white)
next
  case (Cons i items)
  then show ?case
  proof (cases i)
    case (CommentLine t)
    with Cons show ?thesis by (simp add: plain_item_def code_comment)
  next
    case (StatementText t)
    with Cons have "trimmed t" "semicolon \<notin> set t" "plain_item (StatementText t)" by (simp_all add: plain_item_def)
    with Cons StatementText show ?thesis by (simp add: code_statement pieces_statement)
  qed
qed

text \<open>
  A migration file is taken apart into its statements: comment lines are dropped, whatever they contain,
  and every statement, which may have many lines, is run once, in order, without its semicolon.
\<close>

lemma migration_statements_recovered:
  "list_all plain_item items \<Longrightarrow> splitStatements (file_text items) = concat (map statement_of items)"
  using code_items [of items] by (simp add: splitStatements_def pieces_def code_text_def [symmetric])

lemma migration_statements_recovered_witness:
  "splitStatements (lit ''-- it; does'' @ [newline] @ lit ''CREATE'' @ [newline] @ lit ''  TABLE t;'' @ [newline])
    = [lit ''CREATE'' @ [newline] @ lit ''  TABLE t'']"
proof -
  let ?items = "[CommentLine (lit ''it; does''), StatementText (lit ''CREATE'' @ [newline] @ lit ''  TABLE t'')]"
  have "file_text ?items = lit ''-- it; does'' @ [newline] @ lit ''CREATE'' @ [newline] @ lit ''  TABLE t;'' @ [newline]"
    by (simp add: file_text_def item_text_def lit_def semicolon_def)
  moreover have "list_all plain_item ?items"
    by (simp add: plain_item_def trimmed_def is_white_def is_comment_def trim_start_def lit_def semicolon_def newline_def)
  ultimately show ?thesis using migration_statements_recovered [of ?items] by simp
qed

text \<open>
  Running the statements again: when every statement leaves a schema as it is that has what the statement
  creates, keeps what the others created, and reports success, a second run of the migrations succeeds
  with as many statements and leaves the schema of the first.
\<close>

lemma statements_loop_again:
  assumes "\<forall>st \<in> set (map snd sts). present st s"
    and "\<And>st x. present st x \<Longrightarrow> ch_command server c st [] x = (Inr (), x)"
  shows "statements_loop server c sts n s = (Inr (n + length sts), s)"
  using assms(1)
proof (induction sts arbitrary: n)
  case (Cons p sts)
  then show ?case using assms(2) [of "snd p" s] by (cases p) simp
qed simp

lemma statements_loop_establishes:
  assumes "statements_loop server c sts n s = (Inr m, s')"
    and "\<And>st x y. ch_command server c st [] x = (Inr (), y) \<Longrightarrow> present st y \<and> (\<forall>t. present t x \<longrightarrow> present t y)"
  shows "(\<forall>st \<in> set (map snd sts). present st s') \<and> (\<forall>t. present t s \<longrightarrow> present t s')"
  using assms(1)
proof (induction sts arbitrary: n s)
  case (Cons p sts)
  obtain name st where p: "p = (name, st)" by force
  obtain x where x: "ch_command server c st [] s = (Inr (), x)" "statements_loop server c sts (n + 1) x = (Inr m, s')"
    using Cons.prems p by (auto split: prod.splits sum.splits)
  from Cons.IH [OF x(2)] assms(2) [OF x(1)] p show ?case by auto
qed simp

lemma migrations_idempotent:
  assumes "migrateClickHouse server c dir s = (Inr n, s')"
    and "\<And>st x y. ch_command server c st [] x = (Inr (), y) \<Longrightarrow> present st y \<and> (\<forall>t. present t x \<longrightarrow> present t y)"
    and "\<And>st x. present st x \<Longrightarrow> ch_command server c st [] x = (Inr (), x)"
  shows "migrateClickHouse server c dir s' = (Inr (length (all_statements dir)), s')"
proof -
  have "\<forall>st \<in> set (map snd (all_statements dir)). present st s'"
    using statements_loop_establishes [where present = present, OF assms(1) [unfolded migrateClickHouse_def] assms(2)] by blast
  from statements_loop_again [where present = present, OF this assms(3), of 0] show ?thesis by (simp add: migrateClickHouse_def)
qed

end
