(* ===== verification/Rollup.thy ===== *)
theory Rollup
  imports Ingest Database
begin

text \<open>
  The other queries of \<open>apps/control-plane/src/exposures.ts\<close> and the hourly rollup that
  \<open>migrations/clickhouse/001_exposures.sql\<close> keeps: a view that adds, for each inserted batch, one row per
  group. How the store reads a timestamp is the parameter \<open>instant_of\<close>, an instant in milliseconds; what
  a HyperLogLog sketch makes of a set of keys is the parameter \<open>approx\<close>.
\<close>

section \<open>Per flag\<close>

record flag_exposures =
  fe_flagKey :: js_string
  fe_exposures :: nat
  fe_distinctContexts :: nat

definition matches_tenant :: "(js_string \<Rightarrow> int) \<Rightarrow> js_string \<Rightarrow> js_string \<Rightarrow> int \<Rightarrow> int \<Rightarrow> exposure_row \<Rightarrow> bool" where
  "matches_tenant instant_of tenant env since until row \<longleftrightarrow>
     tenant_id row = tenant \<and> environment_key row = env
     \<and> since \<le> instant_of (timestamp row) \<and> instant_of (timestamp row) < until"

definition text_le :: "js_string \<Rightarrow> js_string \<Rightarrow> bool" where
  "text_le a b \<longleftrightarrow> \<not> bytes_less (utf8 b) (utf8 a)"

text \<open>\<open>ORDER BY distinct_contexts DESC, flag_key\<close>\<close>

definition busier :: "flag_exposures \<Rightarrow> flag_exposures \<Rightarrow> bool" where
  "busier a b \<longleftrightarrow> fe_distinctContexts b < fe_distinctContexts a
     \<or> fe_distinctContexts a = fe_distinctContexts b \<and> text_le (fe_flagKey a) (fe_flagKey b)"

definition exposuresByFlag ::
    "(js_string \<Rightarrow> int) \<Rightarrow> exposure_row list \<Rightarrow> js_string \<Rightarrow> js_string \<Rightarrow> int \<Rightarrow> int \<Rightarrow> flag_exposures list" where
  "exposuresByFlag instant_of table tenant env since until =
     (let rows = filter (matches_tenant instant_of tenant env since until) table in
      order_by busier id
        (map (\<lambda>k. let group = filter (\<lambda>r. flag_key r = k) rows in
           \<lparr>fe_flagKey = k, fe_exposures = uniqExact dedupe_key group, fe_distinctContexts = uniqExact context_key group\<rparr>)
         (remdups (map flag_key rows))))"

section \<open>The rollup\<close>

record rollup_row =
  ru_tenant :: js_string
  ru_environment :: js_string
  ru_flag :: js_string
  ru_variation :: js_string
  ru_hour :: int
  ru_version :: js_number
  ru_count :: nat
  ru_contexts :: "js_string list"

definition toStartOfHour :: "int \<Rightarrow> int" where
  "toStartOfHour t = t - t mod 3600000"

text \<open>The group of a row, with the aggregates left out.\<close>

definition rollup_group :: "(js_string \<Rightarrow> int) \<Rightarrow> exposure_row \<Rightarrow> rollup_row" where
  "rollup_group instant_of r =
     \<lparr>ru_tenant = tenant_id r, ru_environment = environment_key r, ru_flag = flag_key r, ru_variation = variation_key r,
      ru_hour = toStartOfHour (instant_of (timestamp r)), ru_version = ruleset_version r, ru_count = 0, ru_contexts = []\<rparr>"

definition materialized :: "(js_string \<Rightarrow> int) \<Rightarrow> exposure_row list \<Rightarrow> rollup_row list" where
  "materialized instant_of batch =
     map (\<lambda>g. let group = filter (\<lambda>r. rollup_group instant_of r = g) batch in
            g\<lparr>ru_count := length group, ru_contexts := map context_key group\<rparr>)
       (remdups (map (rollup_group instant_of) batch))"

text \<open>What the inserted batches have left in \<open>exposures\<close> and in \<open>exposures_hourly\<close>.\<close>

definition raw_table :: "exposure_row list list \<Rightarrow> exposure_row list" where
  "raw_table batches = concat batches"

definition rollup_table :: "(js_string \<Rightarrow> int) \<Rightarrow> exposure_row list list \<Rightarrow> rollup_row list" where
  "rollup_table instant_of batches = concat (map (materialized instant_of) batches)"

section \<open>The hourly series\<close>

record hourly_exposures =
  he_hour :: js_string
  he_variationKey :: js_string
  he_exposures :: nat
  he_approximateDistinctContexts :: js_number

definition toDateTime :: "int \<Rightarrow> int" where
  "toDateTime t = t - t mod 1000"

definition hour_text :: "int \<Rightarrow> js_string" where
  "hour_text hour = take 19 (toISOString hour) @ lit ''Z''"

definition matches_hour :: "exposure_query \<Rightarrow> rollup_row \<Rightarrow> bool" where
  "matches_hour q g \<longleftrightarrow> ru_tenant g = q_tenantId q \<and> ru_environment g = q_environmentKey q \<and> ru_flag g = q_flagKey q
     \<and> toDateTime (q_from q) \<le> ru_hour g \<and> ru_hour g < toDateTime (q_to q)"

definition hour_key :: "rollup_row \<Rightarrow> int \<times> js_string" where
  "hour_key g = (ru_hour g, ru_variation g)"

definition hour_le :: "int \<times> js_string \<Rightarrow> int \<times> js_string \<Rightarrow> bool" where
  "hour_le a b \<longleftrightarrow> fst a < fst b \<or> fst a = fst b \<and> text_le (snd a) (snd b)"

definition hourly_point :: "(js_string set \<Rightarrow> js_number) \<Rightarrow> rollup_row list \<Rightarrow> int \<times> js_string \<Rightarrow> hourly_exposures" where
  "hourly_point approx rows k =
     (let group = filter (\<lambda>g. hour_key g = k) rows in
      \<lparr>he_hour = hour_text (fst k), he_variationKey = snd k, he_exposures = sum_list (map ru_count group),
       he_approximateDistinctContexts = approx (set (concat (map ru_contexts group)))\<rparr>)"

definition hourlyExposures ::
    "(js_string set \<Rightarrow> js_number) \<Rightarrow> rollup_row list \<Rightarrow> exposure_query \<Rightarrow> hourly_exposures list" where
  "hourlyExposures approx table q =
     (let rows = filter (matches_hour q) table in
      map (hourly_point approx rows) (order_by hour_le id (remdups (map hour_key rows))))"

section \<open>What the series counts\<close>

text \<open>An inserted row falls in the series when its hour does.\<close>

definition in_series :: "(js_string \<Rightarrow> int) \<Rightarrow> exposure_query \<Rightarrow> exposure_row \<Rightarrow> bool" where
  "in_series instant_of q r \<longleftrightarrow> matches_hour q (rollup_group instant_of r)"

lemma matches_hour_group [simp]:
  "matches_hour q (g\<lparr>ru_count := n, ru_contexts := cs\<rparr>) = matches_hour q g"
  "hour_key (g\<lparr>ru_count := n, ru_contexts := cs\<rparr>) = hour_key g"
  by (simp_all add: matches_hour_def hour_key_def)

lemma sum_over_groups:
  "distinct gs \<Longrightarrow> (\<forall>r \<in> set rs. f r \<in> set gs) \<Longrightarrow>
    (\<Sum>g \<leftarrow> filter p gs. length (filter (\<lambda>r. f r = g) rs)) = length (filter (\<lambda>r. p (f r)) rs)"
proof (induction rs)
  case (Cons r rs)
  have "(\<Sum>g \<leftarrow> filter p gs. length (filter (\<lambda>r. f r = g) (r # rs)))
      = (\<Sum>g \<leftarrow> filter p gs. (if f r = g then 1 else 0)) + (\<Sum>g \<leftarrow> filter p gs. length (filter (\<lambda>r. f r = g) rs))"
    unfolding sum_list_addf [symmetric] by (rule arg_cong [where f = sum_list], rule map_cong) simp_all
  also have "(\<Sum>g \<leftarrow> filter p gs. (if f r = g then 1 else 0 :: nat)) = (if p (f r) then 1 else 0)"
  proof -
    have "distinct (filter p gs)" using Cons.prems(1) by simp
    then have "(\<Sum>g \<leftarrow> filter p gs. (if f r = g then 1 else 0 :: nat)) = (\<Sum>g \<in> set (filter p gs). if f r = g then 1 else 0)"
      by (rule sum_list_distinct_conv_sum_set)
    also have "\<dots> = (if p (f r) then 1 else 0)" using Cons.prems(2) by simp
    finally show ?thesis .
  qed
  also have "(\<Sum>g \<leftarrow> filter p gs. length (filter (\<lambda>r. f r = g) rs)) = length (filter (\<lambda>r. p (f r)) rs)"
    using Cons by simp
  finally show ?case by simp
qed simp

text \<open>The rows of the rollup that satisfy a condition on their group count the rows of these groups.\<close>

lemma materialized_counts:
  assumes "\<And>g n cs. p (g\<lparr>ru_count := n, ru_contexts := cs\<rparr>) = p g"
  shows "sum_list (map ru_count (filter p (materialized instant_of batch)))
      = length (filter (\<lambda>r. p (rollup_group instant_of r)) batch)"
    and "set (concat (map ru_contexts (filter p (materialized instant_of batch))))
      = context_key ` {r \<in> set batch. p (rollup_group instant_of r)}"
  using sum_over_groups [of "remdups (map (rollup_group instant_of) batch)" batch "rollup_group instant_of" p]
  by (auto simp: materialized_def filter_map o_def assms Let_def)

lemma rollup_counts:
  assumes "\<And>g n cs. p (g\<lparr>ru_count := n, ru_contexts := cs\<rparr>) = p g"
  shows "sum_list (map ru_count (filter p (rollup_table instant_of batches)))
      = length (filter (\<lambda>r. p (rollup_group instant_of r)) (raw_table batches))"
    and "set (concat (map ru_contexts (filter p (rollup_table instant_of batches))))
      = context_key ` {r \<in> set (raw_table batches). p (rollup_group instant_of r)}"
  using materialized_counts [OF assms]
  by (induction batches) (auto simp: rollup_table_def raw_table_def image_iff)

lemma sum_list_order_by: "sum_list (map f (order_by le key xs)) = (sum_list (map f xs) :: nat)"
  by (metis mset_map mset_order_by sum_mset_sum_list)

definition series_key :: "(js_string \<Rightarrow> int) \<Rightarrow> exposure_row \<Rightarrow> int \<times> js_string" where
  "series_key instant_of r = hour_key (rollup_group instant_of r)"

lemma series_rows:
  "sum_list (map ru_count (filter (\<lambda>g. hour_key g = k) (filter (matches_hour q) (rollup_table instant_of batches))))
    = length (filter (\<lambda>r. series_key instant_of r = k) (filter (in_series instant_of q) (raw_table batches)))"
  "set (concat (map ru_contexts (filter (\<lambda>g. hour_key g = k) (filter (matches_hour q) (rollup_table instant_of batches)))))
    = context_key ` {r \<in> set (raw_table batches). in_series instant_of q r \<and> series_key instant_of r = k}"
  using rollup_counts [of "\<lambda>g. hour_key g = k \<and> matches_hour q g" instant_of batches]
  by (simp_all add: series_key_def in_series_def conj_commute)

lemma series_keys:
  "hour_key ` set (filter (matches_hour q) (rollup_table instant_of batches))
    = series_key instant_of ` set (filter (in_series instant_of q) (raw_table batches))"
proof -
  have "hour_key ` {g \<in> set (materialized instant_of batch). matches_hour q g}
      = series_key instant_of ` {r \<in> set batch. in_series instant_of q r}" for batch
  proof -
    have "set (materialized instant_of batch) = (\<lambda>g. g\<lparr>ru_count := length (filter (\<lambda>r. rollup_group instant_of r = g) batch),
        ru_contexts := map context_key (filter (\<lambda>r. rollup_group instant_of r = g) batch)\<rparr>)
        ` rollup_group instant_of ` set batch"
      by (simp add: materialized_def Let_def)
    then have "hour_key ` {g \<in> set (materialized instant_of batch). matches_hour q g}
        = hour_key ` {g \<in> rollup_group instant_of ` set batch. matches_hour q g}"
      by (force simp: image_iff)
    then show ?thesis by (auto simp: series_key_def in_series_def image_iff)
  qed
  then show ?thesis
    by (induction batches) (simp_all add: rollup_table_def raw_table_def image_Un Collect_disj_eq conj_disj_distribR)
qed

lemma whole_hour: "3600000 dvd a \<Longrightarrow> toDateTime a = a \<and> (a \<le> toStartOfHour t \<longleftrightarrow> a \<le> t) \<and> (toStartOfHour t < a \<longleftrightarrow> t < a)"
proof -
  assume "3600000 dvd a"
  then obtain k where k: "a = 3600000 * k" by auto
  define d m where "d = t div 3600000" and "m = t mod 3600000"
  have t: "t = 3600000 * d + m" "0 \<le> m" "m < 3600000" by (simp_all add: d_def m_def)
  have start: "toStartOfHour t = 3600000 * d" by (simp add: toStartOfHour_def d_def minus_mod_eq_mult_div)
  have "a \<le> 3600000 * d \<longleftrightarrow> a \<le> t" "3600000 * d < a \<longleftrightarrow> t < a" unfolding k t(1) using t(2,3) by (cases "k \<le> d"; linarith)+
  moreover have "a mod 1000 = 0"
  proof -
    have "a = 1000 * (3600 * k)" using k by simp
    then show ?thesis by (simp only: mod_mult_self1_is_0)
  qed
  ultimately show ?thesis by (simp add: start toDateTime_def)
qed

lemma whole_hours_series:
  assumes "3600000 dvd q_from q" "3600000 dvd q_to q" "q_rulesetVersion q = None"
  shows "in_series instant_of q r = matches_query instant_of q r"
  using whole_hour [OF assms(1)] whole_hour [OF assms(2)]
  by (auto simp: in_series_def matches_hour_def matches_query_def rollup_group_def assms(3))

lemma exact_without_duplicates:
  assumes "v \<in> set (exposuresByVariation instant_of table q)"
    and "distinct (map dedupe_key (filter (matches_query instant_of q) table))"
  shows "ve_exposures v = length (filter (\<lambda>r. variation_key r = ve_variationKey v) (filter (matches_query instant_of q) table))"
proof -
  have "distinct (map dedupe_key (filter (\<lambda>r. variation_key r = k) (filter (matches_query instant_of q) table)))" for k
    by (rule distinct_map_filter [OF assms(2)])
  then show ?thesis using assms(1) by (auto simp: exposuresByVariation_def Let_def uniqExact_def distinct_remdups_id)
qed

text \<open>
  C35: the hourly series counts what was inserted, however it was batched: it has one point for each hour and
  variation with an inserted row of the flag in that hour, its count is the number of these rows and its
  contexts are theirs, and the counts add up to the number of rows whose hour is in the window. Without
  duplicates and over whole hours, the counts of a variation add up to its exact number of exposures.
\<close>

theorem hourly_series_counts_inserts:
  fixes instant_of batches q approx
  defines "series \<equiv> hourlyExposures approx (rollup_table instant_of batches) q"
    and "rows \<equiv> filter (in_series instant_of q) (raw_table batches)"
  shows "set series = (\<lambda>k. \<lparr>he_hour = hour_text (fst k), he_variationKey = snd k,
        he_exposures = length (filter (\<lambda>r. series_key instant_of r = k) rows),
        he_approximateDistinctContexts = approx (context_key ` {r \<in> set rows. series_key instant_of r = k})\<rparr>)
      ` series_key instant_of ` set rows
    \<and> sum_list (map he_exposures series) = length rows
    \<and> (3600000 dvd q_from q \<and> 3600000 dvd q_to q \<and> q_rulesetVersion q = None
        \<and> distinct (map dedupe_key (filter (matches_query instant_of q) (raw_table batches))) \<longrightarrow>
      (\<forall>v \<in> set (exposuresByVariation instant_of (raw_table batches) q).
        sum_list (map he_exposures (filter (\<lambda>h. he_variationKey h = ve_variationKey v) series)) = ve_exposures v))"
proof -
  let ?groups = "filter (matches_hour q) (rollup_table instant_of batches)"
  let ?keys = "order_by hour_le id (remdups (map hour_key ?groups))"
  have point: "hourly_point approx ?groups k = \<lparr>he_hour = hour_text (fst k), he_variationKey = snd k,
        he_exposures = length (filter (\<lambda>r. series_key instant_of r = k) rows),
        he_approximateDistinctContexts = approx (context_key ` {r \<in> set rows. series_key instant_of r = k})\<rparr>" for k
    unfolding hourly_point_def Let_def series_rows rows_def by (simp add: conj_commute conj_left_commute)
  have series: "series = map (hourly_point approx ?groups) ?keys"
    by (simp add: series_def hourlyExposures_def Let_def)
  have keys: "set ?keys = series_key instant_of ` set rows"
    using series_keys [of q instant_of batches] by (simp add: rows_def)
  have count: "sum_list (map he_exposures (filter (\<lambda>h. P (he_variationKey h)) series))
      = length (filter (\<lambda>r. P (variation_key r)) rows)" for P
  proof -
    have "sum_list (map he_exposures (filter (\<lambda>h. P (he_variationKey h)) series))
        = (\<Sum>k \<leftarrow> filter (\<lambda>k. P (snd k)) ?keys. length (filter (\<lambda>r. series_key instant_of r = k) rows))"
      unfolding series filter_map map_map by (simp add: o_def point)
    also have "\<dots> = length (filter (\<lambda>r. P (snd (series_key instant_of r))) rows)"
    proof (rule sum_over_groups)
      show "distinct ?keys" using distinct_map_order_by [of id hour_le id "remdups (map hour_key ?groups)"] by simp
    qed (use keys in auto)
    finally show ?thesis by (simp add: series_key_def hour_key_def rollup_group_def)
  qed
  have "sum_list (map he_exposures series) = length rows" using count [of "\<lambda>v. True"] by simp
  moreover have "set series = (\<lambda>k. \<lparr>he_hour = hour_text (fst k), he_variationKey = snd k,
        he_exposures = length (filter (\<lambda>r. series_key instant_of r = k) rows),
        he_approximateDistinctContexts = approx (context_key ` {r \<in> set rows. series_key instant_of r = k})\<rparr>)
      ` series_key instant_of ` set rows"
    unfolding keys [symmetric] unfolding series set_map by (rule image_cong [OF refl point])
  moreover have "sum_list (map he_exposures (filter (\<lambda>h. he_variationKey h = ve_variationKey v) series)) = ve_exposures v"
    if "3600000 dvd q_from q" "3600000 dvd q_to q" "q_rulesetVersion q = None"
      "distinct (map dedupe_key (filter (matches_query instant_of q) (raw_table batches)))"
      "v \<in> set (exposuresByVariation instant_of (raw_table batches) q)" for v
  proof -
    have "rows = filter (matches_query instant_of q) (raw_table batches)"
      unfolding rows_def whole_hours_series [OF that(1-3)] ..
    with exact_without_duplicates [OF that(5,4)] show ?thesis
      using count [of "\<lambda>k. k = ve_variationKey v"] by simp
  qed
  ultimately show ?thesis by blast
qed

definition example_window :: exposure_query where
  "example_window = \<lparr>q_tenantId = lit ''t1'', q_environmentKey = lit ''prod'', q_flagKey = lit ''f'', q_from = 0,
     q_to = 7200000, q_rulesetVersion = None\<rparr>"

theorem hourly_series_counts_inserts_witness:
  "let batches = [[example_stored], [example_stored\<lparr>dedupe_key := lit ''d2''\<rparr>]] in
     (\<forall>v \<in> set (exposuresByVariation (\<lambda>s. 1800000) (raw_table batches) example_window).
       sum_list (map he_exposures (filter (\<lambda>h. he_variationKey h = ve_variationKey v)
         (hourlyExposures (\<lambda>ks. NaN) (rollup_table (\<lambda>s. 1800000) batches) example_window))) = ve_exposures v)
     \<and> lit ''on'' \<in> ve_variationKey ` set (exposuresByVariation (\<lambda>s. 1800000) (raw_table batches) example_window)"
proof -
  let ?batches = "[[example_stored], [example_stored\<lparr>dedupe_key := lit ''d2''\<rparr>]]"
  have rows: "filter (matches_query (\<lambda>s. 1800000) example_window) (raw_table ?batches) = concat ?batches"
    by (simp add: raw_table_def matches_query_def example_window_def example_stored_def)
  have "distinct (map dedupe_key (concat ?batches))" by (simp add: example_stored_def)
  then have "distinct (map dedupe_key (filter (matches_query (\<lambda>s. 1800000) example_window) (raw_table ?batches)))"
    by (simp only: rows)
  moreover have "3600000 dvd q_from example_window" "3600000 dvd q_to example_window" "q_rulesetVersion example_window = None"
    by (simp_all add: example_window_def)
  moreover have "lit ''on'' \<in> ve_variationKey ` set (exposuresByVariation (\<lambda>s. 1800000) (raw_table ?batches) example_window)"
    unfolding exposuresByVariation_set rows by (simp add: variation_counts_def example_stored_def)
  ultimately show ?thesis
    using hourly_series_counts_inserts [of "\<lambda>ks. NaN" "\<lambda>s. 1800000" ?batches example_window] unfolding Let_def by blast
qed

section \<open>Where the series is something else\<close>

text \<open>
  Over a window that does not start on the hour the first partial hour is left out, and the last one is
  counted to its end: an event at 10:45 is not in the series from 10:30, and one at 11:45 is in the series
  to 11:30.
\<close>

lemma partial_hours_are_shifted:
  assumes "q_from q = 10 * 3600000 + 1800000" "q_to q = 11 * 3600000 + 1800000" "q_rulesetVersion q = None"
    and "tenant_id r = q_tenantId q" "environment_key r = q_environmentKey q" "flag_key r = q_flagKey q"
  shows "instant_of (timestamp r) = 10 * 3600000 + 2700000 \<Longrightarrow>
      matches_query instant_of q r \<and> \<not> in_series instant_of q r"
    and "instant_of (timestamp r) = 11 * 3600000 + 2700000 \<Longrightarrow>
      \<not> matches_query instant_of q r \<and> in_series instant_of q r"
  using assms
  by (simp_all add: matches_query_def in_series_def matches_hour_def rollup_group_def toStartOfHour_def toDateTime_def)

text \<open>The version that a query asks for does not restrict the series.\<close>

lemma series_ignores_version:
  "hourlyExposures approx table (q\<lparr>q_rulesetVersion := v\<rparr>) = hourlyExposures approx table q"
proof -
  have "matches_hour (q\<lparr>q_rulesetVersion := v\<rparr>) = matches_hour q" by (simp add: matches_hour_def fun_eq_iff)
  then show ?thesis by (simp add: hourlyExposures_def)
qed

text \<open>
  The keys by which exposures are counted are made per buffer from a counter: two processes that record the
  same user, flag and version as their first event give them one key, and the two count as one exposure.
\<close>

lemma buffers_share_keys:
  assumes "in_dedupeKey e = None"
  shows "ev_dedupeKey (make_event e stamp 1) = ev_dedupeKey (make_event e stamp' 1)"
  using assms by (simp add: make_event_def)

end
