(* ===== verification/Delivery.thy ===== *)
theory Delivery
  imports Console_Api
begin

text \<open>
  From a recorded exposure to a stored row: \<open>HttpExposureTransport\<close> of \<open>exposure.ts\<close> between the buffer of
  the SDK and the ingest route of the control plane, the timer of the buffer, and \<open>drain\<close> of the
  writer, with the \<open>stats\<close> of both. The parse of the JSON body gives what was written, but for numbers that are not finite.
\<close>

section \<open>The transport\<close>

definition event_json :: "exposure_event \<Rightarrow> js_value" where
  "event_json ev = JObj
     [(lit ''flagKey'', JStr (ev_flagKey ev)), (lit ''variationKey'', JStr (ev_variationKey ev)),
      (lit ''contextKey'', JStr (ev_contextKey ev)),
      (lit ''rulesetVersion'', if is_finite_number (ev_rulesetVersion ev) then JNum (ev_rulesetVersion ev) else JNull),
      (lit ''timestamp'', JStr (ev_timestamp ev)), (lit ''dedupeKey'', JStr (ev_dedupeKey ev))]"

definition ingest_body :: "exposure_event list \<Rightarrow> js_value" where
  "ingest_body batch = JObj [(lit ''events'', JArr (map event_json batch))]"

text \<open>\<open>send\<close>: true when it resolves. An abort of the timeout is a request or an answer that is lost.\<close>

definition send_batch ::
    "network \<Rightarrow> server_config \<Rightarrow> js_string \<Rightarrow> int \<Rightarrow> exposure_event list \<Rightarrow> server \<Rightarrow> bool \<times> server" where
  "send_batch net cfg sdkKey now batch srv =
     (let (r, srv') = handle cfg (now, ExposuresRequest (Some (bearer @ sdkKey)) (ingest_body batch)) srv in
      case net of
        Delivered \<Rightarrow> (ok_code (code r), srv')
      | Lost timeout \<Rightarrow> (False, srv)
      | AnswerLost timeout \<Rightarrow> (False, srv'))"

text \<open>The settlement of the flush in flight, with the server that it reached.\<close>

definition deliver_batch ::
    "network \<Rightarrow> server_config \<Rightarrow> js_string \<Rightarrow> int \<Rightarrow> buffer \<times> server \<Rightarrow> buffer \<times> server" where
  "deliver_batch net cfg sdkKey now bs =
     (let (b, srv) = bs in
      case in_flight b of
        None \<Rightarrow> (b, srv)
      | Some batch \<Rightarrow> (let (ok, srv') = send_batch net cfg sdkKey now batch srv in (flush_end ok b, srv')))"

section \<open>What arrives\<close>

lemma range_Lost [simp]: "Delivered \<notin> range Lost" "AnswerLost b \<notin> range Lost" "Lost b \<in> range Lost"
  by auto

definition usable_text :: "js_string \<Rightarrow> bool" where
  "usable_text s \<longleftrightarrow> 0 < length s \<and> length s \<le> MAX_FIELD_LENGTH"

text \<open>An event that the server takes when its clock shows \<open>now\<close>.\<close>

definition timely :: "(js_string \<Rightarrow> int option) \<Rightarrow> int \<Rightarrow> js_string \<Rightarrow> bool" where
  "timely date_of now stamp \<longleftrightarrow> (\<exists>instant. date_of stamp = Some instant
     \<and> - MAX_BACKDATE_MILLIS \<le> instant - now \<and> instant - now \<le> MAX_CLOCK_SKEW_MILLIS)"

definition acceptable :: "(js_string \<Rightarrow> int option) \<Rightarrow> int \<Rightarrow> exposure_event \<Rightarrow> bool" where
  "acceptable date_of now ev \<longleftrightarrow>
     usable_text (ev_flagKey ev) \<and> usable_text (ev_variationKey ev) \<and> usable_text (ev_contextKey ev)
     \<and> usable_text (ev_dedupeKey ev) \<and> is_integer_number (ev_rulesetVersion ev)
     \<and> num_le (Fin 0) (ev_rulesetVersion ev) \<and> timely date_of now (ev_timestamp ev)"

definition row_of_event :: "(js_string \<Rightarrow> int option) \<Rightarrow> authenticated_key \<Rightarrow> exposure_event \<Rightarrow> exposure_row" where
  "row_of_event date_of scope ev =
     \<lparr>tenant_id = tenantId scope, environment_key = scope_environmentKey scope, flag_key = ev_flagKey ev,
      variation_key = ev_variationKey ev, context_key = ev_contextKey ev, ruleset_version = ev_rulesetVersion ev,
      timestamp = toClickHouseDateTime (the (date_of (ev_timestamp ev))), dedupe_key = ev_dedupeKey ev\<rparr>"

lemma acceptable_row:
  assumes "acceptable date_of now ev"
  shows "validate_event date_of now scope (event_json ev) = Inr (row_of_event date_of scope ev)"
proof -
  have fields: "get_prop (event_json ev) (lit ''flagKey'') = JStr (ev_flagKey ev)"
    "get_prop (event_json ev) (lit ''variationKey'') = JStr (ev_variationKey ev)"
    "get_prop (event_json ev) (lit ''contextKey'') = JStr (ev_contextKey ev)"
    "get_prop (event_json ev) (lit ''timestamp'') = JStr (ev_timestamp ev)"
    "get_prop (event_json ev) (lit ''dedupeKey'') = JStr (ev_dedupeKey ev)"
    by (simp_all add: event_json_def)
  have n: "is_integer_number (ev_rulesetVersion ev)" "\<not> num_lt (ev_rulesetVersion ev) (Fin 0)"
    "get_prop (event_json ev) (lit ''rulesetVersion'') = JNum (ev_rulesetVersion ev)"
    using assms by (cases "ev_rulesetVersion ev"; simp add: acceptable_def event_json_def)+
  obtain instant where "date_of (ev_timestamp ev) = Some instant" "\<not> MAX_CLOCK_SKEW_MILLIS < instant - now"
    "\<not> MAX_BACKDATE_MILLIS < - (instant - now)"
    using assms by (auto simp: acceptable_def timely_def)
  moreover have "find (\<lambda>f. \<not> isUsableString (get_prop (event_json ev) f)) required_fields = None"
    using assms by (simp add: required_fields_def fields acceptable_def usable_text_def)
  moreover have "is_object (event_json ev)" by (simp add: event_json_def)
  ultimately show ?thesis by (simp add: validate_event_def fields n row_of_event_def Let_def)
qed

lemma timely_case:
  "timely date_of now stamp \<longleftrightarrow> (case date_of stamp of None \<Rightarrow> False
     | Some instant \<Rightarrow> \<not> MAX_CLOCK_SKEW_MILLIS < instant - now \<and> \<not> MAX_BACKDATE_MILLIS < - (instant - now))"
  by (auto simp: timely_def split: option.split)

lemma unacceptable_row:
  assumes "\<not> acceptable date_of now ev"
  shows "\<exists>why. validate_event date_of now scope (event_json ev) = Inl why"
proof -
  have fields: "get_prop (event_json ev) (lit ''flagKey'') = JStr (ev_flagKey ev)"
    "get_prop (event_json ev) (lit ''variationKey'') = JStr (ev_variationKey ev)"
    "get_prop (event_json ev) (lit ''contextKey'') = JStr (ev_contextKey ev)"
    "get_prop (event_json ev) (lit ''timestamp'') = JStr (ev_timestamp ev)"
    "get_prop (event_json ev) (lit ''dedupeKey'') = JStr (ev_dedupeKey ev)"
    "get_prop (event_json ev) (lit ''rulesetVersion'')
      = (if is_finite_number (ev_rulesetVersion ev) then JNum (ev_rulesetVersion ev) else JNull)"
    by (simp_all add: event_json_def)
  have object: "is_object (event_json ev)" by (simp add: event_json_def)
  have texts: "find (\<lambda>f. \<not> isUsableString (get_prop (event_json ev) f)) required_fields = None \<longleftrightarrow>
      usable_text (ev_flagKey ev) \<and> usable_text (ev_variationKey ev) \<and> usable_text (ev_contextKey ev) \<and> usable_text (ev_dedupeKey ev)"
    by (simp add: find_None_iff_all required_fields_def fields usable_text_def)
  have number: "is_integer_number n \<Longrightarrow> \<not> num_lt n (Fin 0) \<Longrightarrow> num_le (Fin 0) n" for n by (cases n) simp_all
  show ?thesis
  proof (cases "find (\<lambda>f. \<not> isUsableString (get_prop (event_json ev) f)) required_fields")
    case None
    with texts assms number [of "ev_rulesetVersion ev"] show ?thesis
      by (auto simp: validate_event_def object fields acceptable_def timely_case Let_def split: option.splits)
  qed (simp add: validate_event_def object)
qed

text \<open>The events of a batch that the server turns into rows, and these rows.\<close>

definition batch_rows ::
    "(js_string \<Rightarrow> int option) \<Rightarrow> int \<Rightarrow> authenticated_key \<Rightarrow> exposure_event list \<Rightarrow> exposure_row list" where
  "batch_rows date_of now scope batch = map (row_of_event date_of scope) (filter (acceptable date_of now) batch)"

lemma validated_batch:
  "fst (validateBatch date_of now scope (map event_json batch)) = batch_rows date_of now scope batch"
proof -
  have "concat (map (\<lambda>e. case validate_event date_of now scope e of Inl why \<Rightarrow> [] | Inr row \<Rightarrow> [row]) (map event_json batch))
      = batch_rows date_of now scope batch"
  proof (induction batch)
    case (Cons ev batch)
    then show ?case
      using acceptable_row [of date_of now ev scope] unacceptable_row [of date_of now ev scope]
      by (cases "acceptable date_of now ev") (auto simp: batch_rows_def)
  qed (simp add: batch_rows_def)
  then show ?thesis by (simp add: validateBatch_def validate_loop_eq)
qed

lemma events_never_raise: "\<not> list_ex timestamp_raises (map event_json batch)"
  by (simp add: list_ex_iff timestamp_raises_def event_json_def)

lemma batch_reply:
  assumes "authenticateKey (sc_sha256 cfg) (sv_db srv) sdkKey = Some scope" "sv_writer srv = Some w"
  shows "case handle cfg (now, ExposuresRequest (Some (bearer @ sdkKey)) (ingest_body batch)) srv of (r, srv') \<Rightarrow>
    if MAX_BATCH_SIZE < length batch then code r = 413 \<and> sv_writer srv' = Some w
    else case enqueue (sc_maxInFlightRows cfg) (batch_rows (sc_date_of cfg) now scope batch) w of (ok, w') \<Rightarrow>
      code r = (if ok then 202 else 429) \<and> sv_writer srv' = Some w'"
proof -
  have "requireSdkKey cfg now (Some (bearer @ sdkKey)) (sv_db srv) = (Some scope, touchKeyUsage now (apiKeyId scope) (sv_db srv))"
    using assms(1) by (simp add: requireSdkKey_def starts_with_iff)
  moreover obtain rejected where "validateBatch (sc_date_of cfg) now scope (map event_json batch)
      = (batch_rows (sc_date_of cfg) now scope batch, rejected)"
    using validated_batch by (metis prod.collapse)
  ultimately show ?thesis
    using events_never_raise [of batch]
    by (simp add: exposures_route_def ingest_route_def assms(2) ingest_body_def reply_with_def split: prod.split)
qed

text \<open>
  C33: what a flush does to both ends, for a valid key. The server takes a batch that reaches it when the batch
  has at most the size of the contract and the writer has room for its rows; then the writer holds one row per
  acceptable event, in order, with its data and its idempotency key, under the tenant and environment of the
  key, and otherwise it accepts nothing. Events that are not acceptable get no row. The buffer counts the
  whole batch as sent exactly when the server took it and the answer arrived, and as failed otherwise: a
  batch whose answer is lost is stored and counted as failed. What was queued meanwhile stays queued.
\<close>

theorem sent_events_are_accepted_rows:
  assumes "authenticateKey (sc_sha256 cfg) (sv_db srv) sdkKey = Some scope" and "sv_writer srv = Some w"
    and "in_flight b = Some batch"
    and "deliver_batch net cfg sdkKey now (b, srv) = (b', srv')"
  shows "let rows = batch_rows (sc_date_of cfg) now scope batch;
      fits = length batch \<le> MAX_BATCH_SIZE \<and> (rows = [] \<or> inFlightRows w + length rows \<le> sc_maxInFlightRows cfg);
      taken = fits \<and> net \<notin> range Lost
    in in_flight b' = None \<and> queue b' = queue b
      \<and> (if taken \<and> net = Delivered then sent b' = sent b + length batch \<and> failed b' = failed b
         else sent b' = sent b \<and> failed b' = failed b + length batch)
      \<and> (\<exists>w'. sv_writer srv' = Some w'
         \<and> (if taken
            then accepted_rows w' = accepted_rows w + length rows \<and> unsettled w' = unsettled w @ (if rows = [] then [] else [rows])
            else accepted_rows w' = accepted_rows w \<and> unsettled w' = unsettled w))"
proof -
  obtain r t where h: "handle cfg (now, ExposuresRequest (Some (bearer @ sdkKey)) (ingest_body batch)) srv = (r, t)" by force
  define rows where "rows = batch_rows (sc_date_of cfg) now scope batch"
  define fits where "fits \<longleftrightarrow> length batch \<le> MAX_BATCH_SIZE \<and> (rows = [] \<or> inFlightRows w + length rows \<le> sc_maxInFlightRows cfg)"
  obtain ok w'' where q: "enqueue (sc_maxInFlightRows cfg) rows w = (ok, w'')" by force
  have reply: "if MAX_BATCH_SIZE < length batch then code r = 413 \<and> sv_writer t = Some w
    else code r = (if ok then 202 else 429) \<and> sv_writer t = Some w''"
    using batch_reply [OF assms(1,2), where now = now and batch = batch] unfolding h q rows_def [symmetric] prod.case .
  have w'': "ok \<longleftrightarrow> rows = [] \<or> inFlightRows w + length rows \<le> sc_maxInFlightRows cfg"
    "ok \<Longrightarrow> unsettled w'' = unsettled w @ (if rows = [] then [] else [rows]) \<and> accepted_rows w'' = accepted_rows w + length rows"
    "\<not> ok \<Longrightarrow> accepted_rows w'' = accepted_rows w \<and> unsettled w'' = unsettled w"
    using q by (auto simp: enqueue_def split: if_splits)
  have answer: "ok_code (code r) \<longleftrightarrow> fits" using reply w''(1) by (simp add: ok_code_def fits_def split: if_splits)
  have stored: "\<exists>w'. sv_writer t = Some w'
     \<and> (if fits then accepted_rows w' = accepted_rows w + length rows \<and> unsettled w' = unsettled w @ (if rows = [] then [] else [rows])
        else accepted_rows w' = accepted_rows w \<and> unsettled w' = unsettled w)"
  proof -
    have t: "sv_writer t = Some (if length batch \<le> MAX_BATCH_SIZE then w'' else w)" using reply by (simp split: if_splits)
    show ?thesis
    proof (cases "length batch \<le> MAX_BATCH_SIZE")
      case True
      then have "fits \<longleftrightarrow> ok" by (simp add: fits_def w''(1))
      with True t w''(2,3) show ?thesis by (cases ok) simp_all
    qed (simp add: t fits_def)
  qed
  have d: "(b', srv') = (flush_end (case net of Delivered \<Rightarrow> ok_code (code r) | _ \<Rightarrow> False) b,
      case net of Lost timeout \<Rightarrow> srv | _ \<Rightarrow> t)"
    using assms(3,4) by (cases net) (simp_all add: deliver_batch_def send_batch_def h del: handle.simps)
  have settled: "sent (flush_end s b) = sent b + (if s then length batch else 0)"
    "failed (flush_end s b) = failed b + (if s then 0 else length batch)" "in_flight (flush_end s b) = None"
    "queue (flush_end s b) = queue b" for s
    by (simp_all add: flush_end_def assms(3))
  have "if fits \<and> net \<notin> range Lost \<and> net = Delivered then sent b' = sent b + length batch \<and> failed b' = failed b
      else sent b' = sent b \<and> failed b' = failed b + length batch"
    using d settled answer by (cases net) simp_all
  moreover have "\<exists>w'. sv_writer srv' = Some w'
     \<and> (if fits \<and> net \<notin> range Lost
        then accepted_rows w' = accepted_rows w + length rows \<and> unsettled w' = unsettled w @ (if rows = [] then [] else [rows])
        else accepted_rows w' = accepted_rows w \<and> unsettled w' = unsettled w)"
    using d stored assms(2) by (cases net) (auto simp: image_iff)
  ultimately show ?thesis using d settled unfolding Let_def rows_def [symmetric] fits_def [symmetric] by simp
qed

definition example_exposure :: exposure_input where
  "example_exposure = \<lparr>in_flagKey = lit ''f'', in_variationKey = lit ''on'', in_contextKey = lit ''u'',
     in_rulesetVersion = Fin 1, in_timestamp = None, in_dedupeKey = Some (lit ''d1'')\<rparr>"

text \<open>The witness: of two events the second is too old, and the answer is lost.\<close>

definition stamp_of :: "js_string \<Rightarrow> int option" where
  "stamp_of s = (if s = lit ''now'' then Some 0 else Some (- 2 * MAX_BACKDATE_MILLIS))"

theorem sent_events_are_accepted_rows_witness:
  "let ev = make_event example_exposure (lit ''now'') 1; old = make_event example_exposure (lit ''old'') 2;
       start = (new_buffer\<lparr>in_flight := Some [ev, old], recorded := 2\<rparr>, keyed_server\<lparr>sv_writer := Some new_writer\<rparr>);
       cfg = example_config\<lparr>sc_date_of := stamp_of\<rparr>;
       (b, srv) = deliver_batch Delivered cfg client_key_text 5 start;
       (b', srv') = deliver_batch (AnswerLost True) cfg client_key_text 5 start in
   sent b = 2 \<and> failed b = 0 \<and> sent b' = 0 \<and> failed b' = 2
   \<and> (\<exists>w row. sv_writer srv = Some w \<and> unsettled w = [[row]] \<and> dedupe_key row = ev_dedupeKey ev)
   \<and> (\<exists>w row. sv_writer srv' = Some w \<and> unsettled w = [[row]] \<and> dedupe_key row = ev_dedupeKey ev)"
proof -
  let ?cfg = "example_config\<lparr>sc_date_of := stamp_of\<rparr>" and ?srv = "keyed_server\<lparr>sv_writer := Some new_writer\<rparr>"
  let ?ev = "make_event example_exposure (lit ''now'') 1" and ?old = "make_event example_exposure (lit ''old'') 2"
  let ?b = "new_buffer\<lparr>in_flight := Some [?ev, ?old], recorded := 2\<rparr>"
  obtain scope where scope: "authenticateKey (sc_sha256 ?cfg) (sv_db ?srv) client_key_text = Some scope"
    using keyed_server_authenticates by auto
  have rows: "batch_rows (sc_date_of ?cfg) 5 scope [?ev, ?old] = [row_of_event stamp_of scope ?ev]"
    by (simp add: batch_rows_def acceptable_def make_event_def example_exposure_def usable_text_def MAX_FIELD_LENGTH_def
        timely_def stamp_of_def MAX_BACKDATE_MILLIS_def MAX_CLOCK_SKEW_MILLIS_def lit_def)
  have row: "dedupe_key (row_of_event stamp_of scope ?ev) = ev_dedupeKey ?ev" by (simp add: row_of_event_def)
  have small: "length [?ev, ?old] \<le> MAX_BATCH_SIZE" "inFlightRows new_writer + 1 \<le> sc_maxInFlightRows ?cfg"
    by (simp_all add: MAX_BATCH_SIZE_def new_writer_def example_config_def)
  obtain b srv where d: "deliver_batch Delivered ?cfg client_key_text 5 (?b, ?srv) = (b, srv)" by force
  obtain b' srv' where l: "deliver_batch (AnswerLost True) ?cfg client_key_text 5 (?b, ?srv) = (b', srv')" by force
  have "sv_writer ?srv = Some new_writer" "in_flight ?b = Some [?ev, ?old]" by simp_all
  from sent_events_are_accepted_rows [OF scope this d] sent_events_are_accepted_rows [OF scope this l] small
  have "sent b = 2 \<and> failed b = 0 \<and> sent b' = 0 \<and> failed b' = 2
     \<and> (\<exists>w. sv_writer srv = Some w \<and> unsettled w = [[row_of_event stamp_of scope ?ev]])
     \<and> (\<exists>w. sv_writer srv' = Some w \<and> unsettled w = [[row_of_event stamp_of scope ?ev]])"
    unfolding rows Let_def by (auto simp: new_writer_def new_buffer_def simp del: One_nat_def)
  with row show ?thesis unfolding Let_def d l by auto
qed

text \<open>
  The key of an event is made of its other fields, and the server limits all of them alike: an event whose
  context key is as long as the contract allows is refused for its generated key, and a batch of such
  events is acknowledged, and counted as sent, without a row.
\<close>

lemma longest_context_is_refused:
  assumes "length (in_contextKey e) = MAX_FIELD_LENGTH" "in_dedupeKey e = None"
  shows "\<exists>why. validate_event date_of now scope (event_json (make_event e stamp n)) = Inl why"
proof -
  have "MAX_FIELD_LENGTH < length (ev_dedupeKey (make_event e stamp n))"
    using assms by (simp add: make_event_def generated_key_def)
  then have "\<not> isUsableString (get_prop (event_json (make_event e stamp n)) (lit ''dedupeKey''))"
    by (simp add: event_json_def)
  then have "find (\<lambda>f. \<not> isUsableString (get_prop (event_json (make_event e stamp n)) f)) required_fields \<noteq> None"
    by (auto simp: required_fields_def find_None_iff)
  then obtain f where "find (\<lambda>f. \<not> isUsableString (get_prop (event_json (make_event e stamp n)) f)) required_fields = Some f"
    by blast
  moreover have "is_object (event_json ev)" for ev by (simp add: event_json_def)
  ultimately show ?thesis by (simp add: validate_event_def)
qed

section \<open>The timer\<close>

text \<open>What has been handed to the transport.\<close>

definition handed_over :: "buffer \<Rightarrow> nat" where
  "handed_over b = sent b + failed b + length (flying b)"

lemma handed_over_mono: "handed_over b \<le> handed_over (buffer_step cfg a b)"
  by (cases a) (auto simp: handed_over_def buffer_defs split: option.splits)

text \<open>A flush of an idle buffer hands over everything that was recorded.\<close>

lemma idle_step:
  assumes "buffer_ok cfg b" "in_flight b = None"
  shows "in_flight (buffer_step cfg a b) = None \<or> handed_over (buffer_step cfg a b) = recorded (buffer_step cfg a b)"
proof -
  have flush: "in_flight (flush_begin c) = None \<or> handed_over (flush_begin c) = recorded (flush_begin c)"
    if "in_flight c = None" "recorded c = sent c + failed c + length (queue c)" for c
    using that by (simp add: flush_begin_def handed_over_def flying_def)
  have counts: "recorded b = sent b + failed b + length (queue b)"
    using assms by (simp add: buffer_ok_def flying_def)
  show ?thesis
  proof (cases a)
    case (Record e random stamp)
    let ?b = "b\<lparr>sequence := sequence b + 1, queue := queue b @ [make_event e stamp (sequence b + 1)], recorded := recorded b + 1\<rparr>"
    have "buffer_step cfg a b \<in> {b, b\<lparr>dropped := dropped b + 1\<rparr>, b\<lparr>sampled := sampled b + 1\<rparr>, ?b, flush_begin ?b}"
      by (simp add: Record record_event_def Let_def)
    moreover have "in_flight (flush_begin ?b) = None \<or> handed_over (flush_begin ?b) = recorded (flush_begin ?b)"
      using assms(2) counts by (intro flush) simp_all
    ultimately show ?thesis using assms(2) by (elim insertE emptyE) simp_all
  next
    case Close
    have "in_flight (close b) = None \<or> handed_over (close b) = recorded (close b)"
      unfolding close_def using assms(2) counts by (intro flush) simp_all
    with Close show ?thesis by simp
  next
    case Start
    with assms(2) show ?thesis by (simp add: start_def)
  next
    case (Settle ok)
    with assms(2) show ?thesis by (simp add: flush_end_def)
  qed (use flush [OF assms(2) counts] assms(2) in simp_all)
qed

lemma timer_step: "a \<noteq> Close \<Longrightarrow> timer b \<Longrightarrow> timer (buffer_step cfg a b)"
proof -
  have flush: "timer (flush_begin c) = timer c" for c by (simp add: flush_begin_def)
  assume "a \<noteq> Close" "timer b"
  then show ?thesis
    by (cases a) (simp_all add: flush start_def flush_end_def record_event_def Let_def split: option.split)
qed

lemma timer_run: "Close \<notin> set as \<Longrightarrow> timer b \<Longrightarrow> timer (fold (buffer_step cfg) as b)"
proof (induction as arbitrary: b)
  case (Cons a as)
  then have "a \<noteq> Close" "Close \<notin> set as" "timer b" by auto
  then show ?case using Cons.IH [OF _ timer_step [of a b cfg]] by simp
qed simp

lemma idle_run:
  assumes "buffer_ok cfg b" "n \<le> recorded b" "in_flight b = None \<or> n \<le> handed_over b"
  shows "in_flight (fold (buffer_step cfg) as b) = None \<or> n \<le> handed_over (fold (buffer_step cfg) as b)"
  using assms
proof (induction as arbitrary: b)
  case (Cons a as)
  have "in_flight (buffer_step cfg a b) = None \<or> n \<le> handed_over (buffer_step cfg a b)"
    using idle_step [OF Cons.prems(1), of a] handed_over_mono [of b cfg a] Cons.prems(2,3) buffer_counters(1) [of b cfg a]
    by auto
  with Cons.IH [OF buffer_step_ok [OF Cons.prems(1), of a]] Cons.prems(2) buffer_counters(1) [of b cfg a]
  show ?case by simp
qed simp

lemma tick_hands_over:
  assumes "buffer_ok cfg b" "timer b" "in_flight b = None \<or> n \<le> handed_over b" "n \<le> recorded b"
  shows "n \<le> handed_over (buffer_step cfg Tick b)"
  using assms by (auto simp: handed_over_def buffer_ok_def flush_begin_def flying_def)

text \<open>
  C34: no exposure waits for ever: from any reachable buffer whose timer runs, when the transport settles the
  flush in flight and the timer then ticks, whatever else happens in between but closing, everything that
  had been recorded by then has been handed to the transport, and when that flush settles too, it has been
  counted as sent or as failed.
\<close>

theorem timer_settles_every_exposure:
  assumes "timer (fold (buffer_step cfg) before new_buffer)" and "Close \<notin> set meanwhile"
  shows "recorded (fold (buffer_step cfg) before new_buffer)
      \<le> handed_over (fold (buffer_step cfg) (before @ Settle ok # meanwhile @ [Tick]) new_buffer)
    \<and> recorded (fold (buffer_step cfg) before new_buffer)
      \<le> sent (fold (buffer_step cfg) (before @ Settle ok # meanwhile @ [Tick, Settle ok']) new_buffer)
        + failed (fold (buffer_step cfg) (before @ Settle ok # meanwhile @ [Tick, Settle ok']) new_buffer)"
proof -
  define b where "b = fold (buffer_step cfg) before new_buffer"
  define c where "c = buffer_step cfg (Settle ok) b"
  define d where "d = fold (buffer_step cfg) meanwhile c"
  have ok: "buffer_ok cfg b" "buffer_ok cfg c" "buffer_ok cfg d"
    using buffer_pipeline.inv_run [OF new_buffer_ok, of cfg before] buffer_step_ok [of cfg b "Settle ok"]
      buffer_pipeline.inv_run [of cfg c meanwhile] by (simp_all add: b_def c_def d_def)
  have "timer d" using assms timer_run [of meanwhile c cfg] timer_step [of "Settle ok" b cfg] by (simp add: b_def c_def d_def)
  have more: "recorded b \<le> recorded c" "recorded c \<le> recorded d"
    using buffer_counters(1) [of b cfg "Settle ok"] buffer_pipeline.accepted_run_mono [OF ok(2), of meanwhile]
    by (simp_all add: c_def d_def)
  have "in_flight c = None" by (simp add: c_def flush_end_def split: option.split)
  then have "in_flight d = None \<or> recorded b \<le> handed_over d"
    unfolding d_def using idle_run [OF ok(2) more(1)] by blast
  then have tick: "recorded b \<le> handed_over (buffer_step cfg Tick d)"
    using tick_hands_over [OF ok(3) \<open>timer d\<close>] more by simp
  moreover have "handed_over (flush_end ok' e) = sent (flush_end ok' e) + failed (flush_end ok' e)" for e
    by (auto simp: handed_over_def flush_end_def flying_def split: option.splits)
  ultimately have "recorded b \<le> sent (flush_end ok' (buffer_step cfg Tick d)) + failed (flush_end ok' (buffer_step cfg Tick d))"
    using handed_over_mono [of "buffer_step cfg Tick d" cfg "Settle ok'"] by (metis buffer_step.simps(5) le_trans)
  with tick show ?thesis by (simp add: b_def c_def d_def)
qed

theorem timer_settles_every_exposure_witness:
  "let b = fold (buffer_step default_config)
     ([Start, Record example_exposure (Fin 0) []] @ Settle True # [Record example_exposure (Fin 0) []] @ [Tick, Settle False]) new_buffer
   in 1 \<le> sent b + failed b"
proof -
  let ?start = "[Start, Record example_exposure (Fin 0) []]"
  have occupancy: "num_div (number_of_nat 0) (number_of_nat 10000) = Fin 0"
    by (simp add: number_of_nat_exact)
  have b: "timer (fold (buffer_step default_config) ?start new_buffer)"
    "recorded (fold (buffer_step default_config) ?start new_buffer) = 1"
    by (simp_all add: start_def record_event_def new_buffer_def default_config_def Let_def samplingRate_def occupancy)
  have "Close \<notin> set [Record example_exposure (Fin 0) []]" by simp
  from timer_settles_every_exposure [OF b(1) this, of True False] show ?thesis unfolding b(2) Let_def by blast
qed

section \<open>Draining the writer\<close>

text \<open>
  \<open>drain\<close>: between two looks at the set of inserts in flight, one list of actions happens, in which the
  inserts of the set have settled. Without an end of the waves it does not return.
\<close>

definition inserts_in_flight :: "writer \<Rightarrow> nat" where
  "inserts_in_flight w = length (unsettled w) + length (unreleased w)"

fun drain :: "nat \<Rightarrow> writer_action list list \<Rightarrow> writer \<Rightarrow> writer option" where
  "drain cap [] w = (if inserts_in_flight w = 0 then Some w else None)"
| "drain cap (wave # waves) w =
     (if inserts_in_flight w = 0 then Some w else drain cap waves (fold (writer_step cap) wave w))"

text \<open>When every insert settles and nothing is enqueued, one wave is enough.\<close>

definition settling :: "bool list \<Rightarrow> writer_action list" where
  "settling oks = map (SettleInsert 0) oks"

lemma settling_run:
  "length oks = length (unsettled w) \<Longrightarrow> unsettled (fold (writer_step cap) (settling oks) w) = []
    \<and> length (unreleased (fold (writer_step cap) (settling oks) w)) = inserts_in_flight w"
proof (induction oks arbitrary: w)
  case (Cons ok oks)
  then have "length oks = length (unsettled (settle_insert 0 ok w))"
    "inserts_in_flight (settle_insert 0 ok w) = inserts_in_flight w"
    by (auto simp: settle_insert_def Let_def inserts_in_flight_def)
  with Cons.IH [of "settle_insert 0 ok w"] show ?case by (simp add: settling_def)
qed (simp add: settling_def inserts_in_flight_def)

lemma release_run:
  "unsettled w = [] \<Longrightarrow>
    inserts_in_flight (fold (writer_step cap) (replicate (length (unreleased w)) ReleaseInsert) w) = 0"
proof (induction "length (unreleased w)" arbitrary: w)
  case (Suc n)
  then obtain rows rest where "unreleased w = rows # rest" by (cases "unreleased w") auto
  moreover from this have "writer_step cap ReleaseInsert w = w\<lparr>inFlightRows := inFlightRows w - length rows, unreleased := rest\<rparr>"
    by (simp add: release_insert_def)
  ultimately show ?case
    using Suc.hyps(1) [of "w\<lparr>inFlightRows := inFlightRows w - length rows, unreleased := rest\<rparr>"] Suc.hyps(2) Suc.prems
    by (simp del: writer_step.simps fold_replicate)
qed (simp add: inserts_in_flight_def)

lemma drain_returns:
  assumes "length oks = length (unsettled w)"
  shows "\<exists>w'. drain cap [settling oks @ replicate (inserts_in_flight w) ReleaseInsert] w = Some w' \<and> inserts_in_flight w' = 0"
proof -
  let ?t = "fold (writer_step cap) (settling oks) w"
  have "inserts_in_flight (fold (writer_step cap) (replicate (inserts_in_flight w) ReleaseInsert) ?t) = 0"
    using settling_run [OF assms, of cap] release_run [of ?t cap] by simp
  then show ?thesis by (auto simp: inserts_in_flight_def)
qed

lemma drain_empty: "drain cap waves w = Some w' \<Longrightarrow> inserts_in_flight w' = 0 \<and> (\<exists>as. w' = fold (writer_step cap) as w)"
proof (induction waves arbitrary: w)
  case (Cons wave waves)
  then show ?case by (auto split: if_splits intro: exI [of _ "[]"]) (metis fold_append comp_apply)
qed (auto split: if_splits intro: exI [of _ "[]"])

text \<open>A drained writer has settled every row that it had accepted.\<close>

lemma drained_writer:
  assumes "drain cap waves (fold (writer_step cap) as new_writer) = Some w"
  shows "accepted_rows w = written_rows w + failed_rows w \<and> inFlightRows w = 0"
proof -
  obtain bs where "w = fold (writer_step cap) (as @ bs) new_writer" "inserts_in_flight w = 0"
    using drain_empty [OF assms] by (auto simp del: fold.simps simp: fold_append)
  then have "writer_ok cap w" "unsettled w = []" "unreleased w = []"
    using writer_pipeline.inv_run [OF new_writer_ok, of cap "as @ bs"] by (simp_all add: inserts_in_flight_def)
  then show ?thesis by (simp add: writer_ok_def)
qed

section \<open>What the two report\<close>

text \<open>The two \<open>stats\<close>: of \<open>ExposureWriter\<close> and of \<open>ExposureBuffer\<close>.\<close>

record WriterStats =
  ws_accepted :: nat
  ws_refused :: nat
  ws_written :: nat
  ws_failed :: nat
  ws_inFlightRows :: nat

definition writer_stats :: "writer \<Rightarrow> WriterStats" where
  "writer_stats w =
     \<lparr>ws_accepted = accepted_rows w, ws_refused = refused_rows w, ws_written = written_rows w,
      ws_failed = failed_rows w, ws_inFlightRows = inFlightRows w\<rparr>"

record ExposureStats =
  xs_recorded :: nat
  xs_dropped :: nat
  xs_sampled :: nat
  xs_sent :: nat
  xs_failed :: nat
  xs_queued :: nat
  xs_samplingRate :: js_number

definition buffer_stats :: "buffer_config \<Rightarrow> buffer \<Rightarrow> ExposureStats" where
  "buffer_stats cfg b =
     \<lparr>xs_recorded = recorded b, xs_dropped = dropped b, xs_sampled = sampled b, xs_sent = sent b,
      xs_failed = failed b, xs_queued = length (queue b), xs_samplingRate = samplingRate cfg b\<rparr>"

text \<open>
  A reader of the writer's figures learns the rows at risk: those accepted and neither written nor failed
  are among those in flight, and none is left when none is in flight.
\<close>

lemma writer_stats_bound_the_loss:
  assumes "x = writer_stats (fold (writer_step cap) actions new_writer)"
  shows "ws_written x + ws_failed x \<le> ws_accepted x"
    and "ws_accepted x \<le> ws_written x + ws_failed x + ws_inFlightRows x"
    and "ws_inFlightRows x \<le> cap"
  using writer_pipeline.inv_run [OF new_writer_ok, of cap actions]
  by (simp_all add: assms writer_stats_def writer_ok_def)

text \<open>
  A reader of the buffer's figures cannot see the batch in flight: what is recorded and neither sent,
  failed nor queued is that batch, at most one queue's worth, and nothing between two flushes.
\<close>

lemma buffer_stats_hide_one_batch:
  assumes "b = fold (buffer_step cfg) actions new_buffer" and "x = buffer_stats cfg b"
  shows "xs_recorded x = xs_sent x + xs_failed x + xs_queued x + length (flying b)"
    and "length (flying b) \<le> maxQueueSize cfg" and "xs_queued x \<le> maxQueueSize cfg"
    and "in_flight b = None \<Longrightarrow> xs_recorded x = xs_sent x + xs_failed x + xs_queued x"
  using buffer_pipeline.inv_run [OF new_buffer_ok, of cfg actions, folded assms(1)]
  by (simp_all add: assms(2) buffer_stats_def buffer_ok_def flying_def)

end
