(* ===== verification/Srm.thy ===== *)
theory Srm
  imports Distributions Prelude
begin

text \<open>\<open>packages/core/src/stats/srm.ts\<close>: detection of a sample ratio mismatch.\<close>

section \<open>The test\<close>

definition SRM_ALARM_THRESHOLD :: js_number where
  "SRM_ALARM_THRESHOLD = num 0.0005"

record srm_arm =
  arm_variationKey :: js_string
  arm_observed :: js_number
  arm_weight :: js_number

record srm_detail =
  sd_variationKey :: js_string
  sd_observed :: js_number
  sd_expected :: js_number
  sd_deviation :: js_number

record srm_result =
  srm_chiSquare :: js_number
  srm_degreesOfFreedom :: js_number
  srm_pValue :: js_number
  srm_mismatch :: bool
  srm_arms :: "srm_detail list"

definition total_of :: "('a \<Rightarrow> js_number) \<Rightarrow> 'a list \<Rightarrow> js_number" where
  "total_of f xs = foldl (\<lambda>acc x. acc + f x) (Fin 0) xs"

definition arm_detail :: "js_number \<Rightarrow> js_number \<Rightarrow> srm_arm \<Rightarrow> srm_detail" where
  "arm_detail totalObserved totalWeight arm =
     (let expected = (if totalWeight = Fin 0 then Fin 0 else (arm_weight arm / totalWeight) * totalObserved) in
      \<lparr>sd_variationKey = arm_variationKey arm, sd_observed = arm_observed arm, sd_expected = expected,
       sd_deviation = (if expected = Fin 0 then Fin 0 else (arm_observed arm - expected) / expected)\<rparr>)"

definition add_deviation :: "js_number \<Rightarrow> srm_detail \<Rightarrow> js_number" where
  "add_deviation chiSquare arm =
     (if sd_expected arm \<le> Fin 0 then chiSquare
      else let difference = sd_observed arm - sd_expected arm in
        chiSquare + (difference * difference) / sd_expected arm)"

definition detectSampleRatioMismatch :: "math \<Rightarrow> srm_arm list \<Rightarrow> js_number option \<Rightarrow> srm_result" where
  "detectSampleRatioMismatch m arms threshold =
     (let totalObserved = total_of arm_observed arms;
          totalWeight = total_of arm_weight arms;
          detail = map (arm_detail totalObserved totalWeight) arms in
      if length arms < 2 \<or> totalObserved = Fin 0 \<or> totalWeight = Fin 0 then
        \<lparr>srm_chiSquare = Fin 0, srm_degreesOfFreedom = math_max (number_of_nat (length arms) - Fin 1) (Fin 0),
         srm_pValue = Fin 1, srm_mismatch = False, srm_arms = detail\<rparr>
      else
        let chiSquare = foldl add_deviation (Fin 0) detail;
            df = number_of_nat (length arms) - Fin 1;
            pValue = chiSquarePValue m chiSquare df in
        \<lparr>srm_chiSquare = chiSquare, srm_degreesOfFreedom = df, srm_pValue = pValue,
         srm_mismatch = pValue < (case threshold of None \<Rightarrow> SRM_ALARM_THRESHOLD | Some t \<Rightarrow> t),
         srm_arms = detail\<rparr>)"

section \<open>An alarm has a cause\<close>

lemma no_deviation_step:
  assumes "sd_expected d \<le> Fin 0 \<or> sd_observed d - sd_expected d = Fin 0"
  shows "add_deviation (Fin 0) d = Fin 0"
proof (cases "sd_expected d")
  case (Fin e)
  with assms show ?thesis
    by (auto simp: add_deviation_def times_js_number_def divide_js_number_def plus_js_number_def)
qed (use assms in \<open>auto simp: add_deviation_def js_diff_eq\<close>, (cases "sd_observed d"; simp add: plus_js_number_def)+)

lemma no_deviation:
  "\<forall>d \<in> set ds. sd_expected d \<le> Fin 0 \<or> sd_observed d - sd_expected d = Fin 0 \<Longrightarrow>
    foldl add_deviation (Fin 0) ds = Fin 0"
  by (induction ds) (simp_all add: no_deviation_step)

lemma threshold_below_one: "num 0.0005 \<le> Fin 1"
  using round_double_le_int [of "0.0005" 1] by (simp add: less_eq_js_number_def)

lemma quiet_without_deviation:
  assumes "\<forall>d \<in> set (srm_arms (detectSampleRatioMismatch m arms None)).
    sd_expected d \<le> Fin 0 \<or> sd_observed d - sd_expected d = Fin 0"
  shows "\<not> srm_mismatch (detectSampleRatioMismatch m arms None)"
proof
  let ?ds = "map (arm_detail (total_of arm_observed arms) (total_of arm_weight arms)) arms"
  assume "srm_mismatch (detectSampleRatioMismatch m arms None)"
  then have "chiSquarePValue m (foldl add_deviation (Fin 0) ?ds) (number_of_nat (length arms) - Fin 1) < SRM_ALARM_THRESHOLD"
    by (auto simp: detectSampleRatioMismatch_def Let_def split: if_splits)
  moreover have "srm_arms (detectSampleRatioMismatch m arms None) = ?ds"
    by (simp add: detectSampleRatioMismatch_def Let_def)
  then have "foldl add_deviation (Fin 0) ?ds = Fin 0" using assms by (intro no_deviation) simp
  ultimately have "Fin 1 < SRM_ALARM_THRESHOLD" by (simp add: chiSquarePValue_def)
  with threshold_below_one show False
    unfolding SRM_ALARM_THRESHOLD_def by (cases "num 0.0005") simp_all
qed

text \<open>
  An alarm has a cause: whatever the approximations of the distribution, a mismatch is only reported
  when there are two arms or more, something was observed, and some arm with a positive expectation
  was observed a different number of times; the arms are reported in order, as they were observed.
\<close>

lemma alarm_has_a_cause:
  assumes "srm_mismatch (detectSampleRatioMismatch m arms None)"
  shows "2 \<le> length arms \<and> total_of arm_observed arms \<noteq> Fin 0
    \<and> map (\<lambda>d. (sd_variationKey d, sd_observed d)) (srm_arms (detectSampleRatioMismatch m arms None))
        = map (\<lambda>a. (arm_variationKey a, arm_observed a)) arms
    \<and> (\<exists>d \<in> set (srm_arms (detectSampleRatioMismatch m arms None)).
         \<not> sd_expected d \<le> Fin 0 \<and> sd_observed d - sd_expected d \<noteq> Fin 0)"
proof -
  define r where "r = detectSampleRatioMismatch m arms None"
  define ds where "ds = map (arm_detail (total_of arm_observed arms) (total_of arm_weight arms)) arms"
  have r: "srm_arms r = ds" by (simp add: r_def detectSampleRatioMismatch_def Let_def ds_def)
  have test: "2 \<le> length arms" "total_of arm_observed arms \<noteq> Fin 0"
    using assms by (auto simp: detectSampleRatioMismatch_def Let_def split: if_splits)
  have "\<exists>d \<in> set ds. \<not> sd_expected d \<le> Fin 0 \<and> sd_observed d - sd_expected d \<noteq> Fin 0"
    using assms quiet_without_deviation [of m arms] r unfolding r_def by blast
  moreover have "map (\<lambda>d. (sd_variationKey d, sd_observed d)) ds = map (\<lambda>a. (arm_variationKey a, arm_observed a)) arms"
    by (simp add: ds_def arm_detail_def Let_def)
  ultimately show ?thesis using test unfolding r_def [symmetric] r by blast
qed

text \<open>An example: three against one under equal weights, with an exponential that makes the p-value negative.\<close>

lemma series_ge_one:
  "rest \<le> 499 \<Longrightarrow> Fin 1 \<le> acc \<Longrightarrow> 0 \<le> t \<Longrightarrow> t \<le> 2 \<Longrightarrow>
    Fin 1 \<le> series_loop rest (Fin (1 / 2)) (Fin (1 / 2)) acc (Fin t)"
proof (induction rest arbitrary: acc t)
  case (Suc rest)
  define n where "n = 499 - rest"
  have "n \<le> 499" by (simp add: n_def)
  then have "(of_nat n :: rat) \<le> 499" by (metis of_nat_le_iff of_nat_numeral)
  then have "(1 / 2 + of_nat n :: rat) \<le> of_int 1000" by simp
  moreover have "1 \<le> n" using Suc.prems(1) by (simp add: n_def)
  then have "of_int 1 \<le> (1 / 2 + of_nat n :: rat)" by simp
  ultimately obtain k where "round_double (1 / 2 + of_nat n) = Fin k" "of_int 1 \<le> k"
    using round_between [of 1 "1 / 2 + of_nat n" 1000] by auto
  then have k: "Fin (1 / 2) + number_of_nat n = Fin k" "1 \<le> k" using \<open>n \<le> 499\<close> by (simp_all add: plus_js_number_def)
  obtain q where "round_double (1 / 2 / k) = Fin q" "of_int 0 \<le> q" "q \<le> of_int 1"
    using round_between [of 0 "1 / 2 / k" 1] k(2) by auto
  then have q: "Fin (1 / 2) / Fin k = Fin q" "0 \<le> q" "q \<le> 1" using k(2) by (simp_all add: divide_js_number_def)
  have "t * q \<le> 2 * 1" using q Suc.prems by (intro mult_mono) simp_all
  then obtain u where "round_double (t * q) = Fin u" "of_int 0 \<le> u" "u \<le> of_int 2"
    using round_between [of 0 "t * q" 2] q Suc.prems by auto
  then have u: "Fin t * Fin q = Fin u" "0 \<le> u" "u \<le> 2" by (simp_all add: times_js_number_def)
  have sum: "Fin 1 \<le> acc + Fin u"
    using Suc.prems(2) u(2) round_double_ge_int [of 1 "_ + u"]
    by (cases acc) (auto simp: js_arith)
  show ?case
    using Suc.IH [OF _ sum u(2,3)] Suc.prems(1) sum
    by (simp add: Let_def n_def [symmetric] k(1) q(1) u(1))
qed simp

definition lossy_math :: math where
  "lossy_math =
     \<lparr>math_exp = \<lambda>x. PosInf, math_log = \<lambda>x. Fin 0, math_sqrt = \<lambda>x. Fin 1, math_sin = \<lambda>x. Fin 1,
      math_pow = \<lambda>x y. Fin 1\<rparr>"

definition uneven_arms :: "srm_arm list" where
  "uneven_arms =
     [\<lparr>arm_variationKey = lit ''control'', arm_observed = Fin 3, arm_weight = Fin 50000\<rparr>,
      \<lparr>arm_variationKey = lit ''treatment'', arm_observed = Fin 1, arm_weight = Fin 50000\<rparr>]"

lemma uneven_p: "chiSquarePValue lossy_math (Fin 1) (Fin 1) = NegInf"
proof -
  have "Fin 1 \<le> series_loop 499 (Fin (1 / 2)) (Fin (1 / 2)) (Fin 2) (Fin 2)" by (rule series_ge_one) simp_all
  then have "series_loop 499 (Fin (1 / 2)) (Fin (1 / 2)) (Fin 2) (Fin 2) * PosInf = PosInf"
    by (cases "series_loop 499 (Fin (1 / 2)) (Fin (1 / 2)) (Fin 2) (Fin 2)") (auto simp: times_js_number_def)
  moreover have "Fin (1 / 2) < Fin (1 / 2) + Fin 1"
    using round_double_dyadic [of 3 "- 1"] by (simp add: plus_js_number_def power_int_minus_divide)
  ultimately show ?thesis
    by (simp add: chiSquarePValue_def lowerIncompleteGammaRegularized_def lossy_math_def js_arith num_sub_def)
qed

lemma alarm_has_a_cause_witness:
  "srm_mismatch (detectSampleRatioMismatch lossy_math uneven_arms None)
   \<and> (\<exists>d \<in> set (srm_arms (detectSampleRatioMismatch lossy_math uneven_arms None)).
        sd_observed d - sd_expected d \<noteq> Fin 0)"
proof -
  have totals: "total_of arm_observed uneven_arms = Fin 4" "total_of arm_weight uneven_arms = Fin 100000"
    by (simp_all add: total_of_def uneven_arms_def plus_js_number_def)
  have "foldl add_deviation (Fin 0) (map (arm_detail (Fin 4) (Fin 100000)) uneven_arms) = Fin 1"
    by (simp add: uneven_arms_def arm_detail_def add_deviation_def js_arith num_sub_def Let_def)
  moreover have "length uneven_arms = 2" by (simp add: uneven_arms_def)
  moreover have "number_of_nat 2 - Fin 1 = Fin 1" by (simp add: js_arith num_sub_def)
  moreover have "NegInf < SRM_ALARM_THRESHOLD"
    using round_between [of 0 "0.0005" 1] by (auto simp: SRM_ALARM_THRESHOLD_def)
  ultimately have mismatch: "srm_mismatch (detectSampleRatioMismatch lossy_math uneven_arms None)"
    by (simp add: detectSampleRatioMismatch_def totals Let_def uneven_p)
  from alarm_has_a_cause [OF this] mismatch show ?thesis by blast
qed

end
