(* ===== verification/Experiments.thy ===== *)
theory Experiments
  imports Sequential Srm
begin

text \<open>
  The logic of \<open>apps/console/src/app/experiments/page.tsx\<close>: the seeded generator, the simulated
  experiment, and the two analyses of it. The functions of \<open>Math\<close> are a parameter of the tests, as in the
  statistics.
\<close>

section \<open>The generator\<close>

unbundle bit_operations_syntax

text \<open>\<open>n >>> 0\<close>: truncated, modulo \<open>2 ^ 32\<close>.\<close>

fun to_uint32 :: "js_number \<Rightarrow> 32 word" where
  "to_uint32 (Fin x) = of_int (if x < 0 then - \<lfloor>- x\<rfloor> else \<lfloor>x\<rfloor>)"
| "to_uint32 x = 0"

text \<open>The state after a draw, and what it is turned into.\<close>

definition next_state :: "32 word \<Rightarrow> 32 word" where
  "next_state state = state + 0x6D2B79F5"

definition scrambled :: "32 word \<Rightarrow> 32 word" where
  "scrambled state =
     (let t = (state XOR drop_bit 15 state) * (state OR 1);
          t = t XOR (t + (t XOR drop_bit 7 t) * (t OR 61))
      in t XOR drop_bit 14 t)"

definition draw :: "32 word \<Rightarrow> js_number \<times> 32 word" where
  "draw state = (num_div (number_of_nat (unat (scrambled (next_state state)))) (Fin 4294967296), next_state state)"

section \<open>The simulation\<close>

definition ALPHA :: js_number where "ALPHA = num 0.05"
definition CHECKPOINTS :: nat where "CHECKPOINTS = 40"

record simulation_options =
  sim_seed :: js_number
  sim_usersPerArm :: nat
  sim_baselineRate :: js_number
  sim_trueLift :: js_number

record checkpoint =
  cp_n :: nat
  cp_control :: binary_sample
  cp_treatment :: binary_sample

record tally =
  ta_state :: "32 word"
  ta_control :: nat
  ta_treatment :: nat
  ta_n :: nat

definition count_user :: "js_number \<Rightarrow> js_number \<Rightarrow> tally \<Rightarrow> tally" where
  "count_user baseline treatment t =
     (let (r1, s1) = draw (ta_state t); (r2, s2) = draw s1 in
      \<lparr>ta_state = s2, ta_control = ta_control t + (if r1 < baseline then 1 else 0),
       ta_treatment = ta_treatment t + (if r2 < treatment then 1 else 0), ta_n = ta_n t + 1\<rparr>)"

definition checkpoint_of :: "tally \<Rightarrow> checkpoint" where
  "checkpoint_of t =
     \<lparr>cp_n = ta_n t,
      cp_control = \<lparr>sample_n = number_of_nat (ta_n t), sample_conversions = number_of_nat (ta_control t)\<rparr>,
      cp_treatment = \<lparr>sample_n = number_of_nat (ta_n t), sample_conversions = number_of_nat (ta_treatment t)\<rparr>\<rparr>"

text \<open>\<open>for (let i = 0; i < bound; i++)\<close> with a finite bound runs for every natural number below it.\<close>

fun loop_count :: "js_number \<Rightarrow> nat" where
  "loop_count (Fin x) = nat \<lceil>x\<rceil>"
| "loop_count x = 0"

fun simulate_loop :: "js_number \<Rightarrow> js_number \<Rightarrow> nat \<Rightarrow> nat \<Rightarrow> tally \<Rightarrow> checkpoint list" where
  "simulate_loop baseline treatment perCheckpoint 0 t = []"
| "simulate_loop baseline treatment perCheckpoint (Suc steps) t =
     (let t' = (count_user baseline treatment ^^ perCheckpoint) t in
      checkpoint_of t' # simulate_loop baseline treatment perCheckpoint steps t')"

definition simulate :: "simulation_options \<Rightarrow> checkpoint list" where
  "simulate opts =
     (let treatmentRate = sim_baselineRate opts * (Fin 1 + sim_trueLift opts);
          perCheckpoint = math_floor (number_of_nat (sim_usersPerArm opts) / number_of_nat CHECKPOINTS) in
      simulate_loop (sim_baselineRate opts) treatmentRate (loop_count perCheckpoint) CHECKPOINTS
        \<lparr>ta_state = to_uint32 (sim_seed opts), ta_control = 0, ta_treatment = 0, ta_n = 0\<rparr>)"

section \<open>The analyses\<close>

record interval_point =
  ip_n :: js_number
  ip_effect :: js_number
  ip_lower :: js_number
  ip_upper :: js_number

record interval_series =
  is_label :: js_string
  is_color :: js_string
  is_points :: "interval_point list"
  is_firstSignificantIndex :: "nat option"

definition fixed_test :: "math \<Rightarrow> checkpoint \<Rightarrow> test_result" where
  "fixed_test m c = twoProportionZTest m (cp_control c) (cp_treatment c) (Some ALPHA)"

definition sequential_test :: "math \<Rightarrow> checkpoint \<Rightarrow> sequential_result" where
  "sequential_test m c =
     sequentialProportionTest m (cp_control c) (cp_treatment c) \<lparr>so_alpha = Some ALPHA, so_tau = Some (num 0.01)\<rparr>"

definition fixed_point :: "math \<Rightarrow> checkpoint \<Rightarrow> interval_point" where
  "fixed_point m c = (let r = fixed_test m c in
     \<lparr>ip_n = number_of_nat (cp_n c), ip_effect = tr_effect r, ip_lower = fst (tr_confidenceInterval r),
      ip_upper = snd (tr_confidenceInterval r)\<rparr>)"

definition sequential_point :: "math \<Rightarrow> checkpoint \<Rightarrow> interval_point" where
  "sequential_point m c = (let r = sequential_test m c in
     \<lparr>ip_n = number_of_nat (cp_n c), ip_effect = sq_effect r, ip_lower = fst (sq_confidenceInterval r),
      ip_upper = snd (sq_confidenceInterval r)\<rparr>)"

text \<open>The variables of the \<open>forEach\<close> over the checkpoints.\<close>

record analysis =
  an_fixedPoints :: "interval_point list"
  an_sequentialPoints :: "interval_point list"
  an_fixedFirst :: "nat option"
  an_sequentialFirst :: "nat option"

definition first_of :: "nat option \<Rightarrow> bool \<Rightarrow> nat \<Rightarrow> nat option" where
  "first_of found significant index = (if found = None \<and> significant then Some index else found)"

fun analyse_loop :: "math \<Rightarrow> nat \<Rightarrow> checkpoint list \<Rightarrow> analysis \<Rightarrow> analysis" where
  "analyse_loop m index [] a = a"
| "analyse_loop m index (c # cs) a =
     analyse_loop m (index + 1) cs
       \<lparr>an_fixedPoints = an_fixedPoints a @ [fixed_point m c],
        an_sequentialPoints = an_sequentialPoints a @ [sequential_point m c],
        an_fixedFirst = first_of (an_fixedFirst a) (tr_significant (fixed_test m c)) index,
        an_sequentialFirst = first_of (an_sequentialFirst a) (sq_significant (sequential_test m c)) index\<rparr>"

definition analyse :: "math \<Rightarrow> checkpoint list \<Rightarrow> analysis" where
  "analyse m cs = analyse_loop m 0 cs
     \<lparr>an_fixedPoints = [], an_sequentialPoints = [], an_fixedFirst = None, an_sequentialFirst = None\<rparr>"

definition fixed_series :: "analysis \<Rightarrow> interval_series" where
  "fixed_series a = \<lparr>is_label = lit ''Fixed horizon (95% CI)'', is_color = lit ''#f2777a'',
     is_points = an_fixedPoints a, is_firstSignificantIndex = an_fixedFirst a\<rparr>"

definition sequential_series :: "analysis \<Rightarrow> interval_series" where
  "sequential_series a = \<lparr>is_label = lit ''Always valid / mSPRT'', is_color = lit ''#4fc3f7'',
     is_points = an_sequentialPoints a, is_firstSignificantIndex = an_sequentialFirst a\<rparr>"

definition page_srm :: "math \<Rightarrow> checkpoint \<Rightarrow> srm_result" where
  "page_srm m final = detectSampleRatioMismatch m
     [\<lparr>arm_variationKey = lit ''control'', arm_observed = sample_n (cp_control final), arm_weight = Fin 50000\<rparr>,
      \<lparr>arm_variationKey = lit ''treatment'', arm_observed = sample_n (cp_treatment final), arm_weight = Fin 50000\<rparr>] None"

definition page_mde :: "math \<Rightarrow> js_number \<Rightarrow> js_number \<Rightarrow> js_number \<times> js_number" where
  "page_mde m baselineRate usersPerArm = minimumDetectableEffect m
     \<lparr>mde_baselineRate = baselineRate, mde_perArm = usersPerArm, mde_alpha = Some ALPHA, mde_power = None\<rparr>"

text \<open>Whether the page reports a false positive of an analysis: only in an experiment without a lift.\<close>

definition false_positive :: "js_number \<Rightarrow> interval_series \<Rightarrow> bool" where
  "false_positive trueLift s \<longleftrightarrow> num_eq trueLift (Fin 0) \<and> is_firstSignificantIndex s \<noteq> None"

section \<open>What the simulation gives\<close>

lemma draw_range: "\<exists>q. fst (draw s) = Fin q \<and> 0 \<le> q \<and> q < 1 \<and> q = of_nat (unat (scrambled (next_state s))) / 2 ^ 32"
proof -
  define n where "n = unat (scrambled (next_state s))"
  have n: "n < 2 ^ 32" unfolding n_def by (rule order_less_le_trans [OF unsigned_less]) simp
  have "round_double (of_int (int n) * 2 powi (- 32)) = Fin (of_int (int n) * 2 powi (- 32))"
    using n by (intro round_double_dyadic) auto
  then have "num_div (number_of_nat n) (Fin 4294967296) = Fin (of_nat n / 2 ^ 32)"
    using n by (simp add: power_int_minus_divide)
  moreover have "(of_nat n :: rat) < 2 ^ 32"
    using n by (metis of_nat_less_iff of_nat_numeral of_nat_power)
  ultimately show ?thesis
    by (intro exI [of _ "of_nat n / 2 ^ 32"]) (simp add: draw_def n_def [symmetric])
qed

text \<open>The states of the generator do not repeat within its period.\<close>

lemma state_after: "((snd \<circ> draw) ^^ k) s = s + of_nat k * 0x6D2B79F5"
  by (induction k) (simp_all add: draw_def next_state_def algebra_simps)

lemma count_user_grows:
  "ta_n (count_user b r t) = ta_n t + 1"
  "ta_control t \<le> ta_control (count_user b r t) \<and> ta_control (count_user b r t) \<le> ta_control t + 1"
  "ta_treatment t \<le> ta_treatment (count_user b r t) \<and> ta_treatment (count_user b r t) \<le> ta_treatment t + 1"
  by (simp_all add: count_user_def split: prod.split)

lemma count_users_grow:
  "ta_n ((count_user b r ^^ k) t) = ta_n t + k
    \<and> ta_control t \<le> ta_control ((count_user b r ^^ k) t) \<and> ta_control ((count_user b r ^^ k) t) \<le> ta_control t + k
    \<and> ta_treatment t \<le> ta_treatment ((count_user b r ^^ k) t) \<and> ta_treatment ((count_user b r ^^ k) t) \<le> ta_treatment t + k"
proof (induction k)
  case (Suc k)
  then show ?case using count_user_grows [where b = b and r = r and t = "(count_user b r ^^ k) t"] by simp
qed simp

text \<open>The checkpoints are those of the tallies after so many users.\<close>

lemma simulate_loop_nth:
  "k < steps \<Longrightarrow> simulate_loop b r per steps t ! k = checkpoint_of ((count_user b r ^^ (per * Suc k)) t)"
proof (induction steps arbitrary: k t)
  case (Suc steps)
  then show ?case
  proof (cases k)
    case (Suc j)
    have "(count_user b r ^^ (per * Suc j)) ((count_user b r ^^ per) t) = (count_user b r ^^ (per * Suc k)) t"
      using funpow_add [of "per * Suc j" per "count_user b r"] by (simp add: Suc algebra_simps)
    with Suc Suc.IH [of j] Suc.prems show ?thesis by (simp add: Let_def)
  qed (simp add: Let_def)
qed simp

lemma length_simulate_loop [simp]: "length (simulate_loop b r per steps t) = steps"
  by (induction steps arbitrary: t) (simp_all add: Let_def)

text \<open>With a rate of one or more everybody converts, and with one of zero or less nobody does.\<close>

lemma certain_conversion:
  "Fin 1 \<le> b \<Longrightarrow> ta_control (count_user b r t) = ta_control t + 1"
  "b \<le> Fin 0 \<Longrightarrow> ta_control (count_user b r t) = ta_control t"
  using draw_range [of "ta_state t"] by (cases b; auto simp: count_user_def split: prod.split)+

lemma certain_conversions:
  "(Fin 1 \<le> b \<longrightarrow> ta_control ((count_user b r ^^ k) t) = ta_control t + k)
    \<and> (b \<le> Fin 0 \<longrightarrow> ta_control ((count_user b r ^^ k) t) = ta_control t)"
  by (induction k) (simp_all add: certain_conversion)

definition users_per_checkpoint :: "simulation_options \<Rightarrow> nat" where
  "users_per_checkpoint opts = loop_count (math_floor (number_of_nat (sim_usersPerArm opts) / number_of_nat CHECKPOINTS))"

lemma users_per_checkpoint_bound:
  assumes "sim_usersPerArm opts < 2 ^ 40"
  shows "users_per_checkpoint opts \<le> 2 ^ 40"
proof -
  let ?n = "sim_usersPerArm opts"
  have "(of_nat ?n :: rat) \<le> of_nat (2 ^ 40)" using assms by (simp only: of_nat_le_iff less_imp_le)
  then obtain q where "round_double (of_nat ?n / 40) = Fin q" "q \<le> of_int (2 ^ 40)"
    using round_between [of 0 "of_nat ?n / 40" "2 ^ 40"] by auto
  then have "users_per_checkpoint opts = nat \<lfloor>q\<rfloor>" "\<lfloor>q\<rfloor> \<le> 2 ^ 40"
    using assms by (simp_all add: users_per_checkpoint_def CHECKPOINTS_def divide_js_number_def floor_le_iff)
  then show ?thesis by (simp only: nat_le_iff) simp
qed

lemma equal_arms_never_alarm:
  assumes "n < 2 ^ 52"
  shows "\<not> srm_mismatch (page_srm m \<lparr>cp_n = n, cp_control = \<lparr>sample_n = number_of_nat n, sample_conversions = c\<rparr>,
      cp_treatment = \<lparr>sample_n = number_of_nat n, sample_conversions = d\<rparr>\<rparr>)"
proof -
  let ?arms = "[\<lparr>arm_variationKey = lit ''control'', arm_observed = Fin (of_nat n), arm_weight = Fin 50000\<rparr>,
      \<lparr>arm_variationKey = lit ''treatment'', arm_observed = Fin (of_nat n), arm_weight = Fin 50000\<rparr>]"
  have r: "representable (of_nat (n + n))" "representable (of_nat n)"
    using assms representable_of_int [of "int (n + n)"] representable_of_int [of "int n"] by simp_all
  then have "total_of arm_observed ?arms = Fin (of_nat (n + n))" "total_of arm_weight ?arms = Fin 100000"
    by (simp_all add: total_of_def js_zero_add js_exact) (simp add: plus_js_number_def)
  moreover have "Fin (1 / 2) * Fin (of_nat (n + n)) = Fin (of_nat n)" using r(2) by (simp add: js_exact)
  ultimately have "\<forall>d \<in> set (srm_arms (detectSampleRatioMismatch m ?arms None)). sd_observed d - sd_expected d = Fin 0"
    by (simp add: detectSampleRatioMismatch_def arm_detail_def Let_def divide_js_number_def times_js_number_def)
  from quiet_without_deviation [of m ?arms] this show ?thesis using assms by (simp add: page_srm_def)
qed

text \<open>
  The simulated experiment is a consistent one: for any seed, rate and lift there are forty checkpoints,
  at equal numbers of users, the same in both arms; the conversions of each arm never decrease, grow by at
  most one per user, and are all or none of the users at a rate of one or of zero; so that the sample ratio
  check of the page never reports a mismatch, whatever the approximations of its distribution.
\<close>

lemma simulation_is_consistent:
  assumes "sim_usersPerArm opts < 2 ^ 40"
  shows "length (simulate opts) = CHECKPOINTS
    \<and> (\<exists>control treatment. control 0 = (0 :: nat) \<and> treatment 0 = (0 :: nat)
        \<and> (\<forall>k < CHECKPOINTS. let n = Suc k * users_per_checkpoint opts in
            simulate opts ! k = \<lparr>cp_n = n,
              cp_control = \<lparr>sample_n = number_of_nat n, sample_conversions = number_of_nat (control (Suc k))\<rparr>,
              cp_treatment = \<lparr>sample_n = number_of_nat n, sample_conversions = number_of_nat (treatment (Suc k))\<rparr>\<rparr>
            \<and> control k \<le> control (Suc k) \<and> control (Suc k) \<le> control k + users_per_checkpoint opts
            \<and> treatment k \<le> treatment (Suc k) \<and> treatment (Suc k) \<le> treatment k + users_per_checkpoint opts
            \<and> (Fin 1 \<le> sim_baselineRate opts \<longrightarrow> control (Suc k) = n)
            \<and> (sim_baselineRate opts \<le> Fin 0 \<longrightarrow> control (Suc k) = 0)))
    \<and> (\<forall>m. \<not> srm_mismatch (page_srm m (last (simulate opts))))"
proof -
  let ?b = "sim_baselineRate opts" and ?r = "sim_baselineRate opts * (Fin 1 + sim_trueLift opts)"
  let ?t = "\<lparr>ta_state = to_uint32 (sim_seed opts), ta_control = 0, ta_treatment = 0, ta_n = 0\<rparr>"
  define per where "per = users_per_checkpoint opts"
  define after where "after = (\<lambda>k. (count_user ?b ?r ^^ (per * k)) ?t)"
  have sim: "simulate opts = simulate_loop ?b ?r per CHECKPOINTS ?t"
    by (simp add: simulate_def per_def users_per_checkpoint_def Let_def)
  have n: "ta_n (after k) = k * per" for k
    using count_users_grow [where b = ?b and r = ?r and k = "per * k" and t = ?t] by (simp add: after_def mult.commute)
  have step: "after (Suc k) = (count_user ?b ?r ^^ per) (after k)" for k
    using funpow_add [of per "per * k" "count_user ?b ?r"] by (simp add: after_def)
  have nth: "simulate opts ! k = \<lparr>cp_n = Suc k * per,
      cp_control = \<lparr>sample_n = number_of_nat (Suc k * per), sample_conversions = number_of_nat (ta_control (after (Suc k)))\<rparr>,
      cp_treatment = \<lparr>sample_n = number_of_nat (Suc k * per), sample_conversions = number_of_nat (ta_treatment (after (Suc k)))\<rparr>\<rparr>"
    if "k < CHECKPOINTS" for k
    using simulate_loop_nth [where b = ?b and r = ?r and per = per and t = ?t, OF that] n [of "Suc k"]
    by (simp add: sim checkpoint_of_def after_def)
  have "after 0 = ?t" by (simp add: after_def)
  moreover have "ta_control (after k) \<le> ta_control (after (Suc k)) \<and> ta_control (after (Suc k)) \<le> ta_control (after k) + per
      \<and> ta_treatment (after k) \<le> ta_treatment (after (Suc k)) \<and> ta_treatment (after (Suc k)) \<le> ta_treatment (after k) + per" for k
    using count_users_grow [where b = ?b and r = ?r and k = per and t = "after k"] unfolding step by blast
  moreover have "(Fin 1 \<le> ?b \<longrightarrow> ta_control (after k) = k * per) \<and> (?b \<le> Fin 0 \<longrightarrow> ta_control (after k) = 0)" for k
    using certain_conversions [where b = ?b and r = ?r and k = "per * k" and t = ?t] by (simp add: after_def mult.commute)
  ultimately have "\<exists>control treatment. control 0 = (0 :: nat) \<and> treatment 0 = (0 :: nat)
      \<and> (\<forall>k < CHECKPOINTS. let n = Suc k * per in
          simulate opts ! k = \<lparr>cp_n = n,
            cp_control = \<lparr>sample_n = number_of_nat n, sample_conversions = number_of_nat (control (Suc k))\<rparr>,
            cp_treatment = \<lparr>sample_n = number_of_nat n, sample_conversions = number_of_nat (treatment (Suc k))\<rparr>\<rparr>
          \<and> control k \<le> control (Suc k) \<and> control (Suc k) \<le> control k + per
          \<and> treatment k \<le> treatment (Suc k) \<and> treatment (Suc k) \<le> treatment k + per
          \<and> (Fin 1 \<le> ?b \<longrightarrow> control (Suc k) = n) \<and> (?b \<le> Fin 0 \<longrightarrow> control (Suc k) = 0))"
    unfolding Let_def using nth
    by (intro exI [of _ "\<lambda>k. ta_control (after k)"] exI [of _ "\<lambda>k. ta_treatment (after k)"]) simp
  moreover have "\<not> srm_mismatch (page_srm m (last (simulate opts)))" for m
  proof -
    have "last (simulate opts) = simulate opts ! 39"
    proof -
      have len: "length (simulate opts) = 40" by (simp add: sim CHECKPOINTS_def)
      then have "simulate opts \<noteq> []" by auto
      with len show ?thesis by (simp add: last_conv_nth)
    qed
    moreover have "40 * per < 2 ^ 52" using users_per_checkpoint_bound [OF assms] by (simp add: per_def)
    ultimately show ?thesis using nth [of 39] equal_arms_never_alarm [of "40 * per"] by (simp add: CHECKPOINTS_def)
  qed
  ultimately show ?thesis by (simp add: sim per_def)
qed

lemma simulation_is_consistent_witness:
  "let opts = \<lparr>sim_seed = Fin 1, sim_usersPerArm = 40000, sim_baselineRate = Fin 1, sim_trueLift = Fin 0\<rparr> in
     length (simulate opts) = 40 \<and> sample_conversions (cp_control (simulate opts ! 39)) = Fin 40000"
proof -
  let ?opts = "\<lparr>sim_seed = Fin 1, sim_usersPerArm = 40000, sim_baselineRate = Fin 1, sim_trueLift = Fin 0\<rparr>"
  have "users_per_checkpoint ?opts = 1000"
    by (simp add: users_per_checkpoint_def CHECKPOINTS_def divide_js_number_def)
  moreover have few: "sim_usersPerArm ?opts < 2 ^ 40" by simp
  have "length (simulate ?opts) = CHECKPOINTS
    \<and> sample_conversions (cp_control (simulate ?opts ! 39)) = number_of_nat (40 * users_per_checkpoint ?opts)"
    by (insert simulation_is_consistent [OF few], elim conjE exE, drule spec [of _ "39 :: nat"]) (simp add: Let_def CHECKPOINTS_def)
  ultimately show ?thesis by (simp add: CHECKPOINTS_def)
qed

section \<open>The first crossing\<close>

text \<open>The index that the page marks is that of the first significant checkpoint, if there is one.\<close>

definition first_index :: "('a \<Rightarrow> bool) \<Rightarrow> 'a list \<Rightarrow> nat option" where
  "first_index p xs = find (\<lambda>i. p (xs ! i)) [0..<length xs]"

lemma first_index_snoc:
  "first_index p (xs @ [x]) = first_of (first_index p xs) (p x) (length xs)"
proof -
  have "find (\<lambda>i. p ((xs @ [x]) ! i)) [0..<length xs] = find (\<lambda>i. p (xs ! i)) [0..<length xs]"
    by (rule find_cong) (simp_all add: nth_append)
  then show ?thesis by (auto simp: first_index_def first_of_def find_snoc nth_append split: option.splits)
qed

lemma analyse_loop_eq:
  "analyse_loop m (length cs) ds
     \<lparr>an_fixedPoints = map (fixed_point m) cs, an_sequentialPoints = map (sequential_point m) cs,
      an_fixedFirst = first_index (\<lambda>c. tr_significant (fixed_test m c)) cs,
      an_sequentialFirst = first_index (\<lambda>c. sq_significant (sequential_test m c)) cs\<rparr>
   = \<lparr>an_fixedPoints = map (fixed_point m) (cs @ ds), an_sequentialPoints = map (sequential_point m) (cs @ ds),
      an_fixedFirst = first_index (\<lambda>c. tr_significant (fixed_test m c)) (cs @ ds),
      an_sequentialFirst = first_index (\<lambda>c. sq_significant (sequential_test m c)) (cs @ ds)\<rparr>"
proof (induction ds arbitrary: cs)
  case (Cons d ds)
  from Cons.IH [of "cs @ [d]"] show ?case by (simp add: first_index_snoc)
qed simp

lemma analyse_eq:
  "analyse m cs = \<lparr>an_fixedPoints = map (fixed_point m) cs, an_sequentialPoints = map (sequential_point m) cs,
     an_fixedFirst = first_index (\<lambda>c. tr_significant (fixed_test m c)) cs,
     an_sequentialFirst = first_index (\<lambda>c. sq_significant (sequential_test m c)) cs\<rparr>"
  using analyse_loop_eq [of m "[]" cs] by (simp add: analyse_def first_index_def)

text \<open>
  So the page reports a false positive of an analysis exactly when there is no lift and some checkpoint of
  that analysis was significant.
\<close>

lemma false_positive_iff:
  "false_positive trueLift (fixed_series (analyse m cs))
    \<longleftrightarrow> num_eq trueLift (Fin 0) \<and> (\<exists>c \<in> set cs. tr_significant (fixed_test m c))"
proof -
  have "first_index p cs \<noteq> None \<longleftrightarrow> (\<exists>c \<in> set cs. p c)" for p
    unfolding first_index_def find_None_iff by (auto simp: in_set_conv_nth) (metis nth_mem)
  then show ?thesis by (simp add: false_positive_def fixed_series_def analyse_eq)
qed

end
