(* ===== verification/Interval_Chart.thy ===== *)
theory Interval_Chart
  imports Experiments
begin

text \<open>
  \<open>apps/console/src/components/IntervalChart.tsx\<close>: the scales of the chart and the texts of its paths, at
  the default size. The labels are not modelled.
\<close>

section \<open>Scales\<close>

definition chart_width :: js_number where "chart_width = Fin 720"
definition chart_height :: js_number where "chart_height = Fin 280"
definition margin_top :: js_number where "margin_top = Fin 16"
definition margin_right :: js_number where "margin_right = Fin 16"
definition margin_bottom :: js_number where "margin_bottom = Fin 36"
definition margin_left :: js_number where "margin_left = Fin 56"

definition plotWidth :: js_number where
  "plotWidth = chart_width - margin_left - margin_right"

definition plotHeight :: js_number where
  "plotHeight = chart_height - margin_top - margin_bottom"

text \<open>\<open>Math.max(...xs)\<close> and \<open>Math.min(...xs)\<close>\<close>

definition max_of :: "js_number list \<Rightarrow> js_number" where
  "max_of xs = foldl math_max NegInf xs"

definition min_of :: "js_number list \<Rightarrow> js_number" where
  "min_of xs = foldl math_min PosInf xs"

definition all_points :: "interval_series list \<Rightarrow> interval_point list" where
  "all_points series = concat (map is_points series)"

definition maxN :: "interval_point list \<Rightarrow> js_number" where
  "maxN ps = max_of (map ip_n ps)"

definition minN :: "interval_point list \<Rightarrow> js_number" where
  "minN ps = min_of (map ip_n ps)"

definition extent_of :: "interval_point list \<Rightarrow> js_number" where
  "extent_of ps = max_of (map (\<lambda>p. math_max (math_abs (ip_lower p)) (math_abs (ip_upper p))) ps)"

text \<open>\<open>extent * 1.1 || 0.01\<close>: zero and \<open>NaN\<close> are falsy.\<close>

definition yMax :: "interval_point list \<Rightarrow> js_number" where
  "yMax ps = (let v = extent_of ps * num 1.1 in if v = Fin 0 \<or> v = NaN then num 0.01 else v)"

definition chart_x :: "interval_point list \<Rightarrow> js_number \<Rightarrow> js_number" where
  "chart_x ps n = margin_left + ((n - minN ps) / math_max (maxN ps - minN ps) (Fin 1)) * plotWidth"

definition chart_y :: "interval_point list \<Rightarrow> js_number \<Rightarrow> js_number" where
  "chart_y ps v = margin_top + plotHeight / Fin 2 - (v / yMax ps) * (plotHeight / Fin 2)"

section \<open>Paths\<close>

definition place :: "js_number \<Rightarrow> js_number \<Rightarrow> js_string" where
  "place a b = number_to_string a @ lit '','' @ number_to_string b"

definition bandPath :: "interval_point list \<Rightarrow> interval_point list \<Rightarrow> js_string" where
  "bandPath ps points =
     (let upper = map (\<lambda>p. place (chart_x ps (ip_n p)) (chart_y ps (ip_upper p))) points;
          lower = map (\<lambda>p. place (chart_x ps (ip_n p)) (chart_y ps (ip_lower p))) (rev points) in
      lit ''M '' @ join (lit '' L '') upper @ lit '' L '' @ join (lit '' L '') lower @ lit '' Z'')"

definition linePath :: "interval_point list \<Rightarrow> interval_point list \<Rightarrow> js_string" where
  "linePath ps points =
     join (lit '' '') (map (\<lambda>(i, p). (if i = 0 then lit ''M'' else lit ''L'') @ lit '' '' @
       place (chart_x ps (ip_n p)) (chart_y ps (ip_effect p))) (enumerate 0 points))"

text \<open>Where the crossing of a series is drawn, if it is.\<close>

definition crossing_x :: "interval_point list \<Rightarrow> interval_series \<Rightarrow> js_number option" where
  "crossing_x ps s =
     (case is_firstSignificantIndex s of
        None \<Rightarrow> None
      | Some i \<Rightarrow> (if i < length (is_points s) then Some (chart_x ps (ip_n (is_points s ! i))) else None))"

section \<open>Everything is drawn inside the plot\<close>

lemma plot_size: "plotWidth = Fin 648" "plotHeight / Fin 2 = Fin 114" "margin_top + Fin 114 = Fin 130"
  by (simp_all add: plotWidth_def plotHeight_def chart_width_def chart_height_def margin_left_def margin_right_def
      margin_top_def margin_bottom_def js_arith num_sub_def)

text \<open>A finite point of the chart: counts are natural numbers, and the effect lies in the interval.\<close>

definition plottable :: "interval_point \<Rightarrow> bool" where
  "plottable p \<longleftrightarrow> (\<exists>k < 2 ^ 53. ip_n p = Fin (of_nat k))
     \<and> (\<exists>l e u. ip_lower p = Fin l \<and> ip_effect p = Fin e \<and> ip_upper p = Fin u \<and> l \<le> e \<and> e \<le> u
          \<and> representable l \<and> representable e \<and> representable u)"

lemma math_max_Fin [simp]: "math_max (Fin a) (Fin b) = Fin (max a b)"
  by (auto simp: math_max_def)

lemma math_min_Fin [simp]: "math_min (Fin a) (Fin b) = Fin (min a b)"
  by (auto simp: math_min_def)

lemma max_fold: "foldl math_max (Fin a) (map Fin qs) = Fin (foldl max a qs)"
  by (induction qs arbitrary: a) simp_all

lemma min_fold: "foldl math_min (Fin a) (map Fin qs) = Fin (foldl min a qs)"
  by (induction qs arbitrary: a) simp_all

lemma foldl_max: "foldl max a xs = Max (set (a # xs))" and foldl_min: "foldl min a xs = Min (set (a # xs))"
  for a :: rat
proof -
  have "foldl max a xs = fold max xs a" "foldl min a xs = fold min xs a"
    by (induction xs arbitrary: a) (simp_all add: max.commute min.commute)
  then show "foldl max a xs = Max (set (a # xs))" "foldl min a xs = Min (set (a # xs))"
    by (simp_all only: Max.set_eq_fold Min.set_eq_fold)
qed

lemma max_of_Fin: "qs \<noteq> [] \<Longrightarrow> max_of (map Fin qs) = Fin (Max (set qs))"
  and min_of_Fin: "qs \<noteq> [] \<Longrightarrow> min_of (map Fin qs) = Fin (Min (set qs))"
proof -
  have "math_max NegInf (Fin q) = Fin q" "math_min PosInf (Fin q) = Fin q" for q
    by (simp_all add: math_max_def math_min_def)
  then show "qs \<noteq> [] \<Longrightarrow> max_of (map Fin qs) = Fin (Max (set qs))" "qs \<noteq> [] \<Longrightarrow> min_of (map Fin qs) = Fin (Min (set qs))"
    by (cases qs; simp add: max_of_def min_of_def max_fold min_fold foldl_max foldl_min)+
qed

text \<open>A fraction of a scale stays between its ends.\<close>

lemma fraction_of_scale:
  assumes "0 \<le> a" "a \<le> b" "1 \<le> b" "b < 2 ^ 53"
  shows "\<exists>q. (Fin a / Fin b) * Fin 648 = Fin q \<and> 0 \<le> q \<and> q \<le> 648"
proof -
  have "a / b \<le> 1" "0 \<le> a / b" using assms by simp_all
  then obtain r where r: "round_double (a / b) = Fin r" "0 \<le> r" "r \<le> 1"
    using round_between [of 0 "a / b" 1] by auto
  then obtain q where "round_double (r * 648) = Fin q" "0 \<le> q" "q \<le> 648"
    using round_between [of 0 "r * 648" 648] by auto
  with r assms(3) show ?thesis by (auto simp: js_arith)
qed

lemma x_in_plot:
  assumes "\<forall>p \<in> set ps. \<exists>k < 2 ^ 53. ip_n p = Fin (of_nat k)" and "p \<in> set ps"
  shows "\<exists>q. chart_x ps (ip_n p) = Fin q \<and> 56 \<le> q \<and> q \<le> 704"
proof -
  obtain count where count: "\<forall>p \<in> set ps. count p < (2 :: nat) ^ 53 \<and> ip_n p = Fin (of_nat (count p))"
    using bchoice [OF assms(1)] by auto
  let ?qs = "map (\<lambda>p. of_nat (count p) :: rat) ps"
  have n: "map ip_n ps = map Fin ?qs" using count by simp
  have qs: "?qs \<noteq> []" using assms(2) by auto
  define lo hi where "lo = Min (count ` set ps)" and "hi = Max (count ` set ps)"
  have mono: "mono (of_nat :: nat \<Rightarrow> rat)" by (simp add: mono_def)
  have "ps \<noteq> []" using assms(2) by auto
  then have ends: "minN ps = Fin (of_nat lo)" "maxN ps = Fin (of_nat hi)"
    unfolding minN_def maxN_def n min_of_Fin [OF qs] max_of_Fin [OF qs] lo_def hi_def
    using mono_Min_commute [OF mono, of "count ` set ps"] mono_Max_commute [OF mono, of "count ` set ps"]
    by (simp_all add: image_image)
  have between: "lo \<le> count p" "count p \<le> hi" using assms(2) by (simp_all add: lo_def hi_def)
  have "hi < 2 ^ 53" unfolding hi_def using \<open>ps \<noteq> []\<close> count by (subst Max_less_iff) auto
  then have exact: "Fin (of_nat (count p)) - Fin (of_nat lo) = Fin (of_nat (count p - lo))"
    "Fin (of_nat hi) - Fin (of_nat lo) = Fin (of_nat (hi - lo))"
    using between representable_of_int [of "int (count p - lo)"] representable_of_int [of "int (hi - lo)"]
    by (simp_all add: js_exact of_nat_diff)
  have "math_max (Fin (of_nat (hi - lo))) (Fin 1) = Fin (of_nat (max (hi - lo) 1))" by (simp add: max_def)
  moreover have "(of_nat (max (hi - lo) 1) :: rat) < of_nat (2 ^ 53)" using \<open>hi < 2 ^ 53\<close> by (simp only: of_nat_less_iff) simp
  moreover have "(of_nat (count p - lo) :: rat) \<le> of_nat (max (hi - lo) 1)" using between by (simp only: of_nat_le_iff)
  moreover have "(1 :: rat) \<le> of_nat (max (hi - lo) 1)" by (metis of_nat_1 of_nat_le_iff max.cobounded2)
  ultimately obtain q where q: "(Fin (of_nat (count p - lo)) / math_max (Fin (of_nat (hi - lo))) (Fin 1)) * Fin 648 = Fin q"
    "0 \<le> q" "q \<le> 648"
    using fraction_of_scale [of "of_nat (count p - lo)" "of_nat (max (hi - lo) 1)"] by auto
  then obtain r where "round_double (56 + q) = Fin r" "56 \<le> r" "r \<le> 704"
    using round_between [of 56 "56 + q" 704] by auto
  then have "margin_left + Fin q = Fin r" "56 \<le> r" "r \<le> 704" by (simp_all add: margin_left_def js_arith)
  moreover have "ip_n p = Fin (of_nat (count p))" using count assms(2) by blast
  ultimately show ?thesis unfolding chart_x_def ends plot_size(1) by (simp only: exact q(1)) blast
qed

text \<open>The scale of the values is at least as large as each of them.\<close>

lemma value_on_scale:
  assumes "\<bar>v\<bar> \<le> e" "representable e" "extent_of ps = Fin e"
  shows "\<exists>q. Fin v / yMax ps = Fin q \<and> - 1 \<le> q \<and> q \<le> 1"
proof -
  obtain r where r: "num 1.1 = Fin r" "1 \<le> r" using round_between [of 1 "1.1" 2] by auto
  have y: "yMax ps = (let v = round_double (e * r) in if v = Fin 0 \<or> v = NaN then num 0.01 else v)"
    by (simp add: yMax_def assms(3) r(1) times_js_number_def)
  have ratio: "\<exists>q. Fin v / Fin s = Fin q \<and> - 1 \<le> q \<and> q \<le> 1" if "0 < s" "e \<le> s" for s
  proof -
    have "- s \<le> v" "v \<le> s" using assms(1) that by auto
    then have "- 1 \<le> v / s" "v / s \<le> 1" using that(1) by (simp_all add: le_divide_eq divide_le_eq)
    then obtain q where "round_double (v / s) = Fin q" "- 1 \<le> q" "q \<le> 1"
      using round_between [of "- 1" "v / s" 1] by auto
    with that(1) show ?thesis by (auto simp: divide_js_number_def)
  qed
  show ?thesis
  proof (cases "e = 0")
    case True
    have "round_double (1 / 128) = Fin (1 / 128)"
      using round_double_dyadic [of 1 "- 7"] by (simp add: power_int_minus_divide)
    then have "num_le (Fin (1 / 128)) (num 0.01)" using round_double_mono [of "1 / 128" "0.01"] by simp
    moreover obtain z where "num 0.01 = Fin z" using round_between [of 0 "0.01" 1] by auto
    ultimately show ?thesis using ratio [of z] True by (simp add: y)
  next
    case False
    then have "0 < e" using assms(1) by auto
    have "num_le (Fin e) (round_double (e * r))"
      using round_double_mono [of e "e * r"] assms(2) r(2) \<open>0 < e\<close> by (simp add: representable_def)
    then consider s where "round_double (e * r) = Fin s" "e \<le> s" | "round_double (e * r) = PosInf"
      by (cases "round_double (e * r)") auto
    then show ?thesis
    proof cases
      case (1 s)
      with ratio [of s] \<open>0 < e\<close> show ?thesis by (simp add: y)
    next
      case 2
      then show ?thesis by (simp add: y divide_js_number_def)
    qed
  qed
qed

lemma extent_covers:
  assumes "\<forall>p \<in> set ps. plottable p" "p \<in> set ps"
  shows "\<exists>e. extent_of ps = Fin e \<and> representable e
    \<and> (\<forall>v. Fin v \<in> {ip_lower p, ip_effect p, ip_upper p} \<longrightarrow> \<bar>v\<bar> \<le> e)"
proof -
  obtain reach where reach: "\<forall>p \<in> set ps. math_max (math_abs (ip_lower p)) (math_abs (ip_upper p)) = Fin (reach p)
      \<and> representable (reach p) \<and> (\<forall>v. Fin v \<in> {ip_lower p, ip_effect p, ip_upper p} \<longrightarrow> \<bar>v\<bar> \<le> reach p)"
  proof -
    have "\<exists>q. math_max (math_abs (ip_lower p)) (math_abs (ip_upper p)) = Fin q
        \<and> representable q \<and> (\<forall>v. Fin v \<in> {ip_lower p, ip_effect p, ip_upper p} \<longrightarrow> \<bar>v\<bar> \<le> q)" if "p \<in> set ps" for p
    proof -
      obtain l e u where p: "ip_lower p = Fin l" "ip_effect p = Fin e" "ip_upper p = Fin u" "l \<le> e" "e \<le> u"
          "representable l" "representable u"
        using assms(1) \<open>p \<in> set ps\<close> unfolding plottable_def by blast
      have "representable \<bar>l\<bar>" "representable \<bar>u\<bar>" using p by (auto simp: abs_if)
      then have "representable (max \<bar>l\<bar> \<bar>u\<bar>)" by (simp add: max_def)
      with p show ?thesis by auto
    qed
    then show thesis using that by (metis (no_types, lifting))
  qed
  have "extent_of ps = max_of (map Fin (map reach ps))"
    unfolding extent_of_def using reach by (auto intro!: arg_cong [where f = max_of])
  moreover have "map reach ps \<noteq> []" using assms(2) by auto
  ultimately have e: "extent_of ps = Fin (Max (set (map reach ps)))" using max_of_Fin by metis
  have "Max (set (map reach ps)) \<in> set (map reach ps)" using \<open>map reach ps \<noteq> []\<close> by (intro Max_in) auto
  then have "representable (Max (set (map reach ps)))" using reach by auto
  moreover have "reach p \<le> Max (set (map reach ps))" using assms(2) by simp
  ultimately show ?thesis using e reach assms(2) by (metis (no_types, lifting) order_trans)
qed

lemma y_in_plot:
  assumes "\<forall>p \<in> set ps. plottable p" "p \<in> set ps" "v \<in> {ip_lower p, ip_effect p, ip_upper p}"
  shows "\<exists>q. chart_y ps v = Fin q \<and> 16 \<le> q \<and> q \<le> 244"
proof -
  obtain w where w: "v = Fin w" using assms unfolding plottable_def by blast
  from extent_covers [OF assms(1,2)] obtain e where "extent_of ps = Fin e" "representable e"
    and "\<forall>v. Fin v \<in> {ip_lower p, ip_effect p, ip_upper p} \<longrightarrow> \<bar>v\<bar> \<le> e" by blast
  moreover from this have "\<bar>w\<bar> \<le> e" using assms(3) unfolding w by blast
  ultimately have "\<bar>w\<bar> \<le> e" "representable e" "extent_of ps = Fin e" by simp_all
  then obtain q where q: "v / yMax ps = Fin q" "- 1 \<le> q" "q \<le> 1" using value_on_scale [of w e ps] w by auto
  then obtain r where "round_double (q * 114) = Fin r" "- 114 \<le> r" "r \<le> 114"
    using round_between [of "- 114" "q * 114" 114] by auto
  moreover from this obtain z where "round_double (130 - r) = Fin z" "16 \<le> z" "z \<le> 244"
    using round_between [of 16 "130 - r" 244] by auto
  ultimately show ?thesis unfolding chart_y_def plot_size q(1) by (simp add: js_arith num_sub_def)
qed

text \<open>
  Everything is drawn inside the plot: at the default size, for any series of finite intervals, every
  point of a band or a line, and the mark of the first crossing, lies within the margins of the picture,
  in spite of rounding; and the zero line is in the middle.
\<close>

lemma chart_stays_in_the_plot:
  assumes "\<forall>p \<in> set (all_points series). plottable p" and "s \<in> set series" "p \<in> set (is_points s)"
  shows "(\<exists>x. chart_x (all_points series) (ip_n p) = Fin x \<and> 56 \<le> x \<and> x \<le> 704)
    \<and> (\<forall>v \<in> {ip_lower p, ip_effect p, ip_upper p}. \<exists>y. chart_y (all_points series) v = Fin y \<and> 16 \<le> y \<and> y \<le> 244)
    \<and> (\<forall>x. crossing_x (all_points series) s = Some x \<longrightarrow> (\<exists>q. x = Fin q \<and> 56 \<le> q \<and> q \<le> 704))
    \<and> chart_y (all_points series) (Fin 0) = Fin 130"
proof -
  let ?ps = "all_points series"
  have mem: "r \<in> set ?ps" if "r \<in> set (is_points s)" for r using that assms(2) by (auto simp: all_points_def)
  have counts: "\<forall>p \<in> set ?ps. \<exists>k < 2 ^ 53. ip_n p = Fin (of_nat k)" using assms(1) by (auto simp: plottable_def)
  have x: "\<exists>x. chart_x ?ps (ip_n r) = Fin x \<and> 56 \<le> x \<and> x \<le> 704" if "r \<in> set (is_points s)" for r
    by (rule x_in_plot [OF counts mem [OF that]])
  have y: "\<forall>v \<in> {ip_lower p, ip_effect p, ip_upper p}. \<exists>y. chart_y ?ps v = Fin y \<and> 16 \<le> y \<and> y \<le> 244"
    using y_in_plot [OF assms(1) mem [OF assms(3)]] by blast
  have crossing: "\<exists>q. x = Fin q \<and> 56 \<le> q \<and> q \<le> 704" if "crossing_x ?ps s = Some x" for x
    using that x [OF nth_mem] by (auto simp: crossing_x_def split: option.splits if_splits)
  obtain e where "extent_of ?ps = Fin e" "representable e" "0 \<le> e"
    using extent_covers [OF assms(1) mem [OF assms(3)]] assms(1) mem [OF assms(3)] unfolding plottable_def
    by (metis abs_ge_zero insertI1 order_trans)
  then have "\<exists>q. Fin 0 / yMax ?ps = Fin q" using value_on_scale [of 0 e ?ps] by auto
  then have "Fin 0 / yMax ?ps = Fin 0" by (cases "yMax ?ps") (auto simp: divide_js_number_def split: if_splits)
  then have "chart_y ?ps (Fin 0) = Fin 130"
    unfolding chart_y_def plot_size by (simp add: js_arith num_sub_def)
  with x [OF assms(3)] y crossing show ?thesis by blast
qed

lemma chart_stays_in_the_plot_witness:
  "let p = \<lparr>ip_n = Fin 1000, ip_effect = Fin 0, ip_lower = Fin (- 1), ip_upper = Fin 1\<rparr>;
       s = \<lparr>is_label = [], is_color = [], is_points = [p], is_firstSignificantIndex = Some 0\<rparr> in
   \<exists>y. chart_y (all_points [s]) (ip_upper p) = Fin y \<and> 16 \<le> y \<and> y \<le> 244"
proof -
  let ?p = "\<lparr>ip_n = Fin 1000, ip_effect = Fin 0, ip_lower = Fin (- 1), ip_upper = Fin 1\<rparr>"
  let ?s = "\<lparr>is_label = [], is_color = [], is_points = [?p], is_firstSignificantIndex = Some 0\<rparr>"
  have "plottable ?p"
    using representable_of_int [of 1] by (auto simp: plottable_def representable_def intro: exI [of _ 1000])
  then have "\<forall>p \<in> set (all_points [?s]). plottable p" by (simp add: all_points_def)
  from chart_stays_in_the_plot [OF this, of ?s ?p] show ?thesis by simp
qed

end
