(* ===== verification/Aa_Simulation.thy ===== *)
theory Aa_Simulation
  imports Experiments "HOL-Library.Multiset"
begin

text \<open>
  \<open>packages/core/scripts/aa-simulation.ts\<close>: experiments whose arms are drawn from one distribution, under
  three ways to look at them. The functions of \<open>Math\<close> are a parameter of the tests; the random numbers
  are drawn in the order of the script.
\<close>

definition EXPERIMENTS :: nat where "EXPERIMENTS = 1000"
definition USERS_PER_ARM :: nat where "USERS_PER_ARM = 20000"
definition BASELINE_RATE :: js_number where "BASELINE_RATE = num 0.1"
definition AA_ALPHA :: js_number where "AA_ALPHA = num 0.05"
definition PEEK_INTERVAL :: nat where "PEEK_INTERVAL = 500"
definition MIN_SAMPLE_BEFORE_PEEKING :: nat where "MIN_SAMPLE_BEFORE_PEEKING = 1000"

text \<open>The generator of the script has the steps of the one on the page.\<close>

definition aa_random :: "32 word \<Rightarrow> js_number \<times> 32 word" where
  "aa_random state = draw state"

record aa_run =
  aa_state :: "32 word"
  aa_controlConversions :: nat
  aa_treatmentConversions :: nat
  aa_fixedFired :: bool
  aa_sequentialFired :: bool
  aa_looks :: nat
  aa_stops :: "nat list"

record counters =
  fixedAtEnd :: nat
  fixedPeeking :: nat
  sequentialPeeking :: nat

definition aa_sample :: "nat \<Rightarrow> nat \<Rightarrow> binary_sample" where
  "aa_sample n conversions = \<lparr>sample_n = number_of_nat n, sample_conversions = number_of_nat conversions\<rparr>"

definition aa_fixed_significant :: "math \<Rightarrow> nat \<Rightarrow> nat \<Rightarrow> nat \<Rightarrow> bool" where
  "aa_fixed_significant m n control treatment =
     tr_significant (twoProportionZTest m (aa_sample n control) (aa_sample n treatment) (Some AA_ALPHA))"

definition aa_sequential_significant :: "math \<Rightarrow> nat \<Rightarrow> nat \<Rightarrow> nat \<Rightarrow> bool" where
  "aa_sequential_significant m n control treatment =
     sq_significant (sequentialProportionTest m (aa_sample n control) (aa_sample n treatment)
       \<lparr>so_alpha = Some AA_ALPHA, so_tau = Some (num 0.01)\<rparr>)"

definition isPeekPoint :: "nat \<Rightarrow> bool" where
  "isPeekPoint n \<longleftrightarrow> MIN_SAMPLE_BEFORE_PEEKING \<le> n \<and> n mod PEEK_INTERVAL = 0"

definition aa_draw_users :: "aa_run \<Rightarrow> aa_run" where
  "aa_draw_users run =
     (let (r1, s1) = aa_random (aa_state run);
          (r2, s2) = aa_random s1
      in run\<lparr>aa_state := s2,
         aa_controlConversions := aa_controlConversions run + (if r1 < BASELINE_RATE then 1 else 0),
         aa_treatmentConversions := aa_treatmentConversions run + (if r2 < BASELINE_RATE then 1 else 0)\<rparr>)"

definition aa_look :: "math \<Rightarrow> nat \<Rightarrow> aa_run \<Rightarrow> aa_run" where
  "aa_look m n run =
     (let looks = aa_looks run + 1;
          control = aa_controlConversions run; treatment = aa_treatmentConversions run;
          fixed = \<not> aa_fixedFired run \<and> aa_fixed_significant m n control treatment;
          sequential = \<not> aa_sequentialFired run \<and> aa_sequential_significant m n control treatment
      in run\<lparr>aa_looks := looks, aa_fixedFired := aa_fixedFired run \<or> fixed,
         aa_stops := (if fixed then aa_stops run @ [looks] else aa_stops run),
         aa_sequentialFired := aa_sequentialFired run \<or> sequential\<rparr>)"

definition aa_user :: "math \<Rightarrow> nat \<Rightarrow> aa_run \<Rightarrow> aa_run" where
  "aa_user m n run = (let run' = aa_draw_users run in if isPeekPoint n then aa_look m n run' else run')"

text \<open>One experiment starts from the state of the generator and the stopping points so far.\<close>

definition aa_start :: "32 word \<Rightarrow> nat list \<Rightarrow> aa_run" where
  "aa_start state stops = \<lparr>aa_state = state, aa_controlConversions = 0, aa_treatmentConversions = 0,
     aa_fixedFired = False, aa_sequentialFired = False, aa_looks = 0, aa_stops = stops\<rparr>"

definition aa_users :: "math \<Rightarrow> nat \<Rightarrow> 32 word \<Rightarrow> nat list \<Rightarrow> aa_run" where
  "aa_users m users state stops = fold (aa_user m) [1..<users + 1] (aa_start state stops)"

definition aa_experiment ::
    "math \<Rightarrow> 32 word \<times> nat list \<times> counters \<Rightarrow> 32 word \<times> nat list \<times> counters" where
  "aa_experiment m st =
     (let (state, stops, c) = st;
          run = aa_users m USERS_PER_ARM state stops;
          atEnd = aa_fixed_significant m USERS_PER_ARM (aa_controlConversions run) (aa_treatmentConversions run)
      in (aa_state run, aa_stops run,
          \<lparr>fixedAtEnd = fixedAtEnd c + (if atEnd then 1 else 0),
           fixedPeeking = fixedPeeking c + (if aa_fixedFired run then 1 else 0),
           sequentialPeeking = sequentialPeeking c + (if aa_sequentialFired run then 1 else 0)\<rparr>))"

definition aa_simulation :: "math \<Rightarrow> nat \<Rightarrow> 32 word \<times> nat list \<times> counters" where
  "aa_simulation m experiments = (aa_experiment m ^^ experiments)
     (0xA1A5EED, [], \<lparr>fixedAtEnd = 0, fixedPeeking = 0, sequentialPeeking = 0\<rparr>)"

definition looksPerExperiment :: nat where
  "looksPerExperiment = (USERS_PER_ARM - MIN_SAMPLE_BEFORE_PEEKING) div PEEK_INTERVAL + 1"

definition median_stop :: "nat list \<Rightarrow> nat" where
  "median_stop stops = sort stops ! (length stops div 2)"

section \<open>Looks\<close>

text \<open>The looks of an experiment, in the order of the script.\<close>

definition looks_until :: "nat \<Rightarrow> nat list" where
  "looks_until users = filter isPeekPoint [1..<users + 1]"

lemma looks_until_Suc: "looks_until (Suc n) = looks_until n @ (if isPeekPoint (Suc n) then [Suc n] else [])"
  by (simp add: looks_until_def)

lemma peek_points: "isPeekPoint n \<longleftrightarrow> (\<exists>k. n = 500 * (k + 2))"
proof
  assume "isPeekPoint n"
  then have "n = 500 * (n div 500)" "2 \<le> n div 500"
    by (auto simp: isPeekPoint_def PEEK_INTERVAL_def MIN_SAMPLE_BEFORE_PEEKING_def)
  then have "n = 500 * ((n div 500 - 2) + 2)" by simp
  then show "\<exists>k. n = 500 * (k + 2)" ..
qed (auto simp: isPeekPoint_def PEEK_INTERVAL_def MIN_SAMPLE_BEFORE_PEEKING_def)

lemma length_looks: "length (looks_until n) = (if n < 1000 then 0 else n div 500 - 1)"
proof (induction n)
  case (Suc n)
  have "Suc n div 500 = (if Suc n mod 500 = 0 then n div 500 + 1 else n div 500)" by (simp add: div_Suc)
  moreover have "n < 1000 \<Longrightarrow> \<not> Suc n < 1000 \<Longrightarrow> n = 999" by simp
  ultimately show ?case using Suc
    by (auto simp: looks_until_Suc isPeekPoint_def PEEK_INTERVAL_def MIN_SAMPLE_BEFORE_PEEKING_def)
qed (simp add: looks_until_def)

lemma looks_per_experiment: "length (looks_until USERS_PER_ARM) = looksPerExperiment" "looksPerExperiment = 39"
  by (simp_all add: length_looks looksPerExperiment_def USERS_PER_ARM_def MIN_SAMPLE_BEFORE_PEEKING_def PEEK_INTERVAL_def)

section \<open>One experiment\<close>

text \<open>The conversions after so many users, whatever was looked at in between.\<close>

definition conversions_after :: "32 word \<Rightarrow> nat \<Rightarrow> nat \<times> nat" where
  "conversions_after state n =
     (let run = (aa_draw_users ^^ n) (aa_start state []) in (aa_controlConversions run, aa_treatmentConversions run))"

definition look_fires :: "(nat \<Rightarrow> nat \<Rightarrow> nat \<Rightarrow> bool) \<Rightarrow> 32 word \<Rightarrow> nat \<Rightarrow> bool" where
  "look_fires test state n = (let (c, t) = conversions_after state n in test n c t)"

lemma draw_users_data:
  assumes "aa_state a = aa_state b" "aa_controlConversions a = aa_controlConversions b"
    "aa_treatmentConversions a = aa_treatmentConversions b"
  shows "aa_state (aa_draw_users a) = aa_state (aa_draw_users b)
    \<and> aa_controlConversions (aa_draw_users a) = aa_controlConversions (aa_draw_users b)
    \<and> aa_treatmentConversions (aa_draw_users a) = aa_treatmentConversions (aa_draw_users b)"
  using assms by (simp add: aa_draw_users_def split: prod.split)

lemma draw_users_keeps:
  "aa_fixedFired (aa_draw_users a) = aa_fixedFired a" "aa_sequentialFired (aa_draw_users a) = aa_sequentialFired a"
  "aa_looks (aa_draw_users a) = aa_looks a" "aa_stops (aa_draw_users a) = aa_stops a"
  by (simp_all add: aa_draw_users_def split: prod.split)

lemma look_keeps:
  "aa_state (aa_look m n a) = aa_state a" "aa_controlConversions (aa_look m n a) = aa_controlConversions a"
  "aa_treatmentConversions (aa_look m n a) = aa_treatmentConversions a"
  by (simp_all add: aa_look_def Let_def)

text \<open>The number of the first look that fires, if one does.\<close>

definition first_look :: "(nat \<Rightarrow> bool) \<Rightarrow> nat \<Rightarrow> nat list" where
  "first_look fires n = (case find (\<lambda>i. fires (looks_until n ! i)) [0..<length (looks_until n)] of
     None \<Rightarrow> [] | Some i \<Rightarrow> [i + 1])"

lemma find_looks_append:
  "find (\<lambda>i. fires ((xs @ [x]) ! i)) [0..<length (xs @ [x])] =
    (case find (\<lambda>i. fires (xs ! i)) [0..<length xs] of
       None \<Rightarrow> if fires x then Some (length xs) else None | Some i \<Rightarrow> Some i)"
proof -
  have "find (\<lambda>i. fires ((xs @ [x]) ! i)) [0..<length xs] = find (\<lambda>i. fires (xs ! i)) [0..<length xs]"
    by (rule find_cong) (simp_all add: nth_append)
  then show ?thesis by (simp add: find_snoc split: option.splits)
qed

lemma find_looks_None: "find (\<lambda>i. fires (xs ! i)) [0..<length xs] = None \<longleftrightarrow> \<not> (\<exists>x \<in> set xs. fires x)"
  by (simp add: find_None_iff) (metis in_set_conv_nth)

lemma aa_users_run:
  fixes m :: math
  defines "fires \<equiv> look_fires (aa_fixed_significant m)" and "sfires \<equiv> look_fires (aa_sequential_significant m)"
  shows "let run = aa_users m n state stops; users = (aa_draw_users ^^ n) (aa_start state []) in
    aa_state run = aa_state users \<and> aa_controlConversions run = aa_controlConversions users
    \<and> aa_treatmentConversions run = aa_treatmentConversions users
    \<and> aa_looks run = length (looks_until n)
    \<and> (aa_fixedFired run \<longleftrightarrow> (\<exists>k \<in> set (looks_until n). fires state k))
    \<and> (aa_sequentialFired run \<longleftrightarrow> (\<exists>k \<in> set (looks_until n). sfires state k))
    \<and> aa_stops run = stops @ first_look (fires state) n"
proof (induction n)
  case 0
  show ?case by (simp add: aa_users_def aa_start_def looks_until_def first_look_def)
next
  case (Suc n)
  define run where "run = aa_users m n state stops"
  define users where "users = (aa_draw_users ^^ n) (aa_start state [])"
  have IH: "aa_state run = aa_state users" "aa_controlConversions run = aa_controlConversions users"
      "aa_treatmentConversions run = aa_treatmentConversions users" "aa_looks run = length (looks_until n)"
      "aa_fixedFired run \<longleftrightarrow> (\<exists>k \<in> set (looks_until n). fires state k)"
      "aa_sequentialFired run \<longleftrightarrow> (\<exists>k \<in> set (looks_until n). sfires state k)"
      "aa_stops run = stops @ first_look (fires state) n"
    using Suc by (simp_all add: run_def users_def Let_def)
  have step: "aa_users m (Suc n) state stops = aa_user m (Suc n) run"
    by (simp add: aa_users_def run_def)
  note data = draw_users_data [OF IH(1-3)]
  have after: "conversions_after state (Suc n)
      = (aa_controlConversions (aa_draw_users users), aa_treatmentConversions (aa_draw_users users))"
    by (simp add: conversions_after_def users_def Let_def)
  show ?case
  proof (cases "isPeekPoint (Suc n)")
    case False
    then show ?thesis using IH data
      by (simp add: step aa_user_def draw_users_keeps looks_until_Suc first_look_def users_def [symmetric] Let_def)
  next
    case True
    have "fires state (Suc n) \<longleftrightarrow> aa_fixed_significant m (Suc n) (aa_controlConversions (aa_draw_users run))
        (aa_treatmentConversions (aa_draw_users run))"
      and "sfires state (Suc n) \<longleftrightarrow> aa_sequential_significant m (Suc n) (aa_controlConversions (aa_draw_users run))
        (aa_treatmentConversions (aa_draw_users run))"
      using data by (simp_all add: fires_def sfires_def look_fires_def after)
    moreover have "first_look (fires state) (Suc n) = (if \<exists>k \<in> set (looks_until n). fires state k
        then first_look (fires state) n else if fires state (Suc n) then [length (looks_until n) + 1] else [])"
      using find_looks_None [of "fires state" "looks_until n"] True
      unfolding first_look_def looks_until_Suc if_P [OF True] find_looks_append
      by (auto split: option.splits)
    moreover have "\<not> (\<exists>k \<in> set (looks_until n). fires state k) \<Longrightarrow> first_look (fires state) n = []"
      using find_looks_None [of "fires state" "looks_until n"] by (simp add: first_look_def)
    ultimately show ?thesis using IH data True
      by (auto simp: step aa_user_def aa_look_def draw_users_keeps looks_until_Suc users_def [symmetric] Let_def)
  qed
qed

section \<open>All experiments\<close>

text \<open>An experiment takes two numbers per user from the generator.\<close>

definition aa_seed :: "nat \<Rightarrow> 32 word" where
  "aa_seed i = 0xA1A5EED + of_nat (2 * USERS_PER_ARM * i) * 0x6D2B79F5"

lemma draw_users_state: "aa_state (aa_draw_users a) = aa_state a + 2 * 0x6D2B79F5"
  by (simp add: aa_draw_users_def aa_random_def draw_def next_state_def)

lemma draw_users_states: "aa_state ((aa_draw_users ^^ n) a) = aa_state a + of_nat (2 * n) * 0x6D2B79F5"
  by (induction n) (simp_all add: draw_users_state algebra_simps)

definition fixed_fires :: "math \<Rightarrow> nat \<Rightarrow> nat \<Rightarrow> bool" where
  "fixed_fires m i n = look_fires (aa_fixed_significant m) (aa_seed i) n"

definition sequential_fires :: "math \<Rightarrow> nat \<Rightarrow> nat \<Rightarrow> bool" where
  "sequential_fires m i n = look_fires (aa_sequential_significant m) (aa_seed i) n"

lemma first_look_bounds: "\<forall>s \<in> set (first_look fires n). 1 \<le> s \<and> s \<le> length (looks_until n)"
proof (cases "find (\<lambda>i. fires (looks_until n ! i)) [0..<length (looks_until n)]")
  case (Some i)
  then have "i < length (looks_until n)" by (auto simp: find_Some_iff)
  with Some show ?thesis by (simp add: first_look_def)
qed (simp add: first_look_def)

lemma length_first_look:
  "length (first_look fires n) = (if \<exists>k \<in> set (looks_until n). fires k then 1 else 0)"
  using find_looks_None [of fires "looks_until n"] by (auto simp: first_look_def split: option.splits)

lemma aa_experiment_run:
  "aa_experiment m (aa_seed i, stops, c) =
    (aa_seed (Suc i), stops @ first_look (fixed_fires m i) USERS_PER_ARM,
     \<lparr>fixedAtEnd = fixedAtEnd c + (if fixed_fires m i USERS_PER_ARM then 1 else 0),
      fixedPeeking = fixedPeeking c + (if \<exists>k \<in> set (looks_until USERS_PER_ARM). fixed_fires m i k then 1 else 0),
      sequentialPeeking = sequentialPeeking c
        + (if \<exists>k \<in> set (looks_until USERS_PER_ARM). sequential_fires m i k then 1 else 0)\<rparr>)"
proof -
  define users where "users = (aa_draw_users ^^ USERS_PER_ARM) (aa_start (aa_seed i) [])"
  define run where "run = aa_users m USERS_PER_ARM (aa_seed i) stops"
  have r: "aa_state run = aa_state users" "aa_controlConversions run = aa_controlConversions users"
      "aa_treatmentConversions run = aa_treatmentConversions users"
      "aa_fixedFired run \<longleftrightarrow> (\<exists>k \<in> set (looks_until USERS_PER_ARM). fixed_fires m i k)"
      "aa_sequentialFired run \<longleftrightarrow> (\<exists>k \<in> set (looks_until USERS_PER_ARM). sequential_fires m i k)"
      "aa_stops run = stops @ first_look (fixed_fires m i) USERS_PER_ARM"
    using aa_users_run [of m USERS_PER_ARM "aa_seed i" stops]
    by (simp_all add: run_def users_def Let_def fixed_fires_def [abs_def] sequential_fires_def [abs_def])
  have "aa_state users = aa_seed i + of_nat (2 * USERS_PER_ARM) * 0x6D2B79F5"
    by (simp add: users_def draw_users_states aa_start_def)
  also have "\<dots> = aa_seed (Suc i)" by (simp add: aa_seed_def algebra_simps)
  finally have "aa_state users = aa_seed (Suc i)" .
  moreover have "fixed_fires m i USERS_PER_ARM
      \<longleftrightarrow> aa_fixed_significant m USERS_PER_ARM (aa_controlConversions users) (aa_treatmentConversions users)"
    by (simp add: fixed_fires_def look_fires_def conversions_after_def users_def [symmetric] Let_def)
  ultimately show ?thesis using r by (simp add: aa_experiment_def run_def [symmetric] Let_def)
qed

lemma card_upto_Suc:
  "card {i. i < Suc n \<and> p i} = card {i. i < n \<and> p i} + (if p n then 1 else 0)"
proof -
  have "{i. i < Suc n \<and> p i} = (if p n then insert n {i. i < n \<and> p i} else {i. i < n \<and> p i})"
    by (auto simp: less_Suc_eq)
  then show ?thesis by simp
qed

lemma aa_simulation_run:
  "\<exists>stops. aa_simulation m n = (aa_seed n, stops,
      \<lparr>fixedAtEnd = card {i. i < n \<and> fixed_fires m i USERS_PER_ARM},
       fixedPeeking = card {i. i < n \<and> (\<exists>k \<in> set (looks_until USERS_PER_ARM). fixed_fires m i k)},
       sequentialPeeking = card {i. i < n \<and> (\<exists>k \<in> set (looks_until USERS_PER_ARM). sequential_fires m i k)}\<rparr>)
    \<and> length stops = card {i. i < n \<and> (\<exists>k \<in> set (looks_until USERS_PER_ARM). fixed_fires m i k)}
    \<and> (\<forall>s \<in> set stops. 1 \<le> s \<and> s \<le> looksPerExperiment)"
proof (induction n)
  case 0
  show ?case by (simp add: aa_simulation_def aa_seed_def)
next
  case (Suc n)
  then obtain stops where IH: "aa_simulation m n = (aa_seed n, stops,
      \<lparr>fixedAtEnd = card {i. i < n \<and> fixed_fires m i USERS_PER_ARM},
       fixedPeeking = card {i. i < n \<and> (\<exists>k \<in> set (looks_until USERS_PER_ARM). fixed_fires m i k)},
       sequentialPeeking = card {i. i < n \<and> (\<exists>k \<in> set (looks_until USERS_PER_ARM). sequential_fires m i k)}\<rparr>)"
    "length stops = card {i. i < n \<and> (\<exists>k \<in> set (looks_until USERS_PER_ARM). fixed_fires m i k)}"
    "\<forall>s \<in> set stops. 1 \<le> s \<and> s \<le> looksPerExperiment"
    by blast
  have "aa_simulation m (Suc n) = aa_experiment m (aa_simulation m n)" by (simp add: aa_simulation_def)
  with IH(2,3) first_look_bounds [of "fixed_fires m n" USERS_PER_ARM] show ?case
    unfolding card_upto_Suc by (auto simp: IH(1) aa_experiment_run length_first_look looks_per_experiment(1))
qed

text \<open>
  The simulation measures what it says. After any number of experiments each counter is the number of
  experiments in which its strategy saw a significant result: at the end, at some look, at some look of the
  always-valid test; the last of the 39 looks is the one at the end, so that peeking never has fewer false
  positives than waiting, whatever the functions of \<open>Math\<close>; and there is one stopping point, the number of
  a look, for each experiment that peeking stopped.
\<close>

lemma peeking_never_helps:
  "case aa_simulation m n of (state, stops, c) \<Rightarrow>
     fixedAtEnd c = card {i. i < n \<and> fixed_fires m i USERS_PER_ARM}
     \<and> fixedPeeking c = card {i. i < n \<and> (\<exists>k \<in> set (looks_until USERS_PER_ARM). fixed_fires m i k)}
     \<and> sequentialPeeking c = card {i. i < n \<and> (\<exists>k \<in> set (looks_until USERS_PER_ARM). sequential_fires m i k)}
     \<and> fixedAtEnd c \<le> fixedPeeking c \<and> fixedPeeking c \<le> n \<and> sequentialPeeking c \<le> n
     \<and> length stops = fixedPeeking c \<and> set stops \<subseteq> {1..looksPerExperiment}
     \<and> length (looks_until USERS_PER_ARM) = looksPerExperiment"
proof -
  have last: "USERS_PER_ARM \<in> set (looks_until USERS_PER_ARM)"
    by (simp add: looks_until_def isPeekPoint_def USERS_PER_ARM_def PEEK_INTERVAL_def MIN_SAMPLE_BEFORE_PEEKING_def)
  have fewer: "card {i. i < n \<and> p i} \<le> card {i. i < n \<and> q i}" if "\<And>i. p i \<Longrightarrow> q i" for p q :: "nat \<Rightarrow> bool"
    using that by (intro card_mono) auto
  have bound: "card {i. i < n \<and> p i} \<le> n" for p using fewer [of p "\<lambda>i. True"] by simp
  have "card {i. i < n \<and> fixed_fires m i USERS_PER_ARM}
      \<le> card {i. i < n \<and> (\<exists>k \<in> set (looks_until USERS_PER_ARM). fixed_fires m i k)}"
    using last by (intro fewer) blast
  moreover obtain stops where sim: "aa_simulation m n = (aa_seed n, stops,
      \<lparr>fixedAtEnd = card {i. i < n \<and> fixed_fires m i USERS_PER_ARM},
       fixedPeeking = card {i. i < n \<and> (\<exists>k \<in> set (looks_until USERS_PER_ARM). fixed_fires m i k)},
       sequentialPeeking = card {i. i < n \<and> (\<exists>k \<in> set (looks_until USERS_PER_ARM). sequential_fires m i k)}\<rparr>)"
    "length stops = card {i. i < n \<and> (\<exists>k \<in> set (looks_until USERS_PER_ARM). fixed_fires m i k)}"
    "\<forall>s \<in> set stops. 1 \<le> s \<and> s \<le> looksPerExperiment"
    using aa_simulation_run by blast
  ultimately show ?thesis using bound sim(3) by (simp add: sim(1,2) looks_per_experiment(1) subset_iff)
qed

text \<open>So the median of the stopping points is a look, and the script prints it only when there is one.\<close>

lemma median_is_a_look:
  assumes "stops \<noteq> []" "set stops \<subseteq> {1..looksPerExperiment}"
  shows "median_stop stops \<in> {1..looksPerExperiment}"
proof -
  have "length stops div 2 < length (sort stops)" using assms(1) by (cases stops) simp_all
  then have "median_stop stops \<in> set (sort stops)" unfolding median_stop_def by (rule nth_mem)
  with assms(2) show ?thesis by auto
qed

end
