(* ===== verification/Audit_Log.thy ===== *)
theory Audit_Log
  imports Flag_List
begin

text \<open>
  \<open>apps/console/src/components/AuditLog.tsx\<close>: the state of the page with its effects, as in \<open>Flag_List\<close>, and
  the page together with the server, as a step relation in which requests are in flight.
\<close>

section \<open>The page\<close>

record audit_page =
  al_tenant :: "tenant_row option"
  al_entries :: "audit_row list"
  al_filter :: js_string
  al_error :: "js_string option"
  al_loading :: bool

definition new_audit_page :: audit_page where
  "new_audit_page = \<lparr>al_tenant = None, al_entries = [], al_filter = [], al_error = None, al_loading = True\<rparr>"

datatype audit_event =
    AuditTenants "cause + tenant_row list"
  | AuditEntries "cause + audit_row list"
  | AuditFilter js_string

definition describe_audit :: "cause \<Rightarrow> js_string" where
  "describe_audit c =
     (case c of ApiError m n problems \<Rightarrow> m | OtherError m \<Rightarrow> m | NotAnError \<Rightarrow> lit ''Something went wrong'')"

definition first_item :: "'a list \<Rightarrow> 'a option" where
  "first_item xs = (case xs of [] \<Rightarrow> None | x # ys \<Rightarrow> Some x)"

fun audit_handler :: "audit_event \<Rightarrow> audit_page \<Rightarrow> audit_page" where
  "audit_handler (AuditTenants (Inr ts)) s = s\<lparr>al_tenant := first_item ts\<rparr>"
| "audit_handler (AuditTenants (Inl c)) s = s\<lparr>al_error := Some (describe_audit c)\<rparr>"
| "audit_handler (AuditEntries (Inr es)) s = s\<lparr>al_entries := es, al_loading := False\<rparr>"
| "audit_handler (AuditEntries (Inl c)) s = s\<lparr>al_error := Some (describe_audit c), al_loading := False\<rparr>"
| "audit_handler (AuditFilter x) s = s\<lparr>al_filter := x\<rparr>"

text \<open>The request of the effect: an empty filter is sent as none.\<close>

definition audit_request :: "tenant_row \<Rightarrow> js_string \<Rightarrow> admin_request" where
  "audit_request t x = ListAudit (Some (t_id t)) (if x = [] then None else Some x)"

definition audit_effect :: "audit_page \<Rightarrow> audit_page \<Rightarrow> audit_page \<times> admin_request list" where
  "audit_effect old new =
     (case al_tenant new of
        None \<Rightarrow> (new, [])
      | Some t \<Rightarrow>
          (if al_tenant old = Some t \<and> al_filter old = al_filter new then (new, [])
           else (new\<lparr>al_loading := True\<rparr>, [audit_request t (al_filter new)])))"

definition audit_step :: "audit_event \<Rightarrow> audit_page \<Rightarrow> audit_page \<times> admin_request list" where
  "audit_step ev s = audit_effect s (audit_handler ev s)"

definition audit_run :: "audit_event list \<Rightarrow> audit_page \<Rightarrow> audit_page" where
  "audit_run evs s = fold (\<lambda>ev s. fst (audit_step ev s)) evs s"

section \<open>The page and the server\<close>

text \<open>The answer to a request, as the handler that waits for it gets it.\<close>

fun answer_event :: "admin_request \<Rightarrow> cause + reply_body \<Rightarrow> audit_event option" where
  "answer_event ListTenants (Inl c) = Some (AuditTenants (Inl c))"
| "answer_event ListTenants (Inr (TenantsBody ts)) = Some (AuditTenants (Inr ts))"
| "answer_event (ListAudit t k) (Inl c) = Some (AuditEntries (Inl c))"
| "answer_event (ListAudit t k) (Inr (AuditBody es)) = Some (AuditEntries (Inr es))"
| "answer_event req r = None"

record audit_world =
  aw_page :: audit_page
  aw_pending :: "admin_request list"
  aw_server :: server

text \<open>
  One step: a key is typed, the oldest request in flight is answered, or the server serves somebody else.
\<close>

inductive audit_next :: "server_config \<Rightarrow> js_string \<Rightarrow> audit_world \<Rightarrow> audit_world \<Rightarrow> bool" for cfg token where
  Typed: "audit_step (AuditFilter x) (aw_page w) = (s, asked) \<Longrightarrow>
    audit_next cfg token w (w\<lparr>aw_page := s, aw_pending := aw_pending w @ asked\<rparr>)"
| Answer: "aw_pending w = req # rest \<Longrightarrow>
    console_request net cfg token now req (aw_server w) = (outcome, srv') \<Longrightarrow>
    answer_event req outcome = Some ev \<Longrightarrow> audit_step ev (aw_page w) = (s, asked) \<Longrightarrow>
    audit_next cfg token w \<lparr>aw_page = s, aw_pending = rest @ asked, aw_server = srv'\<rparr>"
| Elsewhere: "handle cfg (now, r) (aw_server w) = (reply, srv') \<Longrightarrow>
    audit_next cfg token w (w\<lparr>aw_server := srv'\<rparr>)"

text \<open>The page as it is mounted: it asks for the tenants.\<close>

definition mounted :: "server \<Rightarrow> audit_world" where
  "mounted srv = \<lparr>aw_page = new_audit_page, aw_pending = [ListTenants], aw_server = srv\<rparr>"

definition matches_page :: "audit_page \<Rightarrow> audit_row \<Rightarrow> bool" where
  "matches_page s a \<longleftrightarrow> (al_filter s \<noteq> [] \<longrightarrow> a_resource_key a = al_filter s)"

definition owned_entries :: "audit_page \<Rightarrow> bool" where
  "owned_entries s \<longleftrightarrow> (\<forall>a \<in> set (al_entries s). \<exists>t. al_tenant s = Some t \<and> a_tenant a = t_id t)"

definition newest_first :: "audit_row list \<Rightarrow> bool" where
  "newest_first as \<longleftrightarrow> sorted_wrt (\<lambda>a b. a_created_at b \<le> a_created_at a) as"

text \<open>
  The invariant: the requests in flight are those of the tenant, the last of them with the filter that is
  typed; and when none is in flight, what is shown matches the filter, or an error is shown.
\<close>

definition pending_ok :: "audit_page \<Rightarrow> admin_request list \<Rightarrow> bool" where
  "pending_ok s reqs \<longleftrightarrow>
     (case al_tenant s of
        None \<Rightarrow> reqs \<in> {[], [ListTenants]}
      | Some t \<Rightarrow> (\<forall>r \<in> set reqs. \<exists>x. r = audit_request t x)
          \<and> (reqs = [] \<or> last reqs = audit_request t (al_filter s)))"

definition audit_inv :: "audit_world \<Rightarrow> bool" where
  "audit_inv w \<longleftrightarrow> owned_entries (aw_page w) \<and> pending_ok (aw_page w) (aw_pending w)
     \<and> newest_first (al_entries (aw_page w)) \<and> length (al_entries (aw_page w)) \<le> 50
     \<and> (aw_pending w = [] \<longrightarrow> al_error (aw_page w) = None \<longrightarrow>
          (\<forall>a \<in> set (al_entries (aw_page w)). matches_page (aw_page w) a))"

lemma order_by_created:
  "sorted_wrt (\<lambda>a b. a_created_at b \<le> a_created_at a) (order_by (\<lambda>s t. t \<le> s) a_created_at as)"
  by (rule order_by_sorted) auto

lemma listAudit_rows:
  "newest_first (listAudit db tenant k None) \<and> length (listAudit db tenant k None) \<le> 50
    \<and> (\<forall>a \<in> set (listAudit db tenant k None). a_tenant a = tenant \<and> (case k of None \<Rightarrow> True | Some x \<Rightarrow> a_resource_key a = x))"
  using set_take_subset by (fastforce simp: listAudit_def newest_first_def order_by_created sorted_wrt_take set_order_by Let_def)

text \<open>What the server answers to the two requests of the page.\<close>

lemma audit_answer:
  assumes "console_request net cfg token now (audit_request t x) srv = (outcome, srv')"
    and "answer_event (audit_request t x) outcome = Some ev"
  shows "(\<exists>c. ev = AuditEntries (Inl c)) \<or>
    (\<exists>es. ev = AuditEntries (Inr es) \<and> newest_first es \<and> length es \<le> 50
      \<and> (\<forall>a \<in> set es. a_tenant a = t_id t \<and> (x \<noteq> [] \<longrightarrow> a_resource_key a = x)))"
proof (cases outcome)
  case (Inl c)
  with assms(2) show ?thesis by (auto simp: audit_request_def)
next
  case (Inr body)
  with assms(2) obtain es where es: "body = AuditBody es" "ev = AuditEntries (Inr es)"
    by (cases body) (auto simp: audit_request_def)
  have "fst (console_request net cfg token now (audit_request t x) srv) = Inr body" using assms(1) Inr by simp
  from console_success [OF this]
  have "body = reply_body (fst (handle cfg (now, AdminRequest (Some (bearer @ token)) (audit_request t x)) srv))"
    "ok_code (code (fst (handle cfg (now, AdminRequest (Some (bearer @ token)) (audit_request t x)) srv)))"
    by blast+
  then have "es = listAudit (sv_db srv) (t_id t) (if x = [] then None else Some x) None"
    by (auto simp: es(1) audit_request_def admin_route_def reply_with_def ok_code_def bad_request_def missing_def required_def
      split: if_splits)
  with listAudit_rows [of "sv_db srv" "t_id t" "if x = [] then None else Some x"] es(2) show ?thesis
    by (cases "x = []") auto
qed

lemma audit_inv_typed:
  assumes "audit_inv w" "audit_step (AuditFilter x) (aw_page w) = (s, asked)"
  shows "audit_inv (w\<lparr>aw_page := s, aw_pending := aw_pending w @ asked\<rparr>)"
  using assms
  by (auto simp: audit_inv_def audit_step_def audit_effect_def pending_ok_def owned_entries_def matches_page_def
    split: option.splits if_splits)

lemma audit_entries_step: "audit_step (AuditEntries r) p = (audit_handler (AuditEntries r) p, [])"
  by (cases r) (simp_all add: audit_step_def audit_effect_def split: option.split)

lemma audit_inv_answer:
  assumes inv: "audit_inv w" and pending: "aw_pending w = req # rest"
    and outcome: "console_request net cfg token now req (aw_server w) = (outcome, srv')"
    and ev: "answer_event req outcome = Some ev" and step: "audit_step ev (aw_page w) = (s, asked)"
  shows "audit_inv \<lparr>aw_page = s, aw_pending = rest @ asked, aw_server = srv'\<rparr>"
proof (cases "al_tenant (aw_page w)")
  case None
  with inv pending have req: "req = ListTenants" "rest = []" "al_entries (aw_page w) = []"
    by (auto simp: audit_inv_def pending_ok_def owned_entries_def)
  then obtain r where "ev = AuditTenants r" using ev by (cases outcome; cases "projr outcome") auto
  with step None req inv show ?thesis
    by (cases r) (auto simp: audit_inv_def audit_step_def audit_effect_def pending_ok_def owned_entries_def newest_first_def
      split: option.splits if_splits)
next
  case (Some t)
  with inv pending have "\<exists>x. req = audit_request t x"
    and current: "rest = [] \<Longrightarrow> req = audit_request t (al_filter (aw_page w))"
    by (simp_all add: audit_inv_def pending_ok_def)
  then obtain x where x: "req = audit_request t x" by blast
  have same: "rest = [] \<Longrightarrow> x = al_filter (aw_page w)"
    using x current by (auto simp: audit_request_def split: if_splits)
  have pend: "pending_ok (aw_page w) rest"
    using inv pending Some by (auto simp: audit_inv_def pending_ok_def split: if_splits)
  from audit_answer [OF outcome [unfolded x] ev [unfolded x]] show ?thesis
  proof (elim disjE exE conjE)
    fix c assume e: "ev = AuditEntries (Inl c)"
    with step have "s = (aw_page w)\<lparr>al_error := Some (describe_audit c), al_loading := False\<rparr>" "asked = []"
      by (simp_all add: audit_entries_step)
    with pend inv Some show ?thesis by (simp add: audit_inv_def pending_ok_def owned_entries_def matches_page_def)
  next
    fix es assume e: "ev = AuditEntries (Inr es)" "newest_first es" "length es \<le> 50"
      and rows: "\<forall>a \<in> set es. a_tenant a = t_id t \<and> (x \<noteq> [] \<longrightarrow> a_resource_key a = x)"
    from step e(1) have "s = (aw_page w)\<lparr>al_entries := es, al_loading := False\<rparr>" "asked = []"
      by (simp_all add: audit_entries_step)
    with pend e(2,3) rows same Some show ?thesis
      by (simp add: audit_inv_def pending_ok_def owned_entries_def matches_page_def)
  qed
qed

lemma audit_inv_reachable:
  assumes "(audit_next cfg token)\<^sup>*\<^sup>* (mounted srv) w"
  shows "audit_inv w"
  using assms
proof (induction rule: rtranclp_induct)
  case base
  show ?case by (simp add: audit_inv_def mounted_def new_audit_page_def owned_entries_def pending_ok_def newest_first_def)
next
  case (step w w')
  from step(2) show ?case
  proof (cases rule: audit_next.cases)
    case (Typed x s asked)
    with audit_inv_typed [OF step(3)] show ?thesis by simp
  next
    case (Answer req rest net now outcome srv' ev s asked)
    with audit_inv_answer [OF step(3)] show ?thesis by simp
  next
    case Elsewhere
    with step(3) show ?thesis by (simp add: audit_inv_def)
  qed
qed

text \<open>
  C39: as long as answers come in the order of their requests, and whatever is typed, lost, refused or
  changed elsewhere in between, the audit page only shows entries of its tenant, the newest first and at
  most fifty; and when nothing is in flight and no request of the page has failed since it was mounted (an
  error is shown from then on, for the page never clears it), the entries are those of the resource
  that is typed. The witness types a key while the first entries are still on their way.
\<close>

theorem audit_page_shows_its_filter:
  assumes "(audit_next cfg token)\<^sup>*\<^sup>* (mounted srv) w"
  shows "owned_entries (aw_page w) \<and> newest_first (al_entries (aw_page w)) \<and> length (al_entries (aw_page w)) \<le> 50
    \<and> (aw_pending w = [] \<longrightarrow> al_error (aw_page w) = None \<longrightarrow>
        (\<forall>a \<in> set (al_entries (aw_page w)). matches_page (aw_page w) a))"
  using audit_inv_reachable [OF assms] by (simp add: audit_inv_def)

definition audit_entry_of :: "js_string \<Rightarrow> int \<Rightarrow> audit_row" where
  "audit_entry_of key n = \<lparr>a_tenant = lit ''t1'', a_environment = None, a_actor_id = lit ''admin'', a_actor_email = lit ''admin'',
     a_action = lit ''create'', a_resource_type = lit ''flag'', a_resource_key = key, a_previous = JNull, a_new = JNull,
     a_created_at = n\<rparr>"

definition audited_server :: server where
  "audited_server = example_server\<lparr>sv_db := example_db\<lparr>db_audit := [audit_entry_of (lit ''checkout'') 1, audit_entry_of (lit ''beta'') 2]\<rparr>\<rparr>"

definition first_tenant :: tenant_row where
  "first_tenant = \<lparr>t_id = lit ''t1'', t_slug = lit ''acme'', t_name = lit ''Acme''\<rparr>"

lemma audited_server_answers:
  "\<exists>ts. console_request Delivered example_config (lit ''secret'') 0 ListTenants audited_server
     = (Inr (TenantsBody (first_tenant # ts)), audited_server)"
  "console_request Delivered example_config (lit ''secret'') 0 (audit_request first_tenant x) audited_server
     = (Inr (AuditBody (listAudit (sv_db audited_server) (lit ''t1'') (if x = [] then None else Some x) None)), audited_server)"
proof -
  have token: "requireAdmin example_config (Some (bearer @ lit ''secret''))" "lit ''secret'' \<noteq> []" "lit ''t1'' \<noteq> []"
    by (simp_all add: requireAdmin_def example_config_def lit_def)
  have "listTenants by_text (sv_db audited_server) = [first_tenant, \<lparr>t_id = lit ''t2'', t_slug = lit ''other'', t_name = lit ''Other''\<rparr>]"
    by code_simp
  then show "\<exists>ts. console_request Delivered example_config (lit ''secret'') 0 ListTenants audited_server
     = (Inr (TenantsBody (first_tenant # ts)), audited_server)"
    using token by (simp add: console_request_delivered admin_route_def received_def ok_code_def reply_with_def example_config_def)
  show "console_request Delivered example_config (lit ''secret'') 0 (audit_request first_tenant x) audited_server
     = (Inr (AuditBody (listAudit (sv_db audited_server) (lit ''t1'') (if x = [] then None else Some x) None)), audited_server)"
    using token by (simp add: console_request_delivered admin_route_def received_def ok_code_def reply_with_def
      audit_request_def missing_def required_def first_tenant_def)
qed

theorem audit_page_shows_its_filter_witness:
  "\<exists>w. (audit_next example_config (lit ''secret''))\<^sup>*\<^sup>* (mounted audited_server) w
     \<and> aw_pending w = [] \<and> al_filter (aw_page w) = lit ''checkout'' \<and> al_entries (aw_page w) \<noteq> []
     \<and> (\<forall>a \<in> set (al_entries (aw_page w)). a_resource_key a = lit ''checkout'')"
proof -
  let ?next = "audit_next example_config (lit ''secret'')"
  let ?all = "listAudit (sv_db audited_server) (lit ''t1'') None None"
  let ?own = "listAudit (sv_db audited_server) (lit ''t1'') (Some (lit ''checkout'')) None"
  let ?page = "\<lambda>es x l. \<lparr>al_tenant = Some first_tenant, al_entries = es, al_filter = x, al_error = None, al_loading = l\<rparr>"
  let ?world = "\<lambda>p reqs. \<lparr>aw_page = p, aw_pending = reqs, aw_server = audited_server\<rparr>"
  let ?ask = "audit_request first_tenant"
  have key: "lit ''checkout'' \<noteq> []" by (simp add: lit_def)
  obtain ts where ts: "console_request Delivered example_config (lit ''secret'') 0 ListTenants audited_server
     = (Inr (TenantsBody (first_tenant # ts)), audited_server)"
    using audited_server_answers(1) by blast
  have start: "mounted audited_server = ?world new_audit_page [ListTenants]" by (simp add: mounted_def)
  have one: "?next (mounted audited_server) (?world (?page [] [] True) ([] @ [?ask []]))"
    unfolding start
    by (rule Answer [where net = Delivered and now = 0 and req = ListTenants and rest = "[]"
        and outcome = "Inr (TenantsBody (first_tenant # ts))" and ev = "AuditTenants (Inr (first_tenant # ts))"])
      (simp_all add: ts new_audit_page_def audit_step_def audit_effect_def first_item_def)
  have "audit_step (AuditFilter (lit ''checkout'')) (?page [] [] True) = (?page [] (lit ''checkout'') True, [?ask (lit ''checkout'')])"
    using key key [symmetric] by (simp add: audit_step_def audit_effect_def)
  then have two: "?next (?world (?page [] [] True) ([] @ [?ask []]))
      (?world (?page [] (lit ''checkout'') True) ([?ask []] @ [?ask (lit ''checkout'')]))"
    using Typed [of "lit ''checkout''" "?world (?page [] [] True) [?ask []]"] by simp
  have ev: "answer_event (?ask x) (Inr (AuditBody es)) = Some (AuditEntries (Inr es))" for x es
    by (simp add: audit_request_def)
  have three: "?next (?world (?page [] (lit ''checkout'') True) ([?ask []] @ [?ask (lit ''checkout'')]))
      (?world (?page ?all (lit ''checkout'') False) ([?ask (lit ''checkout'')] @ []))"
    by (rule Answer [where net = Delivered and now = 0 and req = "?ask []" and rest = "[?ask (lit ''checkout'')]"
        and outcome = "Inr (AuditBody ?all)" and ev = "AuditEntries (Inr ?all)"])
      (simp_all add: audited_server_answers(2) ev audit_entries_step key)
  have four: "?next (?world (?page ?all (lit ''checkout'') False) ([?ask (lit ''checkout'')] @ []))
      (?world (?page ?own (lit ''checkout'') False) ([] @ []))"
    by (rule Answer [where net = Delivered and now = 0 and req = "?ask (lit ''checkout'')" and rest = "[]"
        and outcome = "Inr (AuditBody ?own)" and ev = "AuditEntries (Inr ?own)"])
      (simp_all add: audited_server_answers(2) ev audit_entries_step key)
  let ?w = "?world (?page ?own (lit ''checkout'') False) ([] @ [])"
  have reach: "?next\<^sup>*\<^sup>* (mounted audited_server) ?w"
    using one two three four by (meson rtranclp.rtrancl_into_rtrancl rtranclp.rtrancl_refl)
  have "?own \<noteq> []" by code_simp
  with audit_page_shows_its_filter [OF reach] key show ?thesis
    by (intro exI [of _ ?w] conjI reach) (simp_all add: matches_page_def)
qed

text \<open>
  Out of order, the answer for a filter typed before replaces that for the current one; and the first of
  two answers ends the loading while the other is in flight.
\<close>

lemma late_answer_is_shown:
  assumes "al_tenant p = Some t"
  shows "al_filter (audit_run [AuditFilter x, AuditFilter y, AuditEntries (Inr ys), AuditEntries (Inr xs)] p) = y"
    and "al_entries (audit_run [AuditFilter x, AuditFilter y, AuditEntries (Inr ys), AuditEntries (Inr xs)] p) = xs"
    and "\<not> al_loading (audit_run [AuditFilter x, AuditFilter y, AuditEntries (Inr xs)] p)"
  using assms by (simp_all add: audit_run_def audit_step_def audit_effect_def)

text \<open>Without a tenant the page loads for ever, also when an error is shown.\<close>

lemma loading_never_ends:
  assumes "first = AuditTenants (Inr []) \<or> first = AuditTenants (Inl c)"
  shows "al_loading (audit_run (first # map AuditFilter xs) new_audit_page)
    \<and> snd (audit_step (AuditFilter x) (audit_run (first # map AuditFilter xs) new_audit_page)) = []"
proof -
  have "al_tenant (audit_run (map AuditFilter xs) p) = None \<and> al_loading (audit_run (map AuditFilter xs) p)"
    if "al_tenant p = None" "al_loading p" for p
    using that by (induction xs arbitrary: p) (simp_all add: audit_run_def audit_step_def audit_effect_def)
  moreover have "al_tenant (fst (audit_step first new_audit_page)) = None" "al_loading (fst (audit_step first new_audit_page))"
    using assms by (auto simp: audit_step_def audit_effect_def new_audit_page_def first_item_def)
  ultimately show ?thesis
    by (simp add: audit_run_def audit_step_def [of "AuditFilter x"] audit_effect_def)
qed

end
