(* ===== verification/Conformance.thy ===== *)
theory Conformance
  imports Bucketing Json Js_Math
begin

text \<open>
  The two scripts that tie every SDK to one hash: \<open>packages/core/scripts/generate-fixture.ts\<close>, which
  writes the cases, and \<open>packages/sdk-js/scripts/conformance.ts\<close>, which checks them. The file between
  them is what its JSON text is parsed to, the fixture itself.
\<close>

section \<open>The fixture\<close>

record conformance_case =
  cc_flagKey :: js_string
  cc_salt :: js_string
  cc_bucketKey :: js_string
  cc_input :: js_string
  cc_hash :: js_number
  cc_expectedBucket :: js_number

record conformance_fixture =
  fx_version :: js_number
  fx_bucketSpace :: js_number
  fx_cases :: "conformance_case list option"

definition hash_number :: "js_string \<Rightarrow> js_number" where
  "hash_number s = Fin (of_int (uint (fst (murmurHash3x86_32String initial_scratch s 0))))"

definition bucket_number :: "js_string \<Rightarrow> js_string \<Rightarrow> js_string \<Rightarrow> js_number" where
  "bucket_number flagKey salt' bucketKey = Fin (of_int (bucketFor flagKey salt' bucketKey))"

section \<open>The generator of the fixture\<close>

text \<open>The random numbers: a linear congruence, and the choice of an item, \<open>undefined\<close> past the end.\<close>

definition lcg_next :: "32 word \<Rightarrow> 32 word" where
  "lcg_next state = state * 1664525 + 1013904223"

definition lcg_draw :: "32 word \<Rightarrow> js_number \<times> 32 word" where
  "lcg_draw state = (number_of_nat (unat (lcg_next state)) / Fin 4294967296, lcg_next state)"

fun item_at :: "'a list \<Rightarrow> js_number \<Rightarrow> 'a option" where
  "item_at xs (Fin q) = (if 0 \<le> q \<and> of_int \<lfloor>q\<rfloor> = q \<and> nat \<lfloor>q\<rfloor> < length xs then Some (xs ! nat \<lfloor>q\<rfloor>) else None)"
| "item_at xs i = None"

definition pick :: "'a list \<Rightarrow> 32 word \<Rightarrow> 'a option \<times> 32 word" where
  "pick items state = (let (r, state') = lcg_draw state in
     (item_at items (math_floor (r * number_of_nat (length items))), state'))"

definition FLAG_KEYS :: "js_string list" where
  "FLAG_KEYS = [lit ''checkout-redesign'', lit ''new-search'', lit ''a'', lit ''flag.with.dots'',
     lit ''flag_with_underscores'', lit ''flag-with-a-very-long-key-name-that-exceeds-a-single-hash-block'']"

definition SALTS :: "js_string list" where
  "SALTS = [lit ''salt-a'', lit ''salt-b'', lit ''0'', lit ''f47ac10b-58cc-4372-a567-0e02b2c3d479'']"

definition EDGE_KEYS :: "js_string list" where
  "EDGE_KEYS =
     [[], lit ''a'', lit ''ab'', lit ''abc'', lit ''abcd'', lit ''abcde'', [0xE9],
      0xFC # lit ''n'' @ 0xEF # lit ''c'' @ 0xF6 # lit ''d'' @ 0xE9 # lit ''-user'',
      [0x30E6, 0x30FC, 0x30B6, 0x30FC], [0x7528, 0x6237] @ lit ''-42'',
      lit ''user-'' @ [0xD83C, 0xDF89], [0xD83C, 0xDF89, 0xD83C, 0xDF89, 0xD83C, 0xDF89],
      replicate 64 0x3A9, replicate 255 0x78, lit ''0'', lit ''00000000-0000-0000-0000-000000000000'']"

record generator =
  ge_state :: "32 word"
  ge_cases :: "conformance_case list"
  ge_seen :: "js_string list"
  ge_n :: nat

definition case_of :: "js_string \<Rightarrow> js_string \<Rightarrow> js_string \<Rightarrow> conformance_case" where
  "case_of flagKey salt' bucketKey =
     (let input = bucketingInput flagKey salt' bucketKey in
      \<lparr>cc_flagKey = flagKey, cc_salt = salt', cc_bucketKey = bucketKey, cc_input = input,
       cc_hash = hash_number input, cc_expectedBucket = bucket_number flagKey salt' bucketKey\<rparr>)"

definition addCase :: "js_string \<Rightarrow> js_string \<Rightarrow> js_string \<Rightarrow> generator \<Rightarrow> generator" where
  "addCase flagKey salt' bucketKey g =
     (let input = bucketingInput flagKey salt' bucketKey in
      if input \<in> set (ge_seen g) then g
      else g\<lparr>ge_seen := set_add input (ge_seen g), ge_cases := ge_cases g @ [case_of flagKey salt' bucketKey]\<rparr>)"

definition edge_triples :: "(js_string \<times> js_string \<times> js_string) list" where
  "edge_triples = List.product FLAG_KEYS (List.product SALTS EDGE_KEYS)"

definition add_edge_cases :: "generator \<Rightarrow> generator" where
  "add_edge_cases g = fold (\<lambda>(f, s, k). addCase f s k) edge_triples g"

definition TARGET :: nat where "TARGET = 500"

definition picked_text :: "js_string option \<Rightarrow> js_string" where
  "picked_text p = (case p of None \<Rightarrow> lit ''undefined'' | Some s \<Rightarrow> s)"

definition fill_step :: "generator \<Rightarrow> generator" where
  "fill_step g =
     (let (flagKey, s1) = pick FLAG_KEYS (ge_state g);
          (salt', s2) = pick SALTS s1;
          g' = addCase (picked_text flagKey) (picked_text salt') (lit ''user-'' @ show_nat (ge_n g)) (g\<lparr>ge_state := s2\<rparr>)
      in g'\<lparr>ge_n := ge_n g' + 1\<rparr>)"

partial_function (option) fill :: "generator \<Rightarrow> generator option" where
  "fill g = (if length (ge_cases g) < TARGET then fill (fill_step g) else Some g)"

definition initial_generator :: generator where
  "initial_generator = \<lparr>ge_state = 0x5EED, ge_cases = [], ge_seen = [], ge_n = 0\<rparr>"

definition generated_fixture :: "conformance_fixture option" where
  "generated_fixture = map_option
     (\<lambda>g. \<lparr>fx_version = Fin 1, fx_bucketSpace = Fin 100000, fx_cases = Some (ge_cases g)\<rparr>)
     (fill (add_edge_cases initial_generator))"

section \<open>The conformance check\<close>

definition check_case :: "conformance_case \<Rightarrow> js_string option" where
  "check_case c =
     (let input = bucketingInput (cc_flagKey c) (cc_salt c) (cc_bucketKey c);
          hash = hash_number (cc_input c);
          bucket = bucket_number (cc_flagKey c) (cc_salt c) (cc_bucketKey c) in
      if input \<noteq> cc_input c
      then Some (lit ''input: got '' @ json_string input @ lit '', want '' @ json_string (cc_input c))
      else if \<not> num_eq hash (cc_hash c)
      then Some (lit ''hash for '' @ json_string input @ lit '': got '' @ number_to_string hash
             @ lit '', want '' @ number_to_string (cc_hash c))
      else if \<not> num_eq bucket (cc_expectedBucket c)
      then Some (lit ''bucket for '' @ json_string input @ lit '': got '' @ number_to_string bucket
             @ lit '', want '' @ number_to_string (cc_expectedBucket c))
      else None)"

text \<open>The exit code and the lines of the output.\<close>

definition conformance :: "conformance_fixture \<Rightarrow> nat \<times> js_string list" where
  "conformance fixture =
     (case fx_cases fixture of
        None \<Rightarrow> (1, [lit ''Fixture contains no cases. Regenerate with `npm run fixture:generate`.''])
      | Some cases \<Rightarrow>
          if cases = [] then (1, [lit ''Fixture contains no cases. Regenerate with `npm run fixture:generate`.''])
          else if \<not> num_eq (fx_bucketSpace fixture) (Fin (of_int BUCKET_SPACE))
          then (1, [lit ''Bucket space mismatch: fixture='' @ number_to_string (fx_bucketSpace fixture)
                      @ lit '' sdk='' @ number_to_string (Fin (of_int BUCKET_SPACE))])
          else
            let failures = List.map_filter check_case cases in
            if failures \<noteq> []
            then (1, [lit ''Conformance FAILED: '' @ show_nat (length failures) @ lit '' of ''
                        @ show_nat (length cases) @ lit '' cases'' @ [0xA]]
                     @ map (\<lambda>f. lit ''  '' @ f) (take 20 failures)
                     @ (if 20 < length failures then [lit ''  ... and '' @ show_nat (length failures - 20) @ lit '' more''] else []))
            else (0, [lit ''Conformance OK: '' @ show_nat (length cases) @ lit '' cases verified against @flagship/core'']))"

section \<open>Choices are in range\<close>

lemma lcg_draw_range: "\<exists>q. fst (lcg_draw s) = Fin q \<and> q = of_nat (unat (lcg_next s)) / 2 ^ 32"
proof -
  define n where "n = unat (lcg_next s)"
  have n: "n < 2 ^ 32" unfolding n_def by (rule order_less_le_trans [OF unsigned_less]) simp
  have "round_double (of_int (int n) * 2 powi (- 32)) = Fin (of_int (int n) * 2 powi (- 32))"
    using n by (intro round_double_dyadic) auto
  then have "number_of_nat n / Fin 4294967296 = Fin (of_nat n / 2 ^ 32)"
    using n by (simp add: divide_js_number_def power_int_minus_divide)
  then show ?thesis by (intro exI [of _ "of_nat n / 2 ^ 32"]) (simp add: lcg_draw_def n_def [symmetric])
qed

lemma pick_in_range:
  assumes "items \<noteq> []" "length items \<le> 2 ^ 16"
  obtains x where "fst (pick items s) = Some x" "x \<in> set items"
proof -
  define n where "n = unat (lcg_next s)"
  define k where "k = length items"
  have n: "n < 2 ^ 32" unfolding n_def by (rule order_less_le_trans [OF unsigned_less]) simp
  have k: "0 < k" "k \<le> 2 ^ 16" using assms by (simp_all add: k_def)
  have "n * k < 2 ^ 32 * 2 ^ 16" using n k by (intro mult_less_le_imp_less) simp_all
  then have "n * k < 2 ^ 53" by simp
  then have "int (n * k) < int (2 ^ 53)" by (simp only: of_nat_less_iff)
  then have nk: "int (n * k) < 2 ^ 53" by (simp only: of_nat_power of_nat_numeral)
  have "round_double (of_int (int (n * k)) * 2 powi (- 32)) = Fin (of_int (int (n * k)) * 2 powi (- 32))"
    using nk by (intro round_double_dyadic) simp_all
  then have prod: "Fin (of_nat n / 4294967296) * number_of_nat k = Fin (of_nat (n * k) / 4294967296)"
    using k by (simp add: times_js_number_def power_int_minus_divide)
  have floor: "\<lfloor>(of_nat (n * k) :: rat) / 4294967296\<rfloor> = int (n * k div 4294967296)"
    using floor_divide_of_nat_eq [of "n * k" 4294967296, where 'a = rat] by simp
  have "n * k < 2 ^ 32 * k" using n k(1) by simp
  then have less: "n * k div 4294967296 < k" by (simp add: div_less_iff_less_mult mult.commute)
  obtain s' where "lcg_draw s = (Fin (of_nat n / 4294967296), s')"
    using lcg_draw_range [of s] by (cases "lcg_draw s") (auto simp: n_def)
  then have "fst (pick items s) = Some (items ! (n * k div 4294967296))"
    using less by (simp add: pick_def k_def [symmetric] prod floor del: of_nat_mult)
  with less that show ?thesis by (simp add: k_def)
qed

section \<open>The invariant of the generator\<close>

lemma no_colon: "f \<in> set FLAG_KEYS \<union> set SALTS \<Longrightarrow> of_char CHR '':'' \<notin> set f"
  by (auto simp: FLAG_KEYS_def SALTS_def lit_def)

lemma input_unambiguous:
  assumes "bucketingInput f s k = bucketingInput f' s' k'"
    and "f \<in> set FLAG_KEYS" "f' \<in> set FLAG_KEYS" "s \<in> set SALTS" "s' \<in> set SALTS"
  shows "f = f' \<and> s = s' \<and> k = k'"
  using assms no_colon by (intro bucketing_input_unambiguous) blast+

definition user_key :: "nat \<Rightarrow> js_string" where
  "user_key i = lit ''user-'' @ show_nat i"

definition known_case :: "nat \<Rightarrow> conformance_case \<Rightarrow> bool" where
  "known_case n c \<longleftrightarrow> (\<exists>f \<in> set FLAG_KEYS. \<exists>s \<in> set SALTS. \<exists>k \<in> set EDGE_KEYS \<union> user_key ` {..<n}. c = case_of f s k)"

lemma known_caseE:
  assumes "known_case n c"
  obtains f s k where "f \<in> set FLAG_KEYS" "s \<in> set SALTS" "k \<in> set EDGE_KEYS \<union> user_key ` {..<n}" "c = case_of f s k"
  using assms unfolding known_case_def by blast

definition gen_ok :: "generator \<Rightarrow> bool" where
  "gen_ok g \<longleftrightarrow> distinct (map cc_input (ge_cases g)) \<and> set (ge_seen g) = cc_input ` set (ge_cases g)
     \<and> (\<forall>c \<in> set (ge_cases g). known_case (ge_n g) c)"

lemma cc_input_case_of [simp]: "cc_input (case_of f s k) = bucketingInput f s k"
  by (simp add: case_of_def Let_def)

lemma addCase_ok:
  assumes "gen_ok g" "known_case (ge_n g) (case_of f s k)"
  shows "gen_ok (addCase f s k g)"
  using assms by (auto simp: gen_ok_def addCase_def Let_def)

lemma addCase_parts:
  "ge_n (addCase f s k g) = ge_n g"
  "length (ge_cases (addCase f s k g)) = length (ge_cases g) + (if bucketingInput f s k \<in> set (ge_seen g) then 0 else 1)"
  "set (ge_cases g) \<subseteq> set (ge_cases (addCase f s k g))"
  by (auto simp: addCase_def Let_def)

lemma addCase_present:
  assumes "gen_ok g" "f \<in> set FLAG_KEYS" "s \<in> set SALTS"
  shows "case_of f s k \<in> set (ge_cases (addCase f s k g))"
proof (cases "bucketingInput f s k \<in> set (ge_seen g)")
  case True
  with assms(1) obtain c where c: "c \<in> set (ge_cases g)" "cc_input c = bucketingInput f s k" "known_case (ge_n g) c"
    by (auto simp: gen_ok_def)
  then obtain f' s' k' where "f' \<in> set FLAG_KEYS" "s' \<in> set SALTS" "c = case_of f' s' k'"
    by (auto simp: known_case_def)
  with c(2) assms(2,3) input_unambiguous [of f' s' k' f s k] have "c = case_of f s k" by simp
  with c(1) True show ?thesis by (simp add: addCase_def)
qed (simp add: addCase_def Let_def)

lemma known_edge: "f \<in> set FLAG_KEYS \<Longrightarrow> s \<in> set SALTS \<Longrightarrow> k \<in> set EDGE_KEYS \<Longrightarrow> known_case n (case_of f s k)"
  unfolding known_case_def by blast

lemma known_case_mono: "known_case m c \<Longrightarrow> m \<le> n \<Longrightarrow> known_case n c"
  unfolding known_case_def by (elim bexE, intro bexI) (auto intro: order_less_le_trans)

lemma known_user:
  assumes "f \<in> set FLAG_KEYS" "s \<in> set SALTS" "i < n"
  shows "known_case n (case_of f s (user_key i))"
proof -
  have "user_key i \<in> set EDGE_KEYS \<union> user_key ` {..<n}" using assms(3) by simp
  with assms show ?thesis unfolding known_case_def by blast
qed

lemma add_edges:
  assumes "gen_ok g" "set ts \<subseteq> set edge_triples"
  defines "g' \<equiv> fold (\<lambda>(f, s, k). addCase f s k) ts g"
  shows "gen_ok g' \<and> ge_n g' = ge_n g \<and> length (ge_cases g') \<le> length (ge_cases g) + length ts
    \<and> set (ge_cases g) \<subseteq> set (ge_cases g') \<and> (\<forall>(f, s, k) \<in> set ts. case_of f s k \<in> set (ge_cases g'))"
  unfolding g'_def using assms(1,2)
proof (induction ts arbitrary: g)
  case (Cons t ts)
  obtain f s k where t: "t = (f, s, k)" by (cases t)
  with Cons.prems(2) have mem: "f \<in> set FLAG_KEYS" "s \<in> set SALTS" "k \<in> set EDGE_KEYS"
    by (auto simp: edge_triples_def)
  have ok: "gen_ok (addCase f s k g)" by (rule addCase_ok [OF Cons.prems(1) known_edge [OF mem]])
  have rest: "set ts \<subseteq> set edge_triples" using Cons.prems(2) by simp
  note IH = Cons.IH [OF ok rest]
  have "case_of f s k \<in> set (ge_cases (addCase f s k g))" by (rule addCase_present [OF Cons.prems(1) mem(1,2)])
  with IH addCase_parts [where f = f and s = s and k = k and g = g] show ?case by (auto simp: t split: if_splits)
qed simp

lemma length_edge_triples: "length edge_triples = 384"
  by (simp add: edge_triples_def FLAG_KEYS_def SALTS_def EDGE_KEYS_def)

lemma edges_added:
  defines "g \<equiv> add_edge_cases initial_generator"
  shows "gen_ok g \<and> ge_n g = 0 \<and> length (ge_cases g) \<le> 384
    \<and> (\<forall>f \<in> set FLAG_KEYS. \<forall>s \<in> set SALTS. \<forall>k \<in> set EDGE_KEYS. case_of f s k \<in> set (ge_cases g))"
proof -
  have i: "gen_ok initial_generator" "ge_n initial_generator = 0" "ge_cases initial_generator = []"
    by (simp_all add: gen_ok_def initial_generator_def)
  have "(f, s, k) \<in> set edge_triples" if "f \<in> set FLAG_KEYS" "s \<in> set SALTS" "k \<in> set EDGE_KEYS" for f s k
    using that by (simp add: edge_triples_def)
  with add_edges [OF i(1) subset_refl] i(2,3) show ?thesis
    unfolding g_def add_edge_cases_def length_edge_triples by fastforce
qed

section \<open>The loop returns\<close>

lemma user_key_inj: "user_key i = user_key j \<Longrightarrow> i = j"
  by (simp add: user_key_def show_nat_inj)

lemma user_key_not_edge: "user_key i \<notin> set EDGE_KEYS"
proof
  assume "user_key i \<in> set EDGE_KEYS"
  then have "show_nat i = [0xD83C, 0xDF89]"
    by (auto simp: EDGE_KEYS_def user_key_def lit_def Cons_eq_append_conv Cons_replicate_eq)
  with show_nat_digits [of i] show False by (simp add: is_digit_def)
qed

text \<open>Each round adds a case: the key \<open>user-n\<close> is new.\<close>

lemma fill_step_adds:
  assumes "gen_ok g"
  shows "gen_ok (fill_step g) \<and> ge_n (fill_step g) = ge_n g + 1
    \<and> length (ge_cases (fill_step g)) = length (ge_cases g) + 1 \<and> set (ge_cases g) \<subseteq> set (ge_cases (fill_step g))"
proof -
  obtain f where f: "fst (pick FLAG_KEYS (ge_state g)) = Some f" "f \<in> set FLAG_KEYS"
    by (rule pick_in_range [of FLAG_KEYS "ge_state g"]) (simp_all add: FLAG_KEYS_def)
  define s1 where "s1 = snd (pick FLAG_KEYS (ge_state g))"
  obtain s where s: "fst (pick SALTS s1) = Some s" "s \<in> set SALTS"
    by (rule pick_in_range [of SALTS s1]) (simp_all add: SALTS_def)
  define s2 where "s2 = snd (pick SALTS s1)"
  define h where "h = addCase f s (user_key (ge_n g)) (g\<lparr>ge_state := s2\<rparr>)"
  have step: "fill_step g = h\<lparr>ge_n := ge_n g + 1\<rparr>"
    using f s by (simp add: fill_step_def h_def s1_def s2_def picked_text_def user_key_def addCase_parts
        case_prod_beta Let_def)
  have new: "bucketingInput f s (user_key (ge_n g)) \<notin> set (ge_seen g)"
  proof
    assume "bucketingInput f s (user_key (ge_n g)) \<in> set (ge_seen g)"
    with assms obtain c where "cc_input c = bucketingInput f s (user_key (ge_n g))" "known_case (ge_n g) c"
      by (auto simp: gen_ok_def)
    moreover from this(2) obtain f' s' k' where k: "k' \<in> set EDGE_KEYS \<union> user_key ` {..<ge_n g}"
        and "f' \<in> set FLAG_KEYS" "s' \<in> set SALTS" "c = case_of f' s' k'"
      by (rule known_caseE)
    ultimately have "k' = user_key (ge_n g)"
      using input_unambiguous [of f' s' k' f s "user_key (ge_n g)"] f s by simp
    with k user_key_not_edge user_key_inj show False by auto
  qed
  have "known_case (ge_n g + 1) (case_of f s (user_key (ge_n g)))"
    using f(2) s(2) by (rule known_user) simp
  moreover have "known_case (ge_n g) c \<Longrightarrow> known_case (ge_n g + 1) c" for c
    using known_case_mono [of "ge_n g" c "ge_n g + 1"] by simp
  ultimately show ?thesis using assms new by (auto simp: step h_def addCase_def gen_ok_def Let_def)
qed

lemma fill_returns:
  assumes "gen_ok g" "length (ge_cases g) \<le> TARGET"
  shows "\<exists>g'. fill g = Some g' \<and> gen_ok g' \<and> length (ge_cases g') = TARGET
    \<and> ge_n g' + length (ge_cases g) = ge_n g + TARGET \<and> set (ge_cases g) \<subseteq> set (ge_cases g')"
  using assms
proof (induction "TARGET - length (ge_cases g)" arbitrary: g)
  case 0
  then show ?case by (subst fill.simps) simp
next
  case (Suc d)
  have step: "gen_ok (fill_step g)" "ge_n (fill_step g) = ge_n g + 1"
      "length (ge_cases (fill_step g)) = length (ge_cases g) + 1" "set (ge_cases g) \<subseteq> set (ge_cases (fill_step g))"
    using fill_step_adds [OF Suc.prems(1)] by simp_all
  have "\<exists>g'. fill (fill_step g) = Some g' \<and> gen_ok g' \<and> length (ge_cases g') = TARGET
    \<and> ge_n g' + length (ge_cases (fill_step g)) = ge_n (fill_step g) + TARGET
    \<and> set (ge_cases (fill_step g)) \<subseteq> set (ge_cases g')"
    using Suc.hyps(2) step by (intro Suc.hyps(1)) simp_all
  moreover have "length (ge_cases g) < TARGET" using Suc.hyps(2) by linarith
  then have "fill g = fill (fill_step g)" by (subst fill.simps) simp
  ultimately show ?case using step(2,3) subset_trans [OF step(4)] by auto
qed

section \<open>The fixture passes, and passing means the reference hash\<close>

lemma length_show_nat: "length (show_nat n) \<le> n + 1"
proof (induction n rule: less_induct)
  case (less n)
  show ?case
  proof (cases "n < 10")
    case False
    then have "length (show_nat n) \<le> n div 10 + 1 + 1" using less [of "n div 10"] by (subst show_nat_rec) simp
    with False show ?thesis by simp
  qed (subst show_nat_rec, simp)
qed

lemma known_input_short:
  assumes "known_case n c" "n \<le> 500"
  shows "length (cc_input c) \<le> 1000"
proof -
  obtain f s k where c: "c = case_of f s k" "f \<in> set FLAG_KEYS" "s \<in> set SALTS"
      and k: "k \<in> set EDGE_KEYS \<union> user_key ` {..<n}"
    using assms(1) known_caseE by metis
  have "length f \<le> 63" "length s \<le> 36" using c(2,3) by (auto simp: FLAG_KEYS_def SALTS_def lit_def)
  moreover have "length k \<le> 600"
    using k
  proof
    assume "k \<in> set EDGE_KEYS"
    then show ?thesis by (auto simp: EDGE_KEYS_def lit_def)
  next
    assume "k \<in> user_key ` {..<n}"
    then obtain i where "k = user_key i" "i < n" by auto
    with length_show_nat [of i] assms(2) show ?thesis by (simp add: user_key_def lit_def)
  qed
  ultimately show ?thesis by (simp add: c(1) bucketingInput_def BUCKET_SEPARATOR_def lit_def)
qed

lemma check_case_None:
  "check_case c = None \<longleftrightarrow> cc_input c = bucketingInput (cc_flagKey c) (cc_salt c) (cc_bucketKey c)
    \<and> num_eq (hash_number (cc_input c)) (cc_hash c)
    \<and> num_eq (bucket_number (cc_flagKey c) (cc_salt c) (cc_bucketKey c)) (cc_expectedBucket c)"
  by (auto simp: check_case_def Let_def)

lemma conformance_accepts:
  "fst (conformance fixture) = 0 \<longleftrightarrow>
    (\<exists>cases. fx_cases fixture = Some cases \<and> cases \<noteq> [] \<and> num_eq (fx_bucketSpace fixture) (Fin 100000)
      \<and> (\<forall>c \<in> set cases. check_case c = None))"
  by (auto simp: conformance_def Let_def BUCKET_SPACE_def map_filter_def filter_empty_conv split: option.splits)

lemma check_case_of: "check_case (case_of f s k) = None"
  by (simp add: check_case_None) (simp add: case_of_def Let_def hash_number_def bucket_number_def)

text \<open>
  C40: the generator of the fixture ends, with 500 cases of different inputs that include every
  combination of its flag keys, salts and edge keys; the conformance check accepts what it wrote; and
  every expected hash in it is MurmurHash3 of the UTF-8 bytes of the input.
\<close>

theorem fixture_conforms:
  "\<exists>fixture cases. generated_fixture = Some fixture \<and> fx_cases fixture = Some cases
    \<and> length cases = 500 \<and> distinct (map cc_input cases)
    \<and> (\<forall>f \<in> set FLAG_KEYS. \<forall>s \<in> set SALTS. \<forall>k \<in> set EDGE_KEYS. case_of f s k \<in> set cases)
    \<and> conformance fixture = (0, [lit ''Conformance OK: '' @ show_nat 500 @ lit '' cases verified against @flagship/core''])
    \<and> (\<forall>c \<in> set cases. cc_hash c = Fin (of_int (uint (murmur3_reference (utf8 (cc_input c)) 0))))"
proof -
  let ?g = "add_edge_cases initial_generator"
  have e: "gen_ok ?g" "ge_n ?g = 0" "length (ge_cases ?g) \<le> TARGET"
      "\<forall>f \<in> set FLAG_KEYS. \<forall>s \<in> set SALTS. \<forall>k \<in> set EDGE_KEYS. case_of f s k \<in> set (ge_cases ?g)"
    using edges_added by (simp_all add: TARGET_def)
  obtain g where g: "fill ?g = Some g" "gen_ok g" "length (ge_cases g) = TARGET" "ge_n g \<le> 500"
      "set (ge_cases ?g) \<subseteq> set (ge_cases g)"
    using fill_returns [OF e(1,3)] e(2) by (auto simp: TARGET_def)
  define fx where "fx = \<lparr>fx_version = Fin 1, fx_bucketSpace = Fin 100000, fx_cases = Some (ge_cases g)\<rparr>"
  have known: "known_case (ge_n g) c" if "c \<in> set (ge_cases g)" for c using g(2) that by (simp add: gen_ok_def)
  have ok: "check_case c = None" if "c \<in> set (ge_cases g)" for c
    using known [OF that] by (auto simp: known_case_def check_case_of)
  have "List.map_filter check_case (ge_cases g) = []"
    using ok by (simp add: map_filter_def filter_empty_conv)
  moreover have "ge_cases g \<noteq> []" using g(3) by (auto simp: TARGET_def)
  ultimately have "conformance fx = (0, [lit ''Conformance OK: '' @ show_nat 500 @ lit '' cases verified against @flagship/core''])"
    using g(3) by (simp add: conformance_def fx_def BUCKET_SPACE_def TARGET_def)
  moreover have "cc_hash c = Fin (of_int (uint (murmur3_reference (utf8 (cc_input c)) 0)))" if "c \<in> set (ge_cases g)" for c
  proof -
    have "3 * length (cc_input c) < 2 ^ 32" using known_input_short [OF known [OF that] g(4)] by simp
    moreover from known [OF that] have "cc_hash c = hash_number (cc_input c)" by (auto simp: known_case_def case_of_def Let_def)
    ultimately show ?thesis by (simp add: hash_number_def string_hash_eq)
  qed
  moreover have "generated_fixture = Some fx" using g(1) by (simp add: generated_fixture_def fx_def)
  moreover have "fx_cases fx = Some (ge_cases g)" "length (ge_cases g) = 500" "distinct (map cc_input (ge_cases g))"
    using g(2,3) by (simp_all add: fx_def TARGET_def gen_ok_def)
  moreover have "\<forall>f \<in> set FLAG_KEYS. \<forall>s \<in> set SALTS. \<forall>k \<in> set EDGE_KEYS. case_of f s k \<in> set (ge_cases g)"
    using e(4) g(5) by blast
  ultimately show ?thesis by blast
qed

theorem fixture_conforms_witness:
  "\<exists>fixture cases. generated_fixture = Some fixture \<and> fx_cases fixture = Some cases
     \<and> fst (conformance fixture) = 0 \<and> case_of (lit ''a'') (lit ''0'') [] \<in> set cases"
proof -
  have "lit ''a'' \<in> set FLAG_KEYS" "lit ''0'' \<in> set SALTS" "[] \<in> set EDGE_KEYS"
    by (simp_all add: FLAG_KEYS_def SALTS_def EDGE_KEYS_def)
  with fixture_conforms show ?thesis by fastforce
qed

end
