(* ===== verification/Stream_Route.thy ===== *)
theory Stream_Route
  imports Stream
begin

text \<open>
  The rest of the console's stream: \<open>app/api/stream/route.ts\<close>, which passes the channel of the data plane
  on, what an \<open>EventSource\<close> makes of its responses, and \<open>StreamIndicator.tsx\<close>. The body of a response is a
  parameter of the type, as the route hands it on unread; the data plane is an argument.
\<close>

section \<open>The route\<close>

record stream_request =
  sr_env :: "js_string option"
  sr_lastEventId :: "js_string option"

text \<open>What is asked of the data plane: the environment and the headers.\<close>

record upstream_request =
  ur_env :: js_string
  ur_headers :: "(js_string \<times> js_string) list"

record 'b upstream =
  up_ok :: bool
  up_body :: "'b option"

datatype 'b stream_body = Passed 'b | StreamError js_string

record 'b stream_reply =
  sp_code :: nat
  sp_headers :: "(js_string \<times> js_string) list"
  sp_body :: "'b stream_body"

definition stream_error :: "nat \<Rightarrow> js_string \<Rightarrow> 'b stream_reply" where
  "stream_error n m = \<lparr>sp_code = n, sp_headers = [(lit ''Content-Type'', lit ''application/json'')],
     sp_body = StreamError m\<rparr>"

definition upstream_headers :: "js_string option \<Rightarrow> (js_string \<times> js_string) list" where
  "upstream_headers lastEventId =
     (lit ''Accept'', lit ''text/event-stream'')
     # (case lastEventId of None \<Rightarrow> [] | Some i \<Rightarrow> [(lit ''Last-Event-ID'', i)])"

text \<open>The call gives \<open>None\<close> where \<open>fetch\<close> throws.\<close>

definition stream_route ::
    "(upstream_request \<Rightarrow> 'b upstream option) \<Rightarrow> stream_request \<Rightarrow> 'b stream_reply" where
  "stream_route call req =
     (case sr_env req of
        None \<Rightarrow> stream_error 400 (lit ''env is required'')
      | Some env \<Rightarrow>
          if env = [] then stream_error 400 (lit ''env is required'')
          else case call \<lparr>ur_env = env, ur_headers = upstream_headers (sr_lastEventId req)\<rparr> of
            None \<Rightarrow> stream_error 502 (lit ''data plane unreachable'')
          | Some r \<Rightarrow>
              (case up_body r of
                 None \<Rightarrow> stream_error 502 (lit ''data plane returned an error'')
               | Some b \<Rightarrow>
                   if \<not> up_ok r then stream_error 502 (lit ''data plane returned an error'')
                   else \<lparr>sp_code = 200,
                     sp_headers = [(lit ''Content-Type'', lit ''text/event-stream''),
                       (lit ''Cache-Control'', lit ''no-cache, no-transform''), (lit ''Connection'', lit ''keep-alive''),
                       (lit ''X-Accel-Buffering'', lit ''no'')],
                     sp_body = Passed b\<rparr>))"

text \<open>
  A body reaches the browser only as the data plane sent it, for the environment and from the event that
  the browser named; everything else is an error that says which side failed.
\<close>

lemma stream_passes_upstream:
  "sp_code (stream_route call req) = 200 \<longleftrightarrow>
    (\<exists>env r b. sr_env req = Some env \<and> env \<noteq> []
      \<and> call \<lparr>ur_env = env, ur_headers = upstream_headers (sr_lastEventId req)\<rparr> = Some r
      \<and> up_ok r \<and> up_body r = Some b \<and> sp_body (stream_route call req) = Passed b)"
  by (auto simp: stream_route_def stream_error_def split: option.splits)

section \<open>The subscription\<close>

text \<open>
  An \<open>EventSource\<close> opens on a response with status 200 and the event stream type, and gives up for good
  on any other response; a stream that ends, or an attempt that gets no response, is tried again.
\<close>

datatype 'b attempt = Responded "'b stream_reply" | NoResponse | StreamEnded

definition event_stream :: "'b stream_reply \<Rightarrow> bool" where
  "event_stream r \<longleftrightarrow> sp_code r = 200 \<and> map_of (sp_headers r) (lit ''Content-Type'') = Some (lit ''text/event-stream'')"

fun attempt_event :: "'b attempt \<Rightarrow> stream_event" where
  "attempt_event (Responded r) = (if event_stream r then Opened else Errored True)"
| "attempt_event NoResponse = Errored False"
| "attempt_event StreamEnded = Errored False"

lemma route_opens:
  "attempt_event (Responded (stream_route call req)) = (if sp_code (stream_route call req) = 200 then Opened else Errored True)"
  by (auto simp: event_stream_def stream_route_def stream_error_def split: option.splits)

text \<open>
  So a data plane that is down for one attempt ends the subscription: the route answers for it, and the
  browser, which would try again if there were no answer, does not.
\<close>

lemma outage_ends_subscription:
  assumes "sr_env req = Some env" "env \<noteq> []" "\<And>u. call u = None"
  shows "stream_status (stream_step (attempt_event (Responded (stream_route call req))) s) = StreamFailed"
    and "stream_status (stream_step (attempt_event NoResponse) s) = Reconnecting"
proof -
  have "sp_code (stream_route call req) = 502" using assms by (simp add: stream_route_def stream_error_def)
  then show "stream_status (stream_step (attempt_event (Responded (stream_route call req))) s) = StreamFailed"
    by (simp only: route_opens) simp
qed simp

section \<open>The indicator\<close>

record indicator_copy =
  ic_label :: js_string
  ic_dot :: js_string
  ic_help :: js_string

definition COPY :: "stream_status \<Rightarrow> indicator_copy" where
  "COPY st =
     (case st of
        Connecting \<Rightarrow> \<lparr>ic_label = lit ''Connecting'', ic_dot = lit ''bg-muted'', ic_help = lit ''Opening the ruleset stream.''\<rparr>
      | Live \<Rightarrow> \<lparr>ic_label = lit ''Live'', ic_dot = lit ''bg-success'', ic_help = lit ''Receiving ruleset updates over SSE.''\<rparr>
      | Reconnecting \<Rightarrow> \<lparr>ic_label = lit ''Reconnecting'', ic_dot = lit ''bg-warning'',
          ic_help = lit ''The stream dropped. The browser is retrying, and this view may be stale.''\<rparr>
      | StreamFailed \<Rightarrow> \<lparr>ic_label = lit ''Offline'', ic_dot = lit ''bg-danger'',
          ic_help = lit ''The stream is closed. Flag states shown here may not match production.''\<rparr>)"

definition indicator_text :: "stream \<Rightarrow> js_string" where
  "indicator_text s =
     ic_label (COPY (stream_status s)) @
     (case shown_version s of None \<Rightarrow> [] | Some v \<Rightarrow> lit '' '' @ [0xB7] @ lit '' v'' @ number_to_string v)"

text \<open>
  After an event the label is \<open>Live\<close> exactly when the event is an opening, a frame with a newer version, or
  another frame while it was live already.
\<close>

lemma indicator_live:
  "ic_label (COPY (stream_status (stream_step e s))) = lit ''Live'' \<longleftrightarrow>
    (case e of
       Opened \<Rightarrow> True
     | RulesetFrame data now \<Rightarrow>
         (\<exists>v. frame_version data = Some v \<and> \<not> num_le v (highestVersion s)) \<or> stream_status s = Live
     | Resync \<Rightarrow> False
     | Errored gone \<Rightarrow> False)"
proof -
  have "ic_label (COPY st) = lit ''Live'' \<longleftrightarrow> st = Live" for st by (cases st) (simp_all add: COPY_def)
  then show ?thesis
    by (cases e) (auto simp: accept_version_def split: option.splits)
qed

end
