(* ===== verification/Uri.thy ===== *)
theory Uri
  imports Murmur Js_Text
begin

text \<open>
  The encodings by which the console writes texts into URLs and reads them back: \<open>encodeURIComponent\<close>,
  and the names and values of \<open>URLSearchParams\<close>, with the decoder of UTF-8 that the latter uses.
\<close>

section \<open>Decoding UTF-8\<close>

text \<open>
  The decoder of the Encoding standard: the number of bytes still needed, the range of the next one, and
  the bits so far. A byte out of place gives U+FFFD, and starts anew if it interrupted a sequence.
\<close>

fun utf8_decode :: "nat \<Rightarrow> int \<Rightarrow> int \<Rightarrow> int \<Rightarrow> int list \<Rightarrow> int list" where
  "utf8_decode needed lower upper cp [] = (if needed = 0 then [] else [0xFFFD])"
| "utf8_decode 0 lower upper cp (b # bs) =
     (if b < 0x80 then b # utf8_decode 0 0x80 0xBF 0 bs
      else if 0xC2 \<le> b \<and> b \<le> 0xDF then utf8_decode 1 0x80 0xBF (b - 0xC0) bs
      else if 0xE0 \<le> b \<and> b \<le> 0xEF
        then utf8_decode 2 (if b = 0xE0 then 0xA0 else 0x80) (if b = 0xED then 0x9F else 0xBF) (b - 0xE0) bs
      else if 0xF0 \<le> b \<and> b \<le> 0xF4
        then utf8_decode 3 (if b = 0xF0 then 0x90 else 0x80) (if b = 0xF4 then 0x8F else 0xBF) (b - 0xF0) bs
      else 0xFFFD # utf8_decode 0 0x80 0xBF 0 bs)"
| "utf8_decode (Suc n) lower upper cp (b # bs) =
     (if lower \<le> b \<and> b \<le> upper
      then (if n = 0 then (cp * 0x40 + (b - 0x80)) # utf8_decode 0 0x80 0xBF 0 bs
            else utf8_decode n 0x80 0xBF (cp * 0x40 + (b - 0x80)) bs)
      else 0xFFFD # utf8_decode 0 0x80 0xBF 0 (b # bs))"

text \<open>The code units of a code point.\<close>

definition code_units :: "int \<Rightarrow> js_string" where
  "code_units c =
     (if c < 0x10000 then [word_of_int c]
      else [word_of_int (0xD800 + (c - 0x10000) div 0x400), word_of_int (0xDC00 + (c - 0x10000) mod 0x400)])"

definition decode_bytes :: "8 word list \<Rightarrow> js_string" where
  "decode_bytes bs = concat (map code_units (utf8_decode 0 0x80 0xBF 0 (map uint bs)))"

text \<open>A text without a lone surrogate.\<close>

fun well_formed :: "js_string \<Rightarrow> bool" where
  "well_formed [] = True"
| "well_formed [u] = (\<not> is_high u \<and> \<not> is_low u)"
| "well_formed (u # v # us) =
     (if is_high u \<and> is_low v then well_formed us else \<not> is_high u \<and> \<not> is_low u \<and> well_formed (v # us))"

definition scalar :: "int \<Rightarrow> bool" where
  "scalar c \<longleftrightarrow> 0 \<le> c \<and> c < 0x110000 \<and> \<not> (0xD800 \<le> c \<and> c \<le> 0xDFFF)"

text \<open>The bytes of a code point as integers.\<close>

lemma uint_bytes:
  "map uint (utf8_bytes c) = map (\<lambda>x. x mod 256)
     (if c < 0x80 then [c]
      else if c < 0x800 then [0xC0 + c div 0x40, 0x80 + c mod 0x40]
      else if c < 0x10000 then
        [0xE0 + c div 0x1000, 0x80 + c div 0x40 mod 0x40, 0x80 + c mod 0x40]
      else [0xF0 + c div 0x40000, 0x80 + c div 0x1000 mod 0x40, 0x80 + c div 0x40 mod 0x40,
            0x80 + c mod 0x40])"
proof -
  have "uint (word_of_int x :: 8 word) = x mod 256" for x by (simp add: uint_word_of_int)
  then show ?thesis unfolding utf8_bytes_def map_map by (simp only: o_def)
qed

lemma utf8_decode_scalar:
  assumes "scalar c"
  shows "utf8_decode 0 lower upper cp (map uint (utf8_bytes c) @ bs) = c # utf8_decode 0 0x80 0xBF 0 bs"
proof -
  have c: "0 \<le> c" "c < 0x110000" using assms by (simp_all add: scalar_def)
  consider "c < 0x80" | "0x80 \<le> c" "c < 0x800" | "0x800 \<le> c" "c < 0x10000" | "0x10000 \<le> c" by linarith
  then show ?thesis
  proof cases
    case 1
    with c show ?thesis by (simp add: uint_bytes)
  next
    case 2
    define q r where "q = c div 64" and "r = c mod 64"
    have qr: "c = q * 64 + r" "0 \<le> r" "r < 64" by (simp_all add: q_def r_def)
    with 2 have "2 \<le> q" "q < 32" by linarith+
    with qr show ?thesis using 2 by (simp add: uint_bytes q_def [symmetric] r_def [symmetric])
  next
    case 3
    define q r s where "q = c div 4096" and "r = c div 64 mod 64" and "s = c mod 64"
    have "c = c div 64 * 64 + s" "c div 64 = c div 64 div 64 * 64 + r" by (simp_all add: r_def s_def)
    moreover have "c div 64 div 64 = q" by (simp add: q_def zdiv_zmult2_eq [symmetric])
    ultimately have eq: "c = q * 4096 + r * 64 + s" by simp
    have b: "0 \<le> r" "r < 64" "0 \<le> s" "s < 64" by (simp_all add: r_def s_def)
    have q: "0 \<le> q" "q < 16" using 3 by (simp_all add: q_def)
    have lo: "q = 0 \<Longrightarrow> 32 \<le> r" using eq b 3 by linarith
    have hi: "q = 13 \<Longrightarrow> r < 32" using eq b assms by (auto simp: scalar_def)
    have bytes: "map uint (utf8_bytes c) = [0xE0 + q, 0x80 + r, 0x80 + s]"
      using 3 q b by (simp add: uint_bytes q_def [symmetric] r_def [symmetric] s_def [symmetric])
    show ?thesis using q b lo hi unfolding bytes by (auto simp: eq numeral_2_eq_2 algebra_simps)
  next
    case 4
    define p q r s where "p = c div 262144" and "q = c div 4096 mod 64" and "r = c div 64 mod 64" and "s = c mod 64"
    have "c = c div 64 * 64 + s" "c div 64 = c div 64 div 64 * 64 + r" "c div 4096 = c div 4096 div 64 * 64 + q"
      by (simp_all add: q_def r_def s_def)
    moreover have "c div 64 div 64 = c div 4096" "c div 4096 div 64 = p" by (simp_all add: p_def zdiv_zmult2_eq [symmetric])
    ultimately have eq: "c = p * 262144 + q * 4096 + r * 64 + s" by simp
    have b: "0 \<le> q" "q < 64" "0 \<le> r" "r < 64" "0 \<le> s" "s < 64" by (simp_all add: q_def r_def s_def)
    with eq 4 c have p: "0 \<le> p" "p < 5" by linarith+
    have lo: "p = 0 \<Longrightarrow> 16 \<le> q" using eq b 4 by linarith
    have hi: "p = 4 \<Longrightarrow> q < 16" using eq b c by linarith
    have bytes: "map uint (utf8_bytes c) = [0xF0 + p, 0x80 + q, 0x80 + r, 0x80 + s]"
      using 4 p b by (simp add: uint_bytes p_def [symmetric] q_def [symmetric] r_def [symmetric] s_def [symmetric])
    show ?thesis using p b lo hi unfolding bytes by (auto simp: eq numeral_3_eq_3 algebra_simps)
  qed
qed

lemma uint_surrogates:
  "is_high u \<longleftrightarrow> 0xD800 \<le> uint u \<and> uint u \<le> 0xDBFF" "is_low u \<longleftrightarrow> 0xDC00 \<le> uint u \<and> uint u \<le> 0xDFFF"
  by (simp_all add: is_high_def is_low_def word_le_def)

lemma code_points_well_formed:
  "well_formed s \<Longrightarrow> list_all scalar (code_points s) \<and> concat (map code_units (code_points s)) = s"
proof (induction s rule: well_formed.induct)
  case (2 u)
  then show ?case using uint16_less [of u] by (auto simp: scalar_def uint_surrogates code_units_def)
next
  case (3 u v us)
  show ?case
  proof (cases "is_high u \<and> is_low v")
    case True
    then have h: "0xD800 \<le> uint u" "uint u \<le> 0xDBFF" "0xDC00 \<le> uint v" "uint v \<le> 0xDFFF" by (simp_all add: uint_surrogates)
    then have "scalar (code_point u v)" by (simp add: scalar_def code_point_def)
    moreover have "code_units (code_point u v) = [u, v]"
    proof -
      have "(code_point u v - 0x10000) div 0x400 = uint u - 0xD800" "(code_point u v - 0x10000) mod 0x400 = uint v - 0xDC00"
      proof -
        have eq: "code_point u v - 0x10000 = (uint u - 0xD800) * 0x400 + (uint v - 0xDC00)" by (simp add: code_point_def)
        show "(code_point u v - 0x10000) div 0x400 = uint u - 0xD800" unfolding eq using h by simp
        show "(code_point u v - 0x10000) mod 0x400 = uint v - 0xDC00"
          unfolding eq mod_mult_self3 using h by (intro mod_pos_pos_trivial) simp_all
      qed
      then show ?thesis using h by (simp add: code_units_def code_point_def)
    qed
    ultimately show ?thesis using 3 True by simp
  next
    case False
    with 3 show ?thesis using uint16_less [of u] by (auto simp: scalar_def uint_surrogates code_units_def)
  qed
qed simp

lemma decode_encoded:
  assumes "well_formed s"
  shows "decode_bytes (utf8 s) = s"
proof -
  have "utf8_decode 0 0x80 0xBF 0 (map uint (concat (map utf8_bytes cs))) = cs" if "list_all scalar cs" for cs
    using that by (induction cs) (simp_all add: utf8_decode_scalar)
  with code_points_well_formed [OF assms] show ?thesis by (simp add: decode_bytes_def utf8_def)
qed

section \<open>Percent encoding\<close>

definition hex_upper :: "nat \<Rightarrow> 16 word" where
  "hex_upper d = (if d < 10 then of_nat (48 + d) else of_nat (55 + d))"

definition percent_byte :: "8 word \<Rightarrow> js_string" where
  "percent_byte b = [0x25, hex_upper (unat b div 16), hex_upper (unat b mod 16)]"

definition hex_digit_value :: "8 word \<Rightarrow> nat option" where
  "hex_digit_value b =
     (if 0x30 \<le> b \<and> b \<le> 0x39 then Some (unat b - 48)
      else if 0x41 \<le> b \<and> b \<le> 0x46 then Some (unat b - 55)
      else if 0x61 \<le> b \<and> b \<le> 0x66 then Some (unat b - 87)
      else None)"

fun percent_decode :: "8 word list \<Rightarrow> 8 word list" where
  "percent_decode (b # h # l # bs) =
     (if b = 0x25
      then case (hex_digit_value h, hex_digit_value l) of
          (Some x, Some y) \<Rightarrow> of_nat (16 * x + y) # percent_decode bs
        | _ \<Rightarrow> b # percent_decode (h # l # bs)
      else b # percent_decode (h # l # bs))"
| "percent_decode (b # bs) = b # percent_decode bs"
| "percent_decode [] = []"

definition alphanumeric :: "16 word \<Rightarrow> bool" where
  "alphanumeric c \<longleftrightarrow> 0x30 \<le> c \<and> c \<le> 0x39 \<or> 0x41 \<le> c \<and> c \<le> 0x5A \<or> 0x61 \<le> c \<and> c \<le> 0x7A"

text \<open>\<open>encodeURIComponent\<close>, which throws a \<open>URIError\<close> for a lone surrogate: \<open>None\<close>.\<close>

definition uri_unreserved :: "16 word \<Rightarrow> bool" where
  "uri_unreserved c \<longleftrightarrow> alphanumeric c \<or> c \<in> {0x2D, 0x5F, 0x2E, 0x21, 0x7E, 0x2A, 0x27, 0x28, 0x29}"

definition uri_byte :: "8 word \<Rightarrow> js_string" where
  "uri_byte b = (if uri_unreserved (ucast b) then [ucast b] else percent_byte b)"

definition encodeURIComponent :: "js_string \<Rightarrow> js_string option" where
  "encodeURIComponent s = (if well_formed s then Some (concat (map uri_byte (utf8 s))) else None)"

text \<open>The serializer of \<open>URLSearchParams\<close> for a name or a value, and the parser of one.\<close>

definition form_safe :: "16 word \<Rightarrow> bool" where
  "form_safe c \<longleftrightarrow> alphanumeric c \<or> c \<in> {0x2A, 0x2D, 0x2E, 0x5F}"

definition form_byte :: "8 word \<Rightarrow> js_string" where
  "form_byte b = (if b = 0x20 then [0x2B] else if form_safe (ucast b) then [ucast b] else percent_byte b)"

definition form_encode :: "js_string \<Rightarrow> js_string" where
  "form_encode s = concat (map form_byte (utf8 s))"

definition form_bytes :: "js_string \<Rightarrow> 8 word list" where
  "form_bytes s = percent_decode (map (\<lambda>b. if b = 0x2B then 0x20 else b) (utf8 s))"

definition form_decode :: "js_string \<Rightarrow> js_string" where
  "form_decode s = decode_bytes (form_bytes s)"

text \<open>
  What the parser of a URL changes in such a text when it is a part of the query: it encodes the
  apostrophe, which both encodings may or may not leave alone.
\<close>

definition url_query :: "js_string \<Rightarrow> js_string" where
  "url_query s = concat (map (\<lambda>c. if c = 0x27 then [0x25, 0x32, 0x37] else [c]) s)"

section \<open>Encoded bytes are read back\<close>

definition ascii :: "js_string \<Rightarrow> bool" where
  "ascii s \<longleftrightarrow> list_all (\<lambda>c. c < 0x80) s"

lemma ascii_simps [simp]: "ascii []" "ascii (c # s) \<longleftrightarrow> c < 0x80 \<and> ascii s" "ascii (s @ t) \<longleftrightarrow> ascii s \<and> ascii t"
  by (simp_all add: ascii_def)

lemma utf8_plain: "ascii s \<Longrightarrow> utf8 s = map ucast s"
  by (simp add: ascii_def list_all_iff utf8_ascii)

lemma byte_unit [simp]: "ucast (ucast b :: 16 word) = (b :: 8 word)"
  by (rule bit_word_eqI) (simp add: bit_simps)

lemma unat_byte_unit: "unat (ucast b :: 16 word) = unat (b :: 8 word)"
  by (simp add: unsigned_ucast_eq take_bit_nat_eq_self_iff order_less_le_trans [OF unsigned_less])

text \<open>A text that stands for a byte in an encoded text.\<close>

definition stands_for :: "js_string \<Rightarrow> 8 word \<Rightarrow> bool" where
  "stands_for t b \<longleftrightarrow> t = percent_byte b \<or> t = [ucast b] \<and> b < 0x80 \<and> b \<noteq> 0x25 \<and> b \<noteq> 0x2B \<or> t = [0x2B] \<and> b = 0x20"

lemma hex_digits:
  assumes "n < 16"
  shows "hex_upper n < 0x80 \<and> hex_digit_value (ucast (hex_upper n)) = Some n \<and> ucast (hex_upper n) \<noteq> (0x2B :: 8 word)
    \<and> alphanumeric (hex_upper n)"
proof -
  have "\<forall>n \<in> set [0..<16]. hex_upper n < 0x80 \<and> hex_digit_value (ucast (hex_upper n)) = Some n
      \<and> ucast (hex_upper n) \<noteq> (0x2B :: 8 word) \<and> alphanumeric (hex_upper n)"
    by code_simp
  with assms show ?thesis by simp
qed

lemma byte_halves: "unat (b :: 8 word) div 16 < 16" "of_nat (16 * (unat b div 16) + unat b mod 16) = b"
proof -
  have "unat b < 2 ^ LENGTH(8)" by (rule unsigned_less)
  then show "unat b div 16 < 16" by simp
qed (simp only: mult_div_mod_eq, simp)

lemma stands_for_ascii:
  assumes "stands_for t b"
  shows "ascii t"
proof -
  have "ucast b < (0x80 :: 16 word)" if "b < 0x80" using that by (simp add: word_less_nat_alt unat_byte_unit)
  moreover have "unat b mod 16 < 16" by simp
  ultimately show ?thesis
    using assms hex_digits [of "unat b mod 16"] hex_digits [OF byte_halves(1) [of b]]
    by (auto simp: percent_byte_def stands_for_def)
qed

lemma form_bytes_step:
  assumes "stands_for t b" "ascii rest"
  shows "form_bytes (t @ rest) = b # form_bytes rest"
proof -
  have u: "utf8 (t @ rest) = map ucast t @ utf8 rest"
    using assms stands_for_ascii [OF assms(1)] by (simp add: utf8_plain)
  let ?p = "\<lambda>b :: 8 word. if b = 0x2B then 0x20 else b"
  have plain: "percent_decode (x # bs) = x # percent_decode bs" if "x \<noteq> 0x25" for x bs
    using that by (cases bs rule: remdups_adj.cases) simp_all
  have x: "unat b mod 16 < 16" by simp
  note h = hex_digits [OF byte_halves(1) [of b]] and l = hex_digits [OF x]
  from assms(1) consider "t = percent_byte b" | "t = [ucast b]" "b \<noteq> 0x25" "b \<noteq> 0x2B" | "t = [0x2B]" "b = 0x20"
    by (auto simp: stands_for_def)
  then show ?thesis
  proof cases
    case 1
    have "percent_decode (0x25 # ucast (hex_upper (unat b div 16)) # ucast (hex_upper (unat b mod 16)) # bs)
        = b # percent_decode bs" for bs
      using h l byte_halves(2) [of b] by simp
    moreover have "utf8 (t @ rest)
        = [0x25, ucast (hex_upper (unat b div 16)), ucast (hex_upper (unat b mod 16))] @ utf8 rest"
      unfolding u by (simp add: 1 percent_byte_def)
    ultimately show ?thesis using h l by (simp add: form_bytes_def)
  next
    case 2
    then show ?thesis unfolding form_bytes_def u by (simp add: plain)
  next
    case 3
    then show ?thesis unfolding form_bytes_def u by (simp add: plain)
  qed
qed

lemma form_bytes_encoded:
  assumes "\<And>b. stands_for (f b) b"
  shows "ascii (concat (map f bs)) \<and> form_bytes (concat (map f bs)) = bs"
proof (induction bs)
  case Nil
  show ?case by (simp add: form_bytes_def utf8_def)
next
  case (Cons b bs)
  with stands_for_ascii [OF assms] form_bytes_step [OF assms] show ?case by simp
qed

lemma form_decode_encoded:
  "(\<And>b. stands_for (f b) b) \<Longrightarrow> well_formed s \<Longrightarrow> form_decode (concat (map f (utf8 s))) = s"
  by (simp add: form_decode_def form_bytes_encoded decode_encoded)

end
