(* ===== verification/Urls.thy ===== *)
theory Urls
  imports Uri Console_Api
begin

text \<open>
  The texts of the console's requests: the paths that \<open>lib/api.ts\<close> builds, how a URL is taken apart, the
  route handlers under \<open>app/api\<close> with \<open>queryOf\<close> of \<open>proxy.ts\<close>, and the routes of the control plane. How the
  two frameworks decode a path parameter, and how Fastify reads a query, are parameters; the addresses
  of the two servers have no path of their own.
\<close>

section \<open>Values in a query\<close>







lemma url_query_simps [simp]:
  "url_query [] = []" "url_query (s @ t) = url_query s @ url_query t"
  "url_query (c # s) = (if c = 0x27 then [0x25, 0x32, 0x37] else [c]) @ url_query s"
  by (simp_all add: url_query_def)









section \<open>The two encodings\<close>










section \<open>Requests as texts\<close>









section \<open>The parser of URLs\<close>





section \<open>The route handlers of the console\<close>











section \<open>The routes of the control plane\<close>



section \<open>Texts with plain segments\<close>









section \<open>The query through the proxy\<close>








section \<open>Requests arrive\<close>



















end
