(* ===== verification/Startup.thy ===== *)
theory Startup
  imports Migrations ClickHouse
begin

text \<open>
  The start of the control plane's process, the last lines of \<open>server.ts\<close>: Postgres is migrated, then
  ClickHouse, whose failure is only reported, then the port is taken; any other failure ends the process.
  Whether the port is free is a parameter.
\<close>

datatype start_report =
    AppliedMigrations "js_string list"
  | AppliedClickHouse nat
  | ClickHouseNotApplied ch_error
  | StartFailed js_string

datatype process_state = Listening js_number | Exited nat

record ('s, 't) start_result =
  process :: process_state
  reports :: "start_report list"
  postgres :: "'s migrated"
  clickhouse :: 't

text \<open>The \<open>try\<close> around \<open>migrateClickHouse\<close>.\<close>

definition try_clickhouse ::
    "'t ch_server \<Rightarrow> ch_client \<Rightarrow> directory \<Rightarrow> 't \<Rightarrow> start_report \<times> 't" where
  "try_clickhouse server c dir t =
     (case migrateClickHouse server c dir t of
        (Inr n, t') \<Rightarrow> (AppliedClickHouse n, t')
      | (Inl e, t') \<Rightarrow> (ClickHouseNotApplied e, t'))"

definition start_server ::
    "(js_string \<Rightarrow> 's \<Rightarrow> js_string + 's) \<Rightarrow> directory \<Rightarrow> 't ch_server \<Rightarrow> ch_client \<Rightarrow> directory
     \<Rightarrow> (js_number \<Rightarrow> js_string option) \<Rightarrow> js_number \<Rightarrow> 's migrated \<Rightarrow> 't \<Rightarrow> ('s, 't) start_result" where
  "start_server run dir server c ch_dir listen port s t =
     (case migrate run dir s of
        (Inl e, s') \<Rightarrow> \<lparr>process = Exited 1, reports = [StartFailed e], postgres = s', clickhouse = t\<rparr>
      | (Inr names, s') \<Rightarrow>
          (case try_clickhouse server c ch_dir t of
             (report, t') \<Rightarrow>
               let log = (if 0 < length names then [AppliedMigrations names] else []) @ [report] in
               (case listen port of
                  None \<Rightarrow> \<lparr>process = Listening port, reports = log, postgres = s', clickhouse = t'\<rparr>
                | Some e \<Rightarrow>
                    \<lparr>process = Exited 1, reports = log @ [StartFailed e], postgres = s', clickhouse = t'\<rparr>)))"

lemma listening_migrated:
  "process (start_server run dir server c ch_dir listen port s t) = Listening p \<longleftrightarrow>
    (\<exists>names. fst (migrate run dir s) = Inr names) \<and> listen port = None \<and> p = port"
  by (auto simp: start_server_def Let_def split: prod.splits sum.splits option.splits)

lemma postgres_after_start [simp]:
  "postgres (start_server run dir server c ch_dir listen port s t) = snd (migrate run dir s)"
  by (simp add: start_server_def Let_def split: prod.split sum.split option.split)

text \<open>
  A process that listens serves a complete schema: no migration is pending, and every one that was
  pending has been applied, in the order of the names. A process that does not listen has ended with the
  code 1 and has said why, as its last report.
\<close>

lemma process_serves_a_complete_schema:
  assumes "distinct (map fst dir)" and "r = start_server run dir server c ch_dir listen port s t"
  shows "(process r = Listening port \<and> pending_files (postgres r) dir = []
      \<and> apply_all run (pending_files s dir) (mg_schema s) = Some (mg_schema (postgres r)))
    \<or> (process r = Exited 1 \<and> (\<exists>e. last (reports r) = StartFailed e))"
proof (cases "process r = Exited 1")
  case True
  then show ?thesis
    by (auto simp: assms(2) start_server_def Let_def split: prod.splits sum.splits option.splits)
next
  case False
  then have "process r = Listening port" and ok: "\<exists>names. fst (migrate run dir s) = Inr names"
    by (auto simp: assms(2) start_server_def Let_def split: prod.splits sum.splits option.splits)
  obtain outcome s' where m: "migrate run dir s = (outcome, s')" by force
  obtain finished rest where parts: "pending_files s dir = finished @ rest" "pending_files s' dir = rest"
      "progress run s finished s'" "rest = [] \<and> outcome = Inr (map fst finished) \<or> stopped_at run s' rest outcome"
    by (rule migrate_parts [OF assms(1) m])
  then have "rest = []" using ok m by (auto simp: stopped_at_def)
  with parts m \<open>process r = Listening port\<close> show ?thesis by (simp add: assms(2) progress_def)
qed

text \<open>ClickHouse decides neither whether the process serves nor what it serves.\<close>

lemma clickhouse_does_not_stop_the_server:
  "process (start_server run dir server c ch_dir listen port s t)
     = process (start_server run dir server' c' ch_dir' listen port s t')"
  "postgres (start_server run dir server c ch_dir listen port s t)
     = postgres (start_server run dir server' c' ch_dir' listen port s t')"
  by (simp_all add: start_server_def Let_def split: prod.split sum.split option.split)

text \<open>A process that has listened can be started again: it applies nothing to Postgres and listens.\<close>

lemma restart_applies_nothing:
  assumes "distinct (map fst dir)"
    and "process (start_server run dir server c ch_dir listen port s t) = Listening p"
    and "s' = postgres (start_server run dir server c ch_dir listen port s t)"
  shows "process (start_server run dir server c ch_dir listen port s' t') = Listening p"
    and "postgres (start_server run dir server c ch_dir listen port s' t') = s'"
    and "AppliedMigrations names \<notin> set (reports (start_server run dir server c ch_dir listen port s' t'))"
proof -
  obtain outcome where m: "migrate run dir s = (outcome, s')" by (cases "migrate run dir s") (simp add: assms(3))
  have ok: "outcome \<noteq> Inl e" "listen port = None" "p = port" for e using assms(2) m by (auto simp: listening_migrated)
  have again: "migrate run dir s' = (Inr [], s')"
    by (rule migrate_parts [OF assms(1) m]) (use ok(1) in \<open>auto simp: stopped_at_def intro: nothing_to_migrate\<close>)
  from again ok show "process (start_server run dir server c ch_dir listen port s' t') = Listening p"
    by (simp add: listening_migrated)
  from again show "postgres (start_server run dir server c ch_dir listen port s' t') = s'" by simp
  from again ok(2) show "AppliedMigrations names \<notin> set (reports (start_server run dir server c ch_dir listen port s' t'))"
    by (auto simp: start_server_def try_clickhouse_def Let_def split: prod.split sum.split)
qed

end
