(* ===== verification/Spec2Isabelle.thy ===== *)
theory Spec2Isabelle
  imports Client Stream Ingest Ruleset Publishing Service Sequential Flag_List Flag_Detail
    ClickHouse Rollup Delivery Interval_Chart Aa_Simulation Audit_Log Conformance Stream_Route
    Urls Startup
begin

text \<open>
  \<^bold>\<open>A verification library for the flagship feature-flag platform.\<close>

  \<^bold>\<open>The program.\<close> The platform serves feature flags and measures what they do. Its TypeScript code has
  four parts, and each theory below is named after the file or the part that it models.

  \<^item> \<open>packages/core\<close> decides. A flag, with its targeting rules, prerequisites and a percentage rollout, is
    evaluated for a context; a rollout hashes the flag, its salt and the context into one of 100000
    buckets. The same package filters a ruleset for client keys, and holds the statistics.
  \<^item> \<open>apps/control-plane\<close> stores. Flags live in PostgreSQL; a publish compiles and validates them into a
    payload for server keys and one for client keys under a new version. The HTTP server answers the
    console and the SDKs, takes exposures and writes them to ClickHouse.
  \<^item> \<open>packages/sdk-js\<close> serves. A client holds the newest payload, evaluates in process, and buffers
    exposures, which a timer sends to the control plane in batches.
  \<^item> \<open>apps/console\<close> edits and shows. Its pages list and edit flags, preview the two payloads, show the
    version that the stream announces and the audit log, and analyse simulated experiments.

  A request of the console goes from \<open>lib/api.ts\<close> in the browser to a route handler of the console's own
  server, which adds the token, and on to the control plane. A payload goes from \<open>publishRuleset\<close> over
  \<open>latestSnapshot\<close> or the data plane to the SDK client, whose evaluation gives an exposure, which the buffer
  hands to its transport, the ingest route to the writer, the writer to ClickHouse, and the queries on it to
  the statistics.

  \<^bold>\<open>Foundations.\<close>

  \<^item> \<open>Prelude\<close> has strings (lists of UTF-16 code units, \<open>lit\<close> for literals), maps in the insertion order
    of a JavaScript \<open>Map\<close>, the collection \<open>js_simps\<close>, and generic lemmas. \<open>Js_Text\<close> has \<open>trim\<close> and \<open>split\<close>.
  \<^item> \<open>Js_Number\<close> is binary64: a finite number is a rational, \<open>round_double\<close> rounds to nearest even, and
    \<open>NaN\<close> and the infinities are constructors; the two zeros are one. \<open>Js_Math\<close> gives the type the operators
    of the library and the record \<open>math\<close> of the functions that ECMAScript leaves to the implementation.
  \<^item> \<open>Js_Value\<close> is the values that \<open>JSON.parse\<close> gives, with property access, \<open>typeof\<close>, \<open>String\<close> and
    \<open>Number\<close>. \<open>Json\<close> is the text of \<open>JSON.stringify\<close>. \<open>Dates\<close> is \<open>toISOString\<close>.
  \<^item> \<open>Version_Guard\<close> and \<open>Pipeline\<close> are the interfaces that several components implement (below).

  \<^bold>\<open>Core.\<close>

  \<^item> \<open>Types\<close> (\<open>types.ts\<close>): rule trees, flags, segments, snapshots, results.
  \<^item> \<open>Murmur\<close> (\<open>murmur.ts\<close>): the hash on 32-bit words, the UTF-8 encoder, and the scratch buffer that all
    calls share. The reference is the published MurmurHash3 on integers, and the hash of a text is the
    reference hash of its bytes, whatever the buffer held before.
  \<^item> \<open>Bucketing\<close> (\<open>bucketing.ts\<close>): the walk over a rollout; how many buckets each variation gets, and that
    growing a slice moves no one between other slices.
  \<^item> \<open>Operators\<close> (\<open>operators.ts\<close>): every operator, SemVer precedence, the cache of regular expressions.
  \<^item> \<open>Evaluate\<close> (\<open>evaluate.ts\<close>): \<open>matchNode\<close> and \<open>evaluateInternal\<close>. The sets of seen keys, which the
    code fills and empties around each call, are arguments, and the recursion ends by a measure on the keys
    not seen yet. A relation says which decision a flag dictates for a context, and every result is that of
    its decision.
  \<^item> \<open>Visibility\<close> (\<open>visibility.ts\<close>): the loop that finds the client-safe segments is compared with the
    inductive \<open>safe_key\<close>; the filtered payload has no server-only condition, and its rules match as on the
    server.
  \<^item> \<open>Distributions\<close>, \<open>Frequentist\<close>, \<open>Sequential\<close>, \<open>Srm\<close> (\<open>stats\<close>): every function, in the order of the
    source's operations on binary64.
  \<^item> \<open>Conformance\<close> (\<open>scripts/generate-fixture.ts\<close>, and \<open>scripts/conformance.ts\<close> of the SDK): the fixture that ties
    every SDK to one hash; its generator ends, and the check accepts what it wrote. \<open>Aa_Simulation\<close>
    (\<open>scripts/aa-simulation.ts\<close>): what the simulation of repeated looks counts.

  \<^bold>\<open>Control plane.\<close>

  \<^item> \<open>Ruleset\<close> (\<open>ruleset.ts\<close>): validation of the JSON of rule trees, of flags and of prerequisites, with the
    order of the problems; the depth-first search for prerequisite cycles; compilation. An accepted ruleset
    never makes the evaluator answer with an error.
  \<^item> \<open>Keys\<close> (\<open>keys.ts\<close>), \<open>Migrations\<close> (\<open>db.ts\<close>): API keys; transactions and the migration runner.
  \<^item> \<open>Database\<close>, \<open>Repository\<close> (\<open>repository.ts\<close>): tables as lists of rows, each query and transaction as a
    function on them. \<open>Store\<close> is the invariant \<open>db_ok\<close> and its preservation; \<open>Publishing\<close> is publishing as
    the refinement of a versioned register; \<open>Tenancy\<close> is the separation of tenants.
  \<^item> \<open>Server\<close> (\<open>server.ts\<close>): all routes, as \<open>handle\<close> on the state \<open>server\<close>. \<open>Service\<close> has what holds from end
    to end over any sequence of requests, and \<open>Startup\<close> the start of the process: it serves only when every
    migration has been applied, whether or not ClickHouse answers.
  \<^item> \<open>Ingest\<close>, \<open>Rollup\<close> (\<open>exposures.ts\<close>), \<open>ClickHouse\<close> (\<open>clickhouse.ts\<close>): validation of batches, the writer
    with its limit on rows in flight, the queries, the hourly rollup, and the client of the store's HTTP
    interface.

  \<^bold>\<open>SDK.\<close> \<open>Client\<close> (\<open>client.ts\<close>) and \<open>Exposure_Buffer\<close> (\<open>exposure.ts\<close>); \<open>Delivery\<close> has the HTTP transport
  and follows an exposure from \<open>record\<close> to the stored row, with the figures that both ends report. An \<open>await\<close> splits a function in two steps, so that
  the state machine of the buffer has every interleaving of recordings, timer ticks, settlements and \<open>close\<close>.

  \<^bold>\<open>Console.\<close>

  \<^item> \<open>Stream\<close> (\<open>useRulesetStream.ts\<close>) and \<open>Stream_Route\<close> (\<open>app/api/stream/route.ts\<close>, \<open>StreamIndicator.tsx\<close>): the
    subscription, the route that passes the channel on, and the texts of the indicator.
  \<^item> \<open>Console_Api\<close> (\<open>lib/api.ts\<close>, \<open>forward\<close> of \<open>app/api/proxy.ts\<close>): what the browser is told of a request. \<open>Uri\<close>
    and \<open>Urls\<close>: the encodings of texts, the paths that \<open>api\<close> builds, \<open>queryOf\<close> and the route handlers; every
    call arrives at the control plane as it was meant.
  \<^item> \<open>Rule_Builder\<close>, \<open>Flag_List\<close>, \<open>Flag_Detail\<close>, \<open>Audit_Log\<close>, \<open>Preview\<close> (\<open>PayloadPlayground.tsx\<close>),
    \<open>Experiments\<close> and \<open>Interval_Chart\<close>: the pages. A page is its state and a step function over clicks and
    answers; an effect of React runs in the step that changes what it depends on. Answers arrive in any
    order; \<open>Audit_Log\<close> also has the page, the requests in flight and the server in one step relation.

  \<^bold>\<open>Interfaces.\<close> \<open>version_guard\<close> is the contract of a holder that takes only newer payloads; the laws about
  reordered and repeated delivery are proved in it, and \<open>client_guard\<close> and \<open>stream_guard\<close> interpret it on the
  client and the console. \<open>accounting\<close> and its extension \<open>bounded_pipeline\<close> are the contract of a queue that
  counts what it takes, sends, drops and fails; \<open>buffer_pipeline\<close> and \<open>writer_pipeline\<close> interpret it on the
  SDK buffer and the writer of the control plane. \<open>positions\<close> is reading and replacing at a path, interpreted
  on rule trees. \<open>value_encoding\<close> is what a value in a query relies on, interpreted as \<open>uri\<close> on
  \<open>encodeURIComponent\<close> and as \<open>form\<close> on the serializer of \<open>URLSearchParams\<close>.

  \<^bold>\<open>Bounds and fuel.\<close> The search for prerequisite cycles has fuel of two more than the number of flags: each
  nested call adds another flag to the path, and \<open>visit_enough\<close> shows that the fuel is never used up. The
  loop for safe segments adds a segment in each round but the last. The loop that fills the fixture is a
  partial function, and \<open>fill_returns\<close> shows that it returns. The loops of \<open>Distributions\<close> count
  down from the bounds of the source (200 and 499). Hashes are on \<open>32 word\<close>, bytes on \<open>8 word\<close>, code units on
  \<open>16 word\<close>; the sizes of queues and the counters are natural numbers, which stay far below \<open>2 ^ 53\<close>.

  \<^bold>\<open>Parameters.\<close> What is not TypeScript of the repository is an argument: the engine of regular expressions,
  SHA-256 and random bytes, the clock, \<open>Date.parse\<close>, the collation of the database, the text of a payload,
  \<open>JSON.parse\<close>, the functions of \<open>Math\<close>, what SQL makes of a file of migrations, the sketch that counts
  distinct contexts, the network, the server of ClickHouse, the data plane, and how Next.js and Fastify decode the
  parameters of a path.

  \<^bold>\<open>Not modelled.\<close> Markup, class names and printed reports, which have no logic of their own; the options of the
  connection pool and the wiring of the objects at the start, which have no logic either; the reading and writing of the
  fixture file; benchmarks, which measure time; merges of parts and the TTL in ClickHouse, which happen in the
  store; the data plane and the Go SDK, which are not TypeScript.
\<close>

end
